(* ===== verification/Prelude.thy ===== *)
theory Prelude
  imports Main "HOL-Library.Word" "HOL-Library.Monad_Syntax"
begin

text \<open>
  What the component theories share: the names of the machine types, fallible results and
  their sequencing (Rust's \<open>?\<close>), bytes and strings, the little-endian and big-endian
  encodings of unsigned integers, UTF-8 validity as \<open>String::from_utf8\<close> checks it, and the
  interfaces (locales) that several components provide or use.
\<close>

section \<open>Machine types\<close>

type_synonym u8 = "8 word"
type_synonym u16 = "16 word"
type_synonym u32 = "32 word"
type_synonym u64 = "64 word"
type_synonym byte = u8

named_theorems res_simps \<open>sequencing of fallible results\<close>

section \<open>Fallible results\<close>

text \<open>\<open>and_then m f\<close> is Rust's \<open>f(m?)\<close>: the first error is returned at once.\<close>

definition and_then :: "'e + 'a \<Rightarrow> ('a \<Rightarrow> 'e + 'b) \<Rightarrow> 'e + 'b" where
  "and_then m f = (case m of Inl e \<Rightarrow> Inl e | Inr x \<Rightarrow> f x)"

definition ensure :: "bool \<Rightarrow> 'e \<Rightarrow> 'e + unit" where
  "ensure b e = (if b then Inr () else Inl e)"

lemma and_then_Inl [simp, res_simps]: "and_then (Inl e) f = Inl e"
  by (simp add: and_then_def)

lemma and_then_Inr [simp, res_simps]: "and_then (Inr x) f = f x"
  by (simp add: and_then_def)

lemma and_then_eq_Inr [simp, res_simps]:
  "and_then m f = Inr y \<longleftrightarrow> (\<exists>x. m = Inr x \<and> f x = Inr y)"
  by (cases m) auto

lemma and_then_eq_Inl [simp, res_simps]:
  "and_then m f = Inl e \<longleftrightarrow> m = Inl e \<or> (\<exists>x. m = Inr x \<and> f x = Inl e)"
  by (cases m) auto

lemma and_then_cong [fundef_cong]:
  "m = m' \<Longrightarrow> (\<And>x. m' = Inr x \<Longrightarrow> f x = f' x) \<Longrightarrow> and_then m f = and_then m' f'"
  by (cases m') auto

lemma ensure_eq_Inr [simp, res_simps]: "ensure b e = Inr u \<longleftrightarrow> b"
  by (simp add: ensure_def)

lemma ensure_eq_Inl [simp, res_simps]: "ensure b e = Inl e' \<longleftrightarrow> \<not> b \<and> e' = e"
  by (auto simp: ensure_def)

lemma ensure_True [simp]: "ensure True e = Inr ()"
  by (simp add: ensure_def)

text \<open>A loop that threads a state through fallible steps.\<close>

fun fold_opt :: "('x \<Rightarrow> 's \<Rightarrow> 's option) \<Rightarrow> 'x list \<Rightarrow> 's \<Rightarrow> 's option" where
  "fold_opt f [] s = Some s"
| "fold_opt f (x # xs) s = Option.bind (f x s) (fold_opt f xs)"

lemma fold_opt_cong [fundef_cong]:
  "xs = ys \<Longrightarrow> s = t \<Longrightarrow> (\<And>x u. x \<in> set ys \<Longrightarrow> f x u = g x u) \<Longrightarrow>
     fold_opt f xs s = fold_opt g ys t"
proof (induction xs arbitrary: ys s t)
  case Nil
  then show ?case by simp
next
  case (Cons x xs)
  then show ?case by (cases "g x t") auto
qed

lemma fold_opt_append:
  "fold_opt f (xs @ ys) s = Option.bind (fold_opt f xs s) (fold_opt f ys)"
  by (induction xs arbitrary: s) (auto simp: bind_assoc split: Option.bind_splits)

section \<open>Padding to a multiple\<close>

definition pad_to :: "nat \<Rightarrow> nat \<Rightarrow> nat" where
  "pad_to n len = (n - len mod n) mod n"

lemma pad_to_multiple: "0 < n \<Longrightarrow> (len + pad_to n len) mod n = 0"
proof -
  assume n: "0 < n"
  show ?thesis
  proof (cases "len mod n = 0")
    case True
    then show ?thesis using n by (simp add: pad_to_def)
  next
    case False
    then have "pad_to n len = n - len mod n" using n by (simp add: pad_to_def)
    moreover have "len + (n - len mod n) = len div n * n + n"
      using n mod_less_divisor [OF n, of len] div_mult_mod_eq [of len n] by linarith
    ultimately show ?thesis by simp
  qed
qed

lemma pad_to_less: "0 < n \<Longrightarrow> pad_to n len < n"
  by (simp add: pad_to_def)

lemma pad_to_zero [simp]: "len mod n = 0 \<Longrightarrow> pad_to n len = 0"
  by (simp add: pad_to_def)

lemma pad_to_1 [simp]: "pad_to (Suc 0) len = 0"
  by (simp add: pad_to_def)

lemma pad_to_idem: "0 < n \<Longrightarrow> pad_to n (len + pad_to n len) = 0"
  by (simp add: pad_to_multiple)

section \<open>Little-endian and big-endian integers\<close>

fun le_bytes :: "nat \<Rightarrow> nat \<Rightarrow> byte list" where
  "le_bytes 0 n = []"
| "le_bytes (Suc k) n = of_nat n # le_bytes k (n div 256)"

fun le_nat :: "byte list \<Rightarrow> nat" where
  "le_nat [] = 0"
| "le_nat (b # bs) = unat b + 256 * le_nat bs"

lemma unat_byte_less: "unat (b :: byte) < 256"
  using unsigned_less [of b, where 'a = nat] by simp

lemma length_le_bytes [simp]: "length (le_bytes k n) = k"
  by (induction k arbitrary: n) auto

lemma le_nat_bound: "le_nat bs < 256 ^ length bs"
proof (induction bs)
  case Nil
  then show ?case by simp
next
  case (Cons b bs)
  have "unat b < 256" by (rule unat_byte_less)
  with Cons show ?case by simp
qed

lemma le_nat_le_bytes: "le_nat (le_bytes k n) = n mod 256 ^ k"
proof (induction k arbitrary: n)
  case 0
  then show ?case by simp
next
  case (Suc k)
  have "unat (of_nat n :: byte) = n mod 256" by (simp add: unat_of_nat)
  then show ?case using Suc by (simp add: mod_mult2_eq)
qed

lemma le_bytes_le_nat: "le_bytes (length bs) (le_nat bs) = bs"
proof (induction bs)
  case Nil
  then show ?case by simp
next
  case (Cons b bs)
  have "unat b < 256" by (rule unat_byte_less)
  moreover have "(of_nat (unat b + 256 * le_nat bs) :: byte) = b"
  proof -
    have "(256 :: byte) = 0" by simp
    then have "(of_nat (256 * le_nat bs) :: byte) = 0"
      by (simp only: of_nat_mult of_nat_numeral mult_zero_left)
    then show ?thesis by simp
  qed
  ultimately show ?case using Cons by simp
qed

text \<open>\<open>u32::to_le_bytes\<close> and its kin at 2, 4 and 8 bytes, and their inverses.\<close>

definition to_le :: "'w::len word \<Rightarrow> byte list" where
  "to_le w = le_bytes (LENGTH('w) div 8) (unat w)"

definition from_le :: "byte list \<Rightarrow> 'w::len word" where
  "from_le bs = of_nat (le_nat bs)"

definition from_be :: "byte list \<Rightarrow> 'w::len word" where
  "from_be bs = from_le (rev bs)"

definition to_be :: "'w::len word \<Rightarrow> byte list" where
  "to_be w = rev (to_le w)"

lemma length_to_le [simp]: "length (to_le (w :: 'w::len word)) = LENGTH('w) div 8"
  by (simp add: to_le_def)

lemma to_le_eq_Nil [simp]: "to_le (w :: 'w::len word) = [] \<longleftrightarrow> LENGTH('w) div 8 = 0"
  by (simp only: flip: length_0_conv) simp

lemma from_to_le:
  assumes "8 dvd LENGTH('w::len)"
  shows "from_le (to_le (w :: 'w word)) = w"
proof -
  from assms have "(256 :: nat) ^ (LENGTH('w) div 8) = 2 ^ LENGTH('w)"
    by (simp add: power_mult [symmetric] dvd_mult_div_cancel
        flip: power_mult [of "2::nat" 8, simplified])
  then show ?thesis
    by (simp add: from_le_def to_le_def le_nat_le_bytes)
qed

lemma to_from_le:
  assumes "length bs * 8 = LENGTH('w::len)"
  shows "to_le (from_le bs :: 'w word) = bs"
proof -
  have pw: "(256 :: nat) ^ length bs = 2 ^ LENGTH('w)"
    by (simp flip: assms power_mult [of "2::nat" 8, simplified] add: mult.commute)
  have "le_nat bs < 2 ^ LENGTH('w)"
    using le_nat_bound [of bs] pw by simp
  then have "unat (of_nat (le_nat bs) :: 'w word) = le_nat bs"
    by (simp add: unat_of_nat)
  moreover have "LENGTH('w) div 8 = length bs" using assms by simp
  ultimately show ?thesis
    by (simp add: to_le_def from_le_def le_bytes_le_nat)
qed

lemma from_to_le16 [simp]: "from_le (to_le (w :: u16)) = w"
  by (rule from_to_le) simp

lemma from_to_le32 [simp]: "from_le (to_le (w :: u32)) = w"
  by (rule from_to_le) simp

lemma from_to_le64 [simp]: "from_le (to_le (w :: u64)) = w"
  by (rule from_to_le) simp

section \<open>Bytes and strings\<close>

text \<open>
  A Rust \<open>String\<close> is its UTF-8 bytes; the model's \<^typ>\<open>string\<close> holds one
  \<^typ>\<open>char\<close> per byte, so lengths and slices count bytes as the source does.
\<close>

definition byte_of :: "char \<Rightarrow> byte" where
  "byte_of c = of_nat (of_char c)"

definition char_of_byte :: "byte \<Rightarrow> char" where
  "char_of_byte b = char_of (unat b)"

abbreviation bytes_of :: "string \<Rightarrow> byte list" where
  "bytes_of s \<equiv> map byte_of s"

abbreviation string_of :: "byte list \<Rightarrow> string" where
  "string_of bs \<equiv> map char_of_byte bs"

lemma of_char_less_256: "(of_char c :: nat) < 256"
  by (metis of_char_mod_256 mod_less_divisor zero_less_numeral)

lemma unat_byte_of: "unat (byte_of c) = of_char c"
  by (simp add: byte_of_def unat_of_nat of_char_less_256)

lemma char_of_byte_of [simp]: "char_of_byte (byte_of c) = c"
  by (simp add: char_of_byte_def unat_byte_of)

lemma byte_of_char_of [simp]: "byte_of (char_of_byte b) = b"
  using unat_byte_less [of b] by (simp add: char_of_byte_def byte_of_def)

lemma char_byte_comp [simp]: "char_of_byte \<circ> byte_of = id" "byte_of \<circ> char_of_byte = id"
  by (simp_all add: fun_eq_iff)

lemma byte_of_eq_iff [simp]: "byte_of c = byte_of d \<longleftrightarrow> c = d"
  by (metis char_of_byte_of)

lemma string_of_bytes_of [simp]: "string_of (bytes_of s) = s"
  by (induction s) auto

lemma bytes_of_string_of [simp]: "bytes_of (string_of bs) = bs"
  by (induction bs) auto

section \<open>Indexing, and UTF-8\<close>

text \<open>\<open>slice.get(i)\<close>.\<close>

definition nth_opt :: "'a list \<Rightarrow> nat \<Rightarrow> 'a option" where
  "nth_opt xs i = (if i < length xs then Some (xs ! i) else None)"

lemma nth_opt_0 [simp]: "nth_opt (x # xs) 0 = Some x" "nth_opt [] i = None"
  by (simp_all add: nth_opt_def)

lemma nth_opt_Suc [simp]: "nth_opt (x # xs) (Suc i) = nth_opt xs i"
  by (simp add: nth_opt_def)

lemma nth_opt_append_length [simp]: "nth_opt (xs @ y # ys) (length xs) = Some y"
  by (simp add: nth_opt_def)

lemma find_SomeD: "find P xs = Some x \<Longrightarrow> x \<in> set xs \<and> P x"
  by (induction xs) (auto split: if_splits)

text \<open>The byte sequences \<open>String::from_utf8\<close> accepts (Unicode, table 3-7).\<close>

definition in_range :: "nat \<Rightarrow> nat \<Rightarrow> byte \<Rightarrow> bool" where
  "in_range lo hi b \<longleftrightarrow> lo \<le> unat b \<and> unat b \<le> hi"

definition second_ok :: "byte \<Rightarrow> byte \<Rightarrow> bool" where
  "second_ok a b \<longleftrightarrow>
     (if a = 0xE0 then in_range 0xA0 0xBF b
      else if a = 0xED then in_range 0x80 0x9F b
      else if a = 0xF0 then in_range 0x90 0xBF b
      else if a = 0xF4 then in_range 0x80 0x8F b
      else in_range 0x80 0xBF b)"

fun utf8_valid :: "byte list \<Rightarrow> bool" where
  "utf8_valid [] = True"
| "utf8_valid (a # bs) =
     (if unat a < 0x80 then utf8_valid bs
      else if in_range 0xC2 0xDF a then
        (case bs of b # bs' \<Rightarrow> second_ok a b \<and> utf8_valid bs' | [] \<Rightarrow> False)
      else if in_range 0xE0 0xEF a then
        (case bs of b # c # bs' \<Rightarrow> second_ok a b \<and> in_range 0x80 0xBF c \<and> utf8_valid bs'
         | _ \<Rightarrow> False)
      else if in_range 0xF0 0xF4 a then
        (case bs of b # c # d # bs' \<Rightarrow>
           second_ok a b \<and> in_range 0x80 0xBF c \<and> in_range 0x80 0xBF d \<and> utf8_valid bs'
         | _ \<Rightarrow> False)
      else False)"

lemma utf8_valid_ascii: "(\<And>b. b \<in> set bs \<Longrightarrow> unat b < 0x80) \<Longrightarrow> utf8_valid bs"
  by (induction bs) auto

lemma utf8_append: "utf8_valid xs \<Longrightarrow> utf8_valid ys \<Longrightarrow> utf8_valid (xs @ ys)"
proof (induction xs rule: utf8_valid.induct)
  case (2 a bs)
  show ?case
  proof (cases "unat a < 128")
    case True
    with 2 show ?thesis by simp
  next
    case n1: False
    show ?thesis
    proof (cases "in_range 0xC2 0xDF a")
      case True
      with 2 n1 show ?thesis by (simp split: list.splits)
    next
      case n2: False
      show ?thesis
      proof (cases "in_range 0xE0 0xEF a")
        case True
        with 2 n1 n2 show ?thesis by (simp split: list.splits)
      next
        case n3: False
        with 2 n1 n2 show ?thesis by (simp split: list.splits if_splits)
      qed
    qed
  qed
qed simp

lemma second_ok_high: "second_ok a b \<Longrightarrow> 128 \<le> unat b"
  by (simp add: second_ok_def in_range_def split: if_splits)

lemma utf8_ascii_middle:
  "utf8_valid (xs @ b # ys) \<Longrightarrow> unat b < 128 \<Longrightarrow> utf8_valid ys"
proof (induction xs rule: utf8_valid.induct)
  case (2 a bs)
  have hb: "\<not> second_ok x b" "\<not> in_range 128 191 b" for x
    using "2.prems"(2) second_ok_high [of x b] by (auto simp: in_range_def)
  show ?case
  proof (cases "unat a < 128")
    case True
    with 2 show ?thesis by simp
  next
    case n1: False
    show ?thesis
    proof (cases "in_range 0xC2 0xDF a")
      case True
      with 2 n1 hb show ?thesis by (cases bs) simp_all
    next
      case n2: False
      show ?thesis
      proof (cases "in_range 0xE0 0xEF a")
        case True
        show ?thesis
        proof (cases bs)
          case Nil
          with 2 n1 n2 True hb show ?thesis by (cases ys) simp_all
        next
          case (Cons c cs)
          with 2 n1 n2 True hb show ?thesis by (cases cs) simp_all
        qed
      next
        case n3: False
        then have r: "in_range 0xF0 0xF4 a" using 2 n1 n2 by (simp split: if_splits)
        show ?thesis
        proof (cases bs)
          case Nil
          with 2 n1 n2 n3 hb r show ?thesis by (cases ys; cases "tl ys") simp_all
        next
          case c: (Cons c cs)
          show ?thesis
          proof (cases cs)
            case Nil
            with 2 n1 n2 n3 c hb r show ?thesis by (cases ys) simp_all
          next
            case (Cons d ds)
            with 2 n1 n2 n3 c hb r show ?thesis by (cases ds) simp_all
          qed
        qed
      qed
    qed
  qed
qed simp
section \<open>Hexadecimal escapes\<close>

text \<open>\<open>char::to_digit(16)\<close>, and a digit as \<open>{:X}\<close> prints it.\<close>

definition hex_digit :: "char \<Rightarrow> nat option" where
  "hex_digit c =
     (let n = of_char c :: nat
      in if 48 \<le> n \<and> n \<le> 57 then Some (n - 48)
         else if 97 \<le> n \<and> n \<le> 102 then Some (n - 87)
         else if 65 \<le> n \<and> n \<le> 70 then Some (n - 55)
         else None)"

definition hex_char :: "nat \<Rightarrow> char" where
  "hex_char n = (if n < 10 then char_of (48 + n) else char_of (55 + n))"

lemma of_char_of_small: "n < 256 \<Longrightarrow> (of_char (char_of n) :: nat) = n"
  by simp

lemma hex_digit_char [simp]:
  assumes "n < 16"
  shows "hex_digit (hex_char n) = Some n"
proof (cases "n < 10")
  case True
  then have "(of_char (char_of (48 + n)) :: nat) = 48 + n" by (intro of_char_of_small) simp
  with True show ?thesis unfolding hex_digit_def hex_char_def Let_def by (simp del: of_char_of)
next
  case False
  with assms have "(of_char (char_of (55 + n)) :: nat) = 55 + n" by (intro of_char_of_small) simp
  with False assms show ?thesis
    unfolding hex_digit_def hex_char_def Let_def by (simp del: of_char_of)
qed

lemma hex_digit_no: "hex_digit (CHR ''%'') = None" "hex_digit (CHR ''+'') = None"
  by (simp_all add: hex_digit_def)

lemma hex_char_neq:
  assumes "n < 16" and "hex_digit c = None"
  shows "hex_char n \<noteq> c"
proof
  assume c: "hex_char n = c"
  have "hex_digit c = Some n" using hex_digit_char [OF assms(1)] unfolding c .
  with assms(2) show False by simp
qed

lemmas hex_char_no [simp] = hex_char_neq [OF _ hex_digit_no(1)] hex_char_neq [OF _ hex_digit_no(2)]

text \<open>A byte written as \<open>%XX\<close>, or as itself where it is safe.\<close>

definition percent :: "byte \<Rightarrow> string" where
  "percent b = [CHR ''%'', hex_char (unat b div 16), hex_char (unat b mod 16)]"

definition escape_byte :: "(byte \<Rightarrow> bool) \<Rightarrow> byte \<Rightarrow> string" where
  "escape_byte safe b = (if safe b then [char_of_byte b] else percent b)"

lemma unat_byte_nibbles: "unat (b :: byte) div 16 < 16" "unat (b :: byte) mod 16 < 16"
  using unat_byte_less [of b] by auto

lemma nibbles_byte: "(of_nat (16 * (unat b div 16) + unat b mod 16) :: byte) = b"
  by simp

section \<open>Strings as the standard library cuts them\<close>

definition strip_prefix :: "string \<Rightarrow> string \<Rightarrow> string option" where
  "strip_prefix p s = (if take (length p) s = p then Some (drop (length p) s) else None)"

definition starts_with :: "string \<Rightarrow> string \<Rightarrow> bool" where
  "starts_with s p \<longleftrightarrow> take (length p) s = p"

definition ends_with :: "string \<Rightarrow> string \<Rightarrow> bool" where
  "ends_with s p \<longleftrightarrow> length p \<le> length s \<and> drop (length s - length p) s = p"

fun split_once :: "char \<Rightarrow> string \<Rightarrow> (string \<times> string) option" where
  "split_once c [] = None"
| "split_once c (x # xs) =
     (if x = c then Some ([], xs)
      else map_option (\<lambda>(a, b). (x # a, b)) (split_once c xs))"

fun split_on :: "char \<Rightarrow> string \<Rightarrow> string list" where
  "split_on c [] = [[]]"
| "split_on c (x # xs) =
     (if x = c then [] # split_on c xs
      else case split_on c xs of [] \<Rightarrow> [[x]] | y # ys \<Rightarrow> (x # y) # ys)"

definition to_ascii_lowercase :: "string \<Rightarrow> string" where
  "to_ascii_lowercase =
     map (\<lambda>c. if 65 \<le> (of_char c :: nat) \<and> of_char c \<le> (90 :: nat)
              then char_of (of_char c + 32 :: nat) else c)"

lemma strip_prefix_eq: "strip_prefix p s = Some r \<longleftrightarrow> s = p @ r"
proof
  assume "strip_prefix p s = Some r"
  then have 1: "take (length p) s = p" and 2: "drop (length p) s = r"
    by (simp_all add: strip_prefix_def split: if_splits)
  have "s = take (length p) s @ drop (length p) s" by simp
  then show "s = p @ r" unfolding 1 2 .
qed (simp add: strip_prefix_def)

lemma strip_prefix_append [simp]: "strip_prefix p (p @ r) = Some r"
  by (simp add: strip_prefix_eq)

lemma starts_with_eq: "starts_with s p \<longleftrightarrow> (\<exists>r. s = p @ r)"
proof
  assume "starts_with s p"
  then have "s = p @ drop (length p) s"
    using append_take_drop_id [of "length p" s] by (simp add: starts_with_def)
  then show "\<exists>r. s = p @ r" ..
qed (auto simp: starts_with_def)

lemma split_once_Some: "split_once c s = Some (a, b) \<longleftrightarrow> s = a @ c # b \<and> c \<notin> set a"
proof (induction s arbitrary: a)
  case (Cons x xs)
  show ?case
  proof (cases "x = c")
    case True
    then show ?thesis by (cases a) auto
  next
    case False
    then have "split_once c (x # xs) = Some (a, b) \<longleftrightarrow>
        (\<exists>a'. a = x # a' \<and> split_once c xs = Some (a', b))" by auto
    also have "\<dots> \<longleftrightarrow> x # xs = a @ c # b \<and> c \<notin> set a"
      using False by (cases a) (auto simp: Cons.IH)
    finally show ?thesis .
  qed
qed simp

lemma split_once_None: "split_once c s = None \<longleftrightarrow> c \<notin> set s"
  by (induction s) auto

lemma split_once_append [simp]: "c \<notin> set a \<Longrightarrow> split_once c (a @ c # b) = Some (a, b)"
  by (simp add: split_once_Some)

lemma split_on_nonempty [simp]: "split_on c s \<noteq> []"
  by (induction s) (auto split: list.split)

section \<open>The interface of a keyed store\<close>

text \<open>
  Several components keep values under keys and promise the same of lookup, update and
  removal, on the states that satisfy their invariant.
\<close>

locale keyed_store =
  fixes ok :: "'s \<Rightarrow> bool"
    and get :: "'s \<Rightarrow> 'k \<Rightarrow> 'v option"
    and put :: "'s \<Rightarrow> 'k \<Rightarrow> 'v \<Rightarrow> 's"
    and del :: "'s \<Rightarrow> 'k \<Rightarrow> 's"
  assumes ok_put: "ok s \<Longrightarrow> ok (put s k v)"
    and ok_del: "ok s \<Longrightarrow> ok (del s k)"
    and get_put: "ok s \<Longrightarrow> get (put s k v) k' = (if k' = k then Some v else get s k')"
    and get_del: "ok s \<Longrightarrow> get (del s k) k' = (if k' = k then None else get s k')"
begin

lemma get_put_same: "ok s \<Longrightarrow> get (put s k v) k = Some v"
  by (simp add: get_put)

lemma get_del_same: "ok s \<Longrightarrow> get (del s k) k = None"
  by (simp add: get_del)

lemma get_put_put: "ok s \<Longrightarrow> get (put (put s k v) k w) k' = get (put s k w) k'"
  by (simp add: get_put ok_put)

lemma ok_dels: "ok s \<Longrightarrow> ok (fold (\<lambda>k s. del s k) ks s)"
  by (induction ks arbitrary: s) (auto simp: ok_del)

lemma get_dels:
  "ok s \<Longrightarrow> get (fold (\<lambda>k s. del s k) ks s) k' = (if k' \<in> set ks then None else get s k')"
  by (induction ks arbitrary: s) (auto simp: ok_del get_del)

end

end
