(* ===== verification/Dbus_Value.thy ===== *)
theory Dbus_Value
  imports Prelude
begin

text \<open>
  \<open>src/src/dbus/value.rs\<close>: D-Bus values, type signatures, and the reader and writer of the
  wire encoding. A floating-point number is its 64-bit pattern (\<open>from_bits\<close> and
  \<open>to_le_bytes\<close> only move bits); a signed integer is its two's-complement word, which
  \<^const>\<open>sint\<close> reads. A run-time panic (an index or a slice out of range) is the error
  \<open>Panicked\<close>; loops of the reader carry fuel and report \<open>Out_of_fuel\<close> when they use it up,
  which the lemmas below exclude.
\<close>

section \<open>Values\<close>

datatype dvalue =
    Byte u8
  | Bool bool
  | I16 u16
  | U16 u16
  | I32 u32
  | U32 u32
  | I64 u64
  | U64 u64
  | Double u64
  | Str string
  | Path string
  | Sig string
  | Fd u32
  | Array string "dvalue list"
  | Dict string string "(dvalue \<times> dvalue) list"
  | Struct "dvalue list"
  | Variant dvalue

datatype decode_error =
    Sig_too_deep | Unterminated_struct | Empty_struct | Bad_dict_entry
  | Bad_signature_char char | Truncated_signature
  | Truncated_padding | Truncated_value | Not_nul_terminated | Invalid_utf8
  | Value_too_deep | Bad_boolean u32 | Variant_not_single
  | Array_overruns | Element_overruns | Cannot_read char | Trailing_bytes
  | Unknown_byte_order | Message_too_large | Short_header | Length_mismatch
  | Unsupported_version | Fields_length_mismatch
  | Panicked | Out_of_fuel

definition MAX_DEPTH :: nat where
  "MAX_DEPTH = 64"

fun signature :: "dvalue \<Rightarrow> string" where
  "signature (Byte _) = ''y''"
| "signature (Bool _) = ''b''"
| "signature (I16 _) = ''n''"
| "signature (U16 _) = ''q''"
| "signature (I32 _) = ''i''"
| "signature (U32 _) = ''u''"
| "signature (I64 _) = ''x''"
| "signature (U64 _) = ''t''"
| "signature (Double _) = ''d''"
| "signature (Str _) = ''s''"
| "signature (Path _) = ''o''"
| "signature (Sig _) = ''g''"
| "signature (Fd _) = ''h''"
| "signature (Array elem _) = ''a'' @ elem"
| "signature (Dict k v _) = ''a{'' @ k @ v @ ''}''"
| "signature (Struct fields) = ''('' @ concat (map signature fields) @ '')''"
| "signature (Variant _) = ''v''"

fun as_str :: "dvalue \<Rightarrow> string option" where
  "as_str (Str s) = Some s"
| "as_str (Path s) = Some s"
| "as_str (Sig s) = Some s"
| "as_str _ = None"

fun as_u32 :: "dvalue \<Rightarrow> u32 option" where
  "as_u32 (U32 v) = Some v"
| "as_u32 _ = None"

section \<open>Dictionaries\<close>

fun unwrap_variant :: "dvalue \<Rightarrow> dvalue" where
  "unwrap_variant (Variant v) = v"
| "unwrap_variant v = v"

fun dict_get :: "dvalue \<Rightarrow> string \<Rightarrow> dvalue option" where
  "dict_get (Dict _ _ entries) key =
     map_option (\<lambda>(_, v). unwrap_variant v) (find (\<lambda>(k, _). as_str k = Some key) entries)"
| "dict_get _ key = None"

text \<open>Replaces the value of the first entry with the key, or appends an entry.\<close>

fun entries_set :: "(dvalue \<times> dvalue) list \<Rightarrow> string \<Rightarrow> dvalue \<Rightarrow> (dvalue \<times> dvalue) list" where
  "entries_set [] key v = [(Str key, v)]"
| "entries_set ((k, w) # es) key v =
     (if as_str k = Some key then (k, v) # es else (k, w) # entries_set es key v)"

fun dict_set :: "dvalue \<Rightarrow> string \<Rightarrow> dvalue \<Rightarrow> dvalue" where
  "dict_set (Dict k v entries) key new = Dict k v (entries_set entries key (Variant new))"
| "dict_set d key new = d"

fun dict_remove :: "dvalue \<Rightarrow> string \<Rightarrow> dvalue" where
  "dict_remove (Dict k v entries) key =
     Dict k v (filter (\<lambda>(k, _). as_str k \<noteq> Some key) entries)"
| "dict_remove d key = d"

text \<open>\<open>map_paths\<close>, for a closure without effects: \<open>Some p\<close> replaces the path.\<close>

fun map_paths :: "(string \<Rightarrow> string option) \<Rightarrow> dvalue \<Rightarrow> dvalue" where
  "map_paths f (Path p) = (case f p of Some new \<Rightarrow> Path new | None \<Rightarrow> Path p)"
| "map_paths f (Array e items) = Array e (map (map_paths f) items)"
| "map_paths f (Struct items) = Struct (map (map_paths f) items)"
| "map_paths f (Dict k v entries) =
     Dict k v (map (\<lambda>(a, b). (map_paths f a, map_paths f b)) entries)"
| "map_paths f (Variant inner) = Variant (map_paths f inner)"
| "map_paths f v = v"

section \<open>Signatures\<close>

definition basic_types :: "char set" where
  "basic_types = set ''ybnqiuxtdsoghv''"

text \<open>
  The loop over the fields of a struct: \<open>len\<close> is \<open>complete_type_len\<close> one level deeper. Every
  field has at least one character, so the length of the signature is fuel enough.
\<close>

fun struct_end :: "(string \<Rightarrow> decode_error + nat) \<Rightarrow> nat \<Rightarrow> string \<Rightarrow> nat \<Rightarrow> decode_error + nat" where
  "struct_end len 0 sig i = Inl Out_of_fuel"
| "struct_end len (Suc fuel) sig i =
     (if nth_opt sig i = Some (CHR '')'') then Inr i
      else if length sig \<le> i then Inl Unterminated_struct
      else and_then (len (drop i sig)) (\<lambda>n. struct_end len fuel sig (i + n)))"

function complete_type_len :: "string \<Rightarrow> nat \<Rightarrow> decode_error + nat" where
  "complete_type_len sig depth =
     (if MAX_DEPTH < depth then Inl Sig_too_deep
      else case sig of
        [] \<Rightarrow> Inl Truncated_signature
      | c # rest \<Rightarrow>
          if c \<in> basic_types then Inr 1
          else if c = CHR ''a'' then
            and_then (complete_type_len rest (Suc depth)) (\<lambda>n. Inr (1 + n))
          else if c = CHR ''('' then
            and_then (struct_end (\<lambda>s. complete_type_len s (Suc depth)) (length sig) sig 1)
              (\<lambda>i. if i = 1 then Inl Empty_struct else Inr (i + 1))
          else if c = CHR ''{'' then
            and_then (complete_type_len rest (Suc depth)) (\<lambda>k.
              and_then (complete_type_len (drop k rest) (Suc depth)) (\<lambda>v.
                if nth_opt sig (1 + k + v) \<noteq> Some (CHR ''}'') then Inl Bad_dict_entry
                else Inr (k + v + 2)))
          else Inl (Bad_signature_char c))"
  by pat_completeness auto
termination
  by (relation "measure (\<lambda>(sig, depth). Suc MAX_DEPTH - depth)") auto

declare complete_type_len.simps [simp del]

fun split_loop :: "nat \<Rightarrow> string \<Rightarrow> decode_error + string list" where
  "split_loop fuel [] = Inr []"
| "split_loop 0 (c # cs) = Inl Out_of_fuel"
| "split_loop (Suc fuel) (c # cs) =
     and_then (complete_type_len (c # cs) 0) (\<lambda>len.
       and_then (split_loop fuel (drop len (c # cs))) (\<lambda>out.
         Inr (take len (c # cs) # out)))"

definition split_signature :: "string \<Rightarrow> decode_error + string list" where
  "split_signature sig = split_loop (length sig) sig"

definition alignment :: "string \<Rightarrow> decode_error + nat" where
  "alignment sig =
     (case sig of
        [] \<Rightarrow> Inl Panicked
      | c # _ \<Rightarrow>
          Inr (if c \<in> set ''ygv'' then 1
               else if c \<in> set ''nq'' then 2
               else if c \<in> set ''xtd({'' then 8
               else 4))"

section \<open>The reader\<close>

record reader =
  rbuf :: "byte list"
  rpos :: nat
  rbig :: bool

type_synonym 'a reads = "decode_error + 'a \<times> reader"

definition reader_at :: "byte list \<Rightarrow> nat \<Rightarrow> bool \<Rightarrow> reader" where
  "reader_at buf pos big = \<lparr>rbuf = buf, rpos = pos, rbig = big\<rparr>"

definition reader_new :: "byte list \<Rightarrow> bool \<Rightarrow> reader" where
  "reader_new buf big = reader_at buf 0 big"

definition align :: "nat \<Rightarrow> reader \<Rightarrow> decode_error + reader" where
  "align n r =
     (let pad = (n - rpos r mod n) mod n
      in if length (rbuf r) < rpos r + pad then Inl Truncated_padding
         else Inr (r\<lparr>rpos := rpos r + pad\<rparr>))"

definition take_bytes :: "nat \<Rightarrow> reader \<Rightarrow> byte list reads" where
  "take_bytes n r =
     (if length (rbuf r) < rpos r + n then Inl Truncated_value
      else Inr (take n (drop (rpos r) (rbuf r)), r\<lparr>rpos := rpos r + n\<rparr>))"

definition from_order :: "bool \<Rightarrow> byte list \<Rightarrow> 'w::len word" where
  "from_order big bs = (if big then from_be bs else from_le bs)"

definition read_u16 :: "reader \<Rightarrow> u16 reads" where
  "read_u16 r = and_then (take_bytes 2 r) (\<lambda>(b, r). Inr (from_order (rbig r) b, r))"

definition read_u32 :: "reader \<Rightarrow> u32 reads" where
  "read_u32 r =
     and_then (align 4 r) (\<lambda>r.
       and_then (take_bytes 4 r) (\<lambda>(b, r). Inr (from_order (rbig r) b, r)))"

definition read_u64 :: "reader \<Rightarrow> u64 reads" where
  "read_u64 r = and_then (take_bytes 8 r) (\<lambda>(b, r). Inr (from_order (rbig r) b, r))"

definition read_string :: "nat \<Rightarrow> reader \<Rightarrow> string reads" where
  "read_string len r =
     and_then (take_bytes len r) (\<lambda>(s, r).
       and_then (take_bytes 1 r) (\<lambda>(z, r).
         if z \<noteq> [0] then Inl Not_nul_terminated
         else if utf8_valid s then Inr (string_of s, r) else Inl Invalid_utf8))"

text \<open>The branches of \<open>read_depth\<close> that do not read nested values, by type character.\<close>

definition read_byte_len :: "reader \<Rightarrow> nat reads" where
  "read_byte_len r = and_then (take_bytes 1 r) (\<lambda>(b, r). Inr (unat (hd b), r))"

definition read_basic :: "char \<Rightarrow> reader \<Rightarrow> dvalue reads" where
  "read_basic c r =
     (if c = CHR ''y'' then and_then (take_bytes 1 r) (\<lambda>(b, r). Inr (Byte (hd b), r))
      else if c = CHR ''b'' then
        and_then (read_u32 r) (\<lambda>(v, r).
          if v = 0 then Inr (Bool False, r)
          else if v = 1 then Inr (Bool True, r)
          else Inl (Bad_boolean v))
      else if c = CHR ''n'' then and_then (read_u16 r) (\<lambda>(v, r). Inr (I16 v, r))
      else if c = CHR ''q'' then and_then (read_u16 r) (\<lambda>(v, r). Inr (U16 v, r))
      else if c = CHR ''i'' then and_then (read_u32 r) (\<lambda>(v, r). Inr (I32 v, r))
      else if c = CHR ''u'' then and_then (read_u32 r) (\<lambda>(v, r). Inr (U32 v, r))
      else if c = CHR ''h'' then and_then (read_u32 r) (\<lambda>(v, r). Inr (Fd v, r))
      else if c = CHR ''x'' then and_then (read_u64 r) (\<lambda>(v, r). Inr (I64 v, r))
      else if c = CHR ''t'' then and_then (read_u64 r) (\<lambda>(v, r). Inr (U64 v, r))
      else if c = CHR ''d'' then and_then (read_u64 r) (\<lambda>(v, r). Inr (Double v, r))
      else if c = CHR ''s'' then
        and_then (read_u32 r) (\<lambda>(n, r).
          and_then (read_string (unat n) r) (\<lambda>(s, r). Inr (Str s, r)))
      else if c = CHR ''o'' then
        and_then (read_u32 r) (\<lambda>(n, r).
          and_then (read_string (unat n) r) (\<lambda>(s, r). Inr (Path s, r)))
      else if c = CHR ''g'' then
        and_then (read_byte_len r) (\<lambda>(n, r).
          and_then (read_string n r) (\<lambda>(s, r). Inr (Sig s, r)))
      else Inl (Cannot_read c))"

text \<open>The loops over the fields of a struct, the items of an array and the entries of a
  dictionary; \<open>rd\<close> reads one value a level deeper.\<close>

fun read_fields :: "(string \<Rightarrow> reader \<Rightarrow> dvalue reads) \<Rightarrow> string list \<Rightarrow> reader \<Rightarrow> dvalue list reads" where
  "read_fields rd [] r = Inr ([], r)"
| "read_fields rd (t # ts) r =
     and_then (rd t r) (\<lambda>(v, r). and_then (read_fields rd ts r) (\<lambda>(vs, r). Inr (v # vs, r)))"

fun read_items :: "(reader \<Rightarrow> 'a reads) \<Rightarrow> nat \<Rightarrow> nat \<Rightarrow> reader \<Rightarrow> 'a list reads" where
  "read_items rd fuel stop r =
     (if rpos r < stop then
        (case fuel of
           0 \<Rightarrow> Inl Out_of_fuel
         | Suc fuel' \<Rightarrow>
             and_then (rd r) (\<lambda>(v, r).
               and_then (read_items rd fuel' stop r) (\<lambda>(vs, r). Inr (v # vs, r))))
      else Inr ([], r))"

declare read_items.simps [simp del]

definition read_entry ::
  "(reader \<Rightarrow> dvalue reads) \<Rightarrow> (reader \<Rightarrow> dvalue reads) \<Rightarrow> reader \<Rightarrow> (dvalue \<times> dvalue) reads" where
  "read_entry rk rv r =
     and_then (align 8 r) (\<lambda>r.
       and_then (rk r) (\<lambda>(key, r). and_then (rv r) (\<lambda>(val, r). Inr ((key, val), r))))"

text \<open>
  An array of \<open>len\<close> bytes from the current position, whose items \<open>rd\<close> reads: every item
  takes at least one byte, so \<open>len\<close> is fuel enough.
\<close>

definition read_array :: "(reader \<Rightarrow> 'a reads) \<Rightarrow> nat \<Rightarrow> reader \<Rightarrow> 'a list reads" where
  "read_array rd len r =
     (let stop = rpos r + len
      in and_then (read_items rd len stop r) (\<lambda>(vs, r).
           if rpos r \<noteq> stop then Inl Element_overruns else Inr (vs, r)))"

function read_depth :: "string \<Rightarrow> nat \<Rightarrow> reader \<Rightarrow> dvalue reads" where
  "read_depth sig depth r =
     (if MAX_DEPTH < depth then Inl Value_too_deep
      else and_then (alignment sig) (\<lambda>a. and_then (align a r) (\<lambda>r.
        case sig of
          [] \<Rightarrow> Inl Panicked
        | c # elem \<Rightarrow>
            if c = CHR ''v'' then
              and_then (read_byte_len r) (\<lambda>(n, r).
                and_then (read_string n r) (\<lambda>(inner, r).
                  and_then (split_signature inner) (\<lambda>ts.
                    if length ts \<noteq> 1 then Inl Variant_not_single
                    else and_then (read_depth inner (Suc depth) r) (\<lambda>(v, r).
                      Inr (Variant v, r)))))
            else if c = CHR ''('' then
              (if elem = [] then Inl Panicked
               else and_then (split_signature (butlast elem)) (\<lambda>ts.
                 and_then (read_fields (\<lambda>t r. read_depth t (Suc depth) r) ts r) (\<lambda>(fs, r).
                   Inr (Struct fs, r))))
            else if c = CHR ''a'' then
              and_then (read_u32 r) (\<lambda>(len, r).
                and_then (alignment elem) (\<lambda>ea. and_then (align ea r) (\<lambda>r.
                  if length (rbuf r) < rpos r + unat len then Inl Array_overruns
                  else if take 1 elem = ''{'' then
                    (if length elem < 2 then Inl Panicked
                     else let inner = butlast (tl elem)
                     in and_then (complete_type_len inner depth) (\<lambda>n.
                          let k = take n inner; v = drop n inner
                          in and_then
                               (read_array (read_entry (\<lambda>r. read_depth k (Suc depth) r)
                                                       (\<lambda>r. read_depth v (Suc depth) r))
                                  (unat len) r)
                               (\<lambda>(entries, r). Inr (Dict k v entries, r))))
                  else
                    and_then (read_array (\<lambda>r. read_depth elem (Suc depth) r) (unat len) r)
                      (\<lambda>(items, r). Inr (Array elem items, r)))))
            else read_basic c r)))"
  by pat_completeness auto
termination
  by (relation "measure (\<lambda>(sig, depth, r). Suc MAX_DEPTH - depth)") auto

declare read_depth.simps [simp del]

definition read_value :: "string \<Rightarrow> reader \<Rightarrow> dvalue reads" where
  "read_value sig r = read_depth sig 0 r"

definition decode_body :: "string \<Rightarrow> byte list \<Rightarrow> bool \<Rightarrow> decode_error + dvalue list" where
  "decode_body sig body big =
     and_then (split_signature sig) (\<lambda>ts.
       and_then (read_fields read_value ts (reader_new body big)) (\<lambda>(out, r).
         if rpos r \<noteq> length body then Inl Trailing_bytes else Inr out))"

section \<open>The writer\<close>

text \<open>
  The writer's state is its buffer. \<open>None\<close> is the panic of \<open>alignment\<close> on an array with an
  empty element signature. The alignment loop pushes zeros until the length is a multiple
  of \<open>n\<close>: \<^const>\<open>pad_to\<close> of them.
\<close>

definition w_align :: "nat \<Rightarrow> byte list \<Rightarrow> byte list" where
  "w_align n buf = buf @ replicate (pad_to n (length buf)) 0"

definition w_u32 :: "u32 \<Rightarrow> byte list \<Rightarrow> byte list" where
  "w_u32 v buf = w_align 4 buf @ to_le v"

definition w_string :: "string \<Rightarrow> byte list \<Rightarrow> byte list" where
  "w_string s buf = w_u32 (of_nat (length s)) buf @ bytes_of s @ [0]"

definition w_sig :: "string \<Rightarrow> byte list \<Rightarrow> byte list" where
  "w_sig s buf = buf @ [of_nat (length s)] @ bytes_of s @ [0]"

definition align_of :: "string \<Rightarrow> nat option" where
  "align_of sig = (case alignment sig of Inl _ \<Rightarrow> None | Inr a \<Rightarrow> Some a)"

text \<open>\<open>buf[at..at + 4].copy_from_slice(&len.to_le_bytes())\<close>.\<close>

definition patch :: "nat \<Rightarrow> byte list \<Rightarrow> byte list \<Rightarrow> byte list" where
  "patch at bs buf = take at buf @ bs @ drop (at + length bs) buf"

text \<open>The length word is reserved, the items written by \<open>wr\<close>, and the length filled in.\<close>

definition w_array ::
  "nat \<Rightarrow> ('x \<Rightarrow> byte list \<Rightarrow> byte list option) \<Rightarrow> 'x list \<Rightarrow> byte list \<Rightarrow> byte list option" where
  "w_array a wr items buf =
     (let buf = w_u32 0 buf; len_at = length buf - 4; buf = w_align a buf; start = length buf
      in do {
        buf \<leftarrow> fold_opt wr items buf;
        Some (patch len_at (to_le (of_nat (length buf - start) :: u32)) buf)
      })"

lemma w_array_cong [fundef_cong]:
  assumes "a = a'" "xs = ys" "buf = buf'"
    and "\<And>x b. x \<in> set ys \<Longrightarrow> wr x b = wr' x b"
  shows "w_array a wr xs buf = w_array a' wr' ys buf'"
  using fold_opt_cong [of xs ys _ _ wr wr', OF assms(2) refl assms(4)] assms
  by (simp add: w_array_def Let_def)

fun w_value :: "dvalue \<Rightarrow> byte list \<Rightarrow> byte list option" where
  "w_value (Byte b) buf = Some (buf @ [b])"
| "w_value (Bool b) buf = Some (w_u32 (if b then 1 else 0) (w_align 4 buf))"
| "w_value (I16 n) buf = Some (w_align 2 buf @ to_le n)"
| "w_value (U16 n) buf = Some (w_align 2 buf @ to_le n)"
| "w_value (I32 n) buf = Some (w_u32 n (w_align 4 buf))"
| "w_value (U32 n) buf = Some (w_u32 n (w_align 4 buf))"
| "w_value (Fd n) buf = Some (w_u32 n (w_align 4 buf))"
| "w_value (I64 n) buf = Some (w_align 8 buf @ to_le n)"
| "w_value (U64 n) buf = Some (w_align 8 buf @ to_le n)"
| "w_value (Double n) buf = Some (w_align 8 buf @ to_le n)"
| "w_value (Str s) buf = Some (w_string s (w_align 4 buf))"
| "w_value (Path s) buf = Some (w_string s (w_align 4 buf))"
| "w_value (Sig s) buf = Some (w_sig s buf)"
| "w_value (Variant inner) buf = w_value inner (w_sig (signature inner) buf)"
| "w_value (Struct vs) buf = fold_opt w_value vs (w_align 8 buf)"
| "w_value (Array elem items) buf =
     do {
       a \<leftarrow> align_of elem;
       w_array a w_value items (w_align 4 buf)
     }"
| "w_value (Dict _ _ entries) buf =
     w_array 8
       (\<lambda>e buf. case e of (k, v) \<Rightarrow> do { buf \<leftarrow> w_value k (w_align 8 buf); w_value v buf })
       entries (w_align 4 buf)"

definition encode_body :: "dvalue list \<Rightarrow> (string \<times> byte list) option" where
  "encode_body values =
     do {
       buf \<leftarrow> fold_opt w_value values [];
       Some (concat (map signature values), buf)
     }"

end
