(* ===== verification/Dbus_Types.thy ===== *)
theory Dbus_Types
  imports Dbus_Value
begin

text \<open>
  The grammar of D-Bus types as a datatype, and that \<^const>\<open>complete_type_len\<close> and
  \<^const>\<open>split_signature\<close> recognise exactly its printed forms up to the nesting limit,
  without panicking and within their fuel.
\<close>

section \<open>The type grammar\<close>

datatype ty = TBasic char | TArray ty | TStruct "ty list" | TEntry ty ty

fun show_ty :: "ty \<Rightarrow> string" where
  "show_ty (TBasic c) = [c]"
| "show_ty (TArray t) = CHR ''a'' # show_ty t"
| "show_ty (TStruct ts) = CHR ''('' # concat (map show_ty ts) @ '')''"
| "show_ty (TEntry k v) = CHR ''{'' # show_ty k @ show_ty v @ ''}''"

abbreviation show_tys :: "ty list \<Rightarrow> string" where
  "show_tys ts \<equiv> concat (map show_ty ts)"

text \<open>Well formed when read at nesting depth \<open>d\<close>.\<close>

fun ty_ok :: "nat \<Rightarrow> ty \<Rightarrow> bool" where
  "ty_ok d (TBasic c) \<longleftrightarrow> d \<le> MAX_DEPTH \<and> c \<in> basic_types"
| "ty_ok d (TArray t) \<longleftrightarrow> d \<le> MAX_DEPTH \<and> ty_ok (Suc d) t"
| "ty_ok d (TStruct ts) \<longleftrightarrow> d \<le> MAX_DEPTH \<and> ts \<noteq> [] \<and> (\<forall>t \<in> set ts. ty_ok (Suc d) t)"
| "ty_ok d (TEntry k v) \<longleftrightarrow> d \<le> MAX_DEPTH \<and> ty_ok (Suc d) k \<and> ty_ok (Suc d) v"

lemma ty_ok_depth: "ty_ok d t \<Longrightarrow> d \<le> MAX_DEPTH"
  by (cases t) auto

lemma ty_ok_mono: "ty_ok d t \<Longrightarrow> d' \<le> d \<Longrightarrow> ty_ok d' t"
  by (induction t arbitrary: d d') fastforce+

lemma show_ty_nonempty [simp]: "show_ty t \<noteq> []"
  by (cases t) auto

lemma length_show_ty [simp]: "0 < length (show_ty t)"
  by simp

lemma show_tys_eq_Nil [simp]: "show_tys ts = [] \<longleftrightarrow> ts = []"
  by (cases ts) auto

lemma basic_types_simps [simp]:
  "CHR ''a'' \<notin> basic_types" "CHR ''('' \<notin> basic_types" "CHR ''{'' \<notin> basic_types"
  "CHR '')'' \<notin> basic_types" "CHR ''}'' \<notin> basic_types"
  by (auto simp: basic_types_def)

lemma show_ty_head: "ty_ok d t \<Longrightarrow> show_ty t = c # s \<Longrightarrow> c \<noteq> CHR '')'' \<and> c \<noteq> CHR ''}''"
  by (cases t) auto

section \<open>Printed types are recognised\<close>

lemma struct_end_complete:
  assumes "\<And>t rest. t \<in> set ts \<Longrightarrow> len (show_ty t @ rest) = Inr (length (show_ty t))"
    and "\<And>t. t \<in> set ts \<Longrightarrow> \<exists>d. ty_ok d t"
    and "length (show_tys ts) < fuel"
  shows "struct_end len fuel (pre @ show_tys ts @ CHR '')'' # rest) (length pre)
           = Inr (length pre + length (show_tys ts))"
  using assms
proof (induction ts arbitrary: fuel pre)
  case Nil
  then show ?case by (cases fuel) auto
next
  case (Cons t ts)
  from Cons.prems(3) obtain k where k: "fuel = Suc k" by (cases fuel) auto
  obtain c s where cs: "show_ty t = c # s" by (cases "show_ty t") auto
  from Cons.prems(2) [of t] obtain d where "ty_ok d t" by auto
  with cs have c: "c \<noteq> CHR '')''" using show_ty_head by blast
  have more: "length (show_tys ts) < k" using Cons.prems(3) k cs by simp
  have IH: "struct_end len k ((pre @ show_ty t) @ show_tys ts @ CHR '')'' # rest)
      (length (pre @ show_ty t)) = Inr (length (pre @ show_ty t) + length (show_tys ts))"
    by (rule Cons.IH) (use Cons.prems more in auto)
  have "nth_opt (pre @ show_tys (t # ts) @ CHR '')'' # rest) (length pre) = Some c"
    by (simp add: cs)
  then show ?case
    using IH c Cons.prems(1) [of t "show_tys ts @ CHR '')'' # rest"] k
    by simp
qed

lemma complete_type_len_show:
  "ty_ok d t \<Longrightarrow> complete_type_len (show_ty t @ rest) d = Inr (length (show_ty t))"
proof (induction t arbitrary: d rest)
  case (TBasic c)
  then show ?case by (subst complete_type_len.simps) auto
next
  case (TArray t)
  then show ?case by (subst complete_type_len.simps) auto
next
  case (TStruct ts)
  have "struct_end (\<lambda>s. complete_type_len s (Suc d)) (Suc (length (show_tys ts @ CHR '')'' # rest)))
      (''('' @ show_tys ts @ CHR '')'' # rest) (length ''('')
      = Inr (length ''('' + length (show_tys ts))"
    by (rule struct_end_complete) (use TStruct in auto)
  with TStruct.prems show ?case
    by (subst complete_type_len.simps) (auto simp: Suc_le_eq)
next
  case (TEntry k v)
  then show ?case
    by (subst complete_type_len.simps) (auto simp: nth_opt_def nth_append)
qed

section \<open>Whatever is recognised is a printed type\<close>

lemma struct_end_sound:
  assumes "struct_end len fuel sig i = Inr j"
    and "\<And>s n. len s = Inr n \<Longrightarrow> \<exists>t rest. ok t \<and> s = show_ty t @ rest \<and> n = length (show_ty t)"
    and "i \<le> length sig"
  shows "\<exists>ts rest. (\<forall>t \<in> set ts. ok t) \<and> drop i sig = show_tys ts @ CHR '')'' # rest
           \<and> j = i + length (show_tys ts)"
  using assms(1,3)
proof (induction fuel arbitrary: i)
  case 0
  then show ?case by simp
next
  case (Suc fuel)
  show ?case
  proof (cases "nth_opt sig i = Some (CHR '')'')")
    case True
    then have "drop i sig = CHR '')'' # drop (Suc i) sig"
      by (auto simp: nth_opt_def split: if_splits) (metis Cons_nth_drop_Suc)
    then show ?thesis using True Suc.prems
      by (intro exI [of _ "[]"] exI [of _ "drop (Suc i) sig"]) auto
  next
    case False
    with Suc.prems obtain n where n: "len (drop i sig) = Inr n"
      and rec: "struct_end len fuel sig (i + n) = Inr j" by (auto split: if_splits)
    from assms(2) [OF n] obtain t rest where t: "ok t" "drop i sig = show_ty t @ rest"
      "n = length (show_ty t)" by blast
    have "length sig - i = length (show_ty t) + length rest"
      using arg_cong [OF t(2), of length] by simp
    with t(3) length_show_ty [of t] have "i + n \<le> length sig" by linarith
    from Suc.IH [OF rec this] obtain ts rest' where ts: "\<forall>t \<in> set ts. ok t"
      "drop (i + n) sig = show_tys ts @ CHR '')'' # rest'" "j = i + n + length (show_tys ts)"
      by blast
    have "drop (i + n) sig = rest" using t by (metis append_eq_conv_conj drop_drop add.commute)
    then show ?thesis using t ts by (intro exI [of _ "t # ts"]) auto
  qed
qed

lemma complete_type_len_sound:
  "complete_type_len sig d = Inr n \<Longrightarrow>
     \<exists>t rest. ty_ok d t \<and> sig = show_ty t @ rest \<and> n = length (show_ty t)"
proof (induction sig d arbitrary: n rule: complete_type_len.induct)
  case (1 sig d)
  from "1.prems" have d: "d \<le> MAX_DEPTH" and nd: "\<not> MAX_DEPTH < d"
    by (subst (asm) complete_type_len.simps, simp split: if_splits)+
  from "1.prems" d obtain c rest where sig: "sig = c # rest"
    by (subst (asm) complete_type_len.simps) (auto split: list.splits)
  note eq = "1.prems" [unfolded sig, simplified complete_type_len.simps [of "c # rest" d]]
  consider (basic) "c \<in> basic_types"
    | (arr) "c = CHR ''a''" | (struct) "c = CHR ''(''" | (entry) "c = CHR ''{''"
    using eq d by (auto split: if_splits)
  then show ?case
  proof cases
    case basic
    then show ?thesis using eq d sig by (intro exI [of _ "TBasic c"]) auto
  next
    case arr
    with eq d obtain m where m: "complete_type_len rest (Suc d) = Inr m" "n = 1 + m" by auto
    from "1.IH"(1) [OF nd sig _ arr m(1)] arr obtain t s where
      "ty_ok (Suc d) t" "rest = show_ty t @ s" "m = length (show_ty t)" by auto
    then show ?thesis using sig arr m d by (intro exI [of _ "TArray t"]) auto
  next
    case struct
    with eq d obtain j where j: "struct_end (\<lambda>s. complete_type_len s (Suc d)) (length sig) sig 1 = Inr j"
      "j \<noteq> 1" "n = j + 1" by (auto simp: sig split: if_splits)
    have "\<exists>t rest. ty_ok (Suc d) t \<and> s = show_ty t @ rest \<and> m = length (show_ty t)"
      if "complete_type_len s (Suc d) = Inr m" for s m
      using "1.IH"(2) [OF nd sig _ _ struct that] struct by simp
    from struct_end_sound [OF j(1) this] obtain ts s where
      ts: "\<forall>t \<in> set ts. ty_ok (Suc d) t" "drop 1 sig = show_tys ts @ CHR '')'' # s"
        "j = 1 + length (show_tys ts)"
      using sig by auto
    with j have "ts \<noteq> []" by auto
    then show ?thesis using sig struct ts j d by (intro exI [of _ "TStruct ts"]) auto
  next
    case entry
    with eq d obtain k v where k: "complete_type_len rest (Suc d) = Inr k"
      and v: "complete_type_len (drop k rest) (Suc d) = Inr v"
      and b: "nth_opt (c # rest) (1 + k + v) = Some (CHR ''}'')" and n: "n = k + v + 2"
      by (auto split: if_splits)
    from "1.IH"(3) [OF nd sig _ _ _ entry k] entry obtain tk s where
      tk: "ty_ok (Suc d) tk" "rest = show_ty tk @ s" "k = length (show_ty tk)" by auto
    from "1.IH"(4) [OF nd sig _ _ _ entry k v] entry obtain tv s' where
      tv: "ty_ok (Suc d) tv" "drop k rest = show_ty tv @ s'" "v = length (show_ty tv)" by auto
    have r: "rest = show_ty tk @ show_ty tv @ s'" using tk tv by simp
    with b tk tv obtain s'' where "s' = CHR ''}'' # s''"
      by (cases s') (auto simp: nth_opt_def nth_append split: if_splits)
    then show ?thesis using sig entry r tk tv d n by (intro exI [of _ "TEntry tk tv"]) auto
  qed
qed

lemma complete_type_len_bounds:
  "complete_type_len sig d = Inr n \<Longrightarrow> 0 < n \<and> n \<le> length sig"
  using complete_type_len_sound by fastforce

section \<open>Within fuel, without panic\<close>

definition harmless :: "decode_error \<Rightarrow> bool" where
  "harmless e \<longleftrightarrow> e \<noteq> Panicked \<and> e \<noteq> Out_of_fuel"

lemma struct_end_harmless:
  assumes "struct_end len fuel sig i = Inl e" and "i \<le> length sig" and "length sig < i + fuel"
    and "\<And>s e. len s = Inl e \<Longrightarrow> harmless e"
    and "\<And>s n. len s = Inr n \<Longrightarrow> 0 < n \<and> n \<le> length s"
  shows "harmless e"
  using assms(1-3)
proof (induction fuel arbitrary: i)
  case 0
  then show ?case by simp
next
  case (Suc fuel)
  have "e = Unterminated_struct \<or> len (drop i sig) = Inl e
      \<or> (\<exists>n. len (drop i sig) = Inr n \<and> struct_end len fuel sig (i + n) = Inl e)"
    using Suc.prems(1) by (simp split: if_splits)
  then consider (now) "e = Unterminated_struct" | (len) "len (drop i sig) = Inl e"
    | (rec) n where "len (drop i sig) = Inr n" "struct_end len fuel sig (i + n) = Inl e"
    by blast
  then show ?case
  proof cases
    case rec
    have "0 < n" "n \<le> length sig - i" using assms(5) [OF rec(1)] by simp_all
    with Suc.IH [OF rec(2)] Suc.prems show ?thesis by simp
  next
    case len
    then show ?thesis by (rule assms(4))
  qed (simp add: harmless_def)
qed

lemma complete_type_len_harmless: "complete_type_len sig d = Inl e \<Longrightarrow> harmless e"
proof (induction sig d arbitrary: e rule: complete_type_len.induct)
  case (1 sig d)
  show ?case
  proof (cases "MAX_DEPTH < d \<or> sig = []")
    case True
    with "1.prems" show ?thesis
      by (subst (asm) complete_type_len.simps) (auto simp: harmless_def split: if_splits)
  next
    case False
    then obtain c rest where sig: "sig = c # rest" and d: "\<not> MAX_DEPTH < d"
      by (cases sig) auto
    note IH = "1.IH" [OF d sig]
    show ?thesis
    proof (cases "c = CHR ''(''")
      case True
      have se: "harmless e"
        if "struct_end (\<lambda>s. complete_type_len s (Suc d)) (length sig) sig 1 = Inl e" for e
        by (rule struct_end_harmless [OF that])
           (use True IH(2) complete_type_len_bounds sig in auto)
      with "1.prems" d True sig show ?thesis
        by (subst (asm) complete_type_len.simps) (auto simp: harmless_def split: if_splits)
    next
      case False
      with "1.prems" d sig IH(1,3,4) show ?thesis
        by (subst (asm) complete_type_len.simps) (auto simp: harmless_def split: if_splits)
    qed
  qed
qed

section \<open>Splitting a signature\<close>

lemma split_loop_complete:
  assumes "\<forall>t \<in> set ts. ty_ok 0 t" and "length (show_tys ts) \<le> fuel"
  shows "split_loop fuel (show_tys ts) = Inr (map show_ty ts)"
  using assms
proof (induction ts arbitrary: fuel)
  case Nil
  then show ?case by simp
next
  case (Cons t ts)
  obtain c s where cs: "show_ty t = c # s" by (cases "show_ty t") auto
  from Cons.prems cs obtain k where k: "fuel = Suc k" by (cases fuel) auto
  have "complete_type_len (show_ty t @ show_tys ts) 0 = Inr (length (show_ty t))"
    using Cons.prems by (intro complete_type_len_show) simp
  then show ?case using Cons k cs by simp
qed

lemma split_signature_complete:
  "\<forall>t \<in> set ts. ty_ok 0 t \<Longrightarrow> split_signature (show_tys ts) = Inr (map show_ty ts)"
  by (simp add: split_signature_def split_loop_complete)

lemma split_loop_sound:
  "split_loop fuel sig = Inr out \<Longrightarrow>
     \<exists>ts. (\<forall>t \<in> set ts. ty_ok 0 t) \<and> sig = show_tys ts \<and> out = map show_ty ts"
proof (induction fuel sig arbitrary: out rule: split_loop.induct)
  case (3 fuel c cs)
  then obtain len out' where len: "complete_type_len (c # cs) 0 = Inr len"
    and rec: "split_loop fuel (drop len (c # cs)) = Inr out'"
    and out: "out = take len (c # cs) # out'" by auto
  from complete_type_len_sound [OF len] obtain t rest where
    t: "ty_ok 0 t" "c # cs = show_ty t @ rest" "len = length (show_ty t)" by blast
  from "3.IH" [OF len rec] obtain ts where
    "\<forall>t \<in> set ts. ty_ok 0 t" "drop len (c # cs) = show_tys ts" "out' = map show_ty ts" by blast
  then show ?case using t out by (intro exI [of _ "t # ts"]) auto
qed auto

lemma split_signature_sound:
  "split_signature sig = Inr out \<Longrightarrow>
     \<exists>ts. (\<forall>t \<in> set ts. ty_ok 0 t) \<and> sig = show_tys ts \<and> out = map show_ty ts"
  unfolding split_signature_def by (rule split_loop_sound)

lemma split_loop_harmless:
  "split_loop fuel sig = Inl e \<Longrightarrow> length sig \<le> fuel \<Longrightarrow> harmless e"
proof (induction fuel sig arbitrary: e rule: split_loop.induct)
  case (3 fuel c cs)
  show ?case
  proof (cases "complete_type_len (c # cs) 0")
    case (Inl e')
    with "3.prems" show ?thesis using complete_type_len_harmless by simp
  next
    case (Inr len)
    with complete_type_len_bounds have "0 < len" by blast
    with "3.prems" have "length (drop len (c # cs)) \<le> fuel" by simp
    with "3.IH" [OF Inr] "3.prems" Inr show ?thesis by auto
  qed
qed auto

lemma split_signature_harmless: "split_signature sig = Inl e \<Longrightarrow> harmless e"
  unfolding split_signature_def by (erule split_loop_harmless) simp

lemma alignment_show_ty: "\<exists>a. alignment (show_ty t) = Inr a \<and> a \<in> {1, 2, 4, 8}"
  by (cases t) (auto simp: alignment_def)

section \<open>Types are determined by their printed form\<close>

lemma show_ty_prefix:
  assumes "ty_ok 0 t" and "ty_ok 0 u" and "show_ty t @ r = show_ty u @ r'"
  shows "show_ty t = show_ty u \<and> r = r'"
proof -
  from complete_type_len_show [OF assms(1), of r] complete_type_len_show [OF assms(2), of r']
  have "length (show_ty t) = length (show_ty u)" by (simp add: assms(3))
  with assms(3) show ?thesis by simp
qed

lemma show_tys_inj:
  assumes "\<forall>t \<in> set ts. \<forall>u. ty_ok 0 u \<longrightarrow> show_ty t = show_ty u \<longrightarrow> t = u"
    and "\<forall>t \<in> set ts. ty_ok 0 t" and "\<forall>u \<in> set us. ty_ok 0 u" and "show_tys ts = show_tys us"
  shows "ts = us"
  using assms
proof (induction ts arbitrary: us)
  case Nil
  then show ?case by (cases us) auto
next
  case (Cons t ts)
  obtain u us' where us: "us = u # us'" using Cons.prems(4) by (cases us) auto
  have ok: "ty_ok 0 t" "ty_ok 0 u" and eq: "show_ty t @ show_tys ts = show_ty u @ show_tys us'"
    using Cons.prems(2-4) by (simp_all add: us)
  from show_ty_prefix [OF ok eq] have heads: "show_ty t = show_ty u"
    and tails: "show_tys ts = show_tys us'" by blast+
  have "t = u" using Cons.prems(1) ok(2) heads by (meson list.set_intros(1))
  moreover have "ts = us'"
    using Cons.IH [OF _ _ _ tails] Cons.prems(1-3) by (simp add: us)
  ultimately show ?case by (simp add: us)
qed

lemma show_ty_inj: "ty_ok 0 t \<Longrightarrow> ty_ok 0 u \<Longrightarrow> show_ty t = show_ty u \<Longrightarrow> t = u"
proof (induction t arbitrary: u)
  case (TBasic c)
  then show ?case by (cases u) auto
next
  case (TArray t)
  then obtain u' where "u = TArray u'" by (cases u) auto
  with TArray.prems TArray.IH [of u'] ty_ok_mono [of "Suc 0" _ 0] show ?case by simp
next
  case (TStruct ts)
  then obtain us where u: "u = TStruct us" by (cases u) auto
  with TStruct.prems have ok: "\<forall>t \<in> set ts. ty_ok 0 t" "\<forall>u \<in> set us. ty_ok 0 u"
    using ty_ok_mono [of "Suc 0" _ 0] by auto
  have "ts = us"
  proof (rule show_tys_inj [OF _ ok])
    show "\<forall>t \<in> set ts. \<forall>u. ty_ok 0 u \<longrightarrow> show_ty t = show_ty u \<longrightarrow> t = u"
      using TStruct.IH ok by blast
    show "show_tys ts = show_tys us" using TStruct.prems(3) by (simp add: u)
  qed
  with u show ?case by simp
next
  case (TEntry k v)
  then obtain k' v' where u: "u = TEntry k' v'" by (cases u) auto
  with TEntry.prems have ok: "ty_ok 0 k" "ty_ok 0 v" "ty_ok 0 k'" "ty_ok 0 v'"
    using ty_ok_mono [of "Suc 0" _ 0] by auto
  from TEntry.prems u have eq: "show_ty k @ show_ty v @ ''}'' = show_ty k' @ show_ty v' @ ''}''"
    by simp
  from show_ty_prefix [OF ok(1,3) eq] have "show_ty k = show_ty k'" "show_ty v = show_ty v'"
    by simp_all
  with TEntry.IH(1) [OF ok(1,3)] TEntry.IH(2) [OF ok(2,4)] show ?case by (simp add: u)
qed

text \<open>A type that is well formed is recognised at a depth only if it fits there.\<close>

lemma complete_type_len_fits:
  assumes "ty_ok 0 t" and "complete_type_len (show_ty t @ rest) d = Inr n"
  shows "ty_ok d t"
proof -
  from complete_type_len_sound [OF assms(2)] obtain u rest' where
    u: "ty_ok d u" "show_ty t @ rest = show_ty u @ rest'" by blast
  then have "ty_ok 0 u" using ty_ok_mono by blast
  with u assms(1) have "t = u" using show_ty_prefix show_ty_inj by blast
  with u show ?thesis by simp
qed

end
