(* ===== verification/Dbus_Codec.thy ===== *)
theory Dbus_Codec
  imports Dbus_Types
begin

text \<open>
  The wire encoding as a function of a value and the offset it starts at (\<open>enc\<close>), the typing
  of values (\<open>wt\<close>), and the facts that tie writer and reader to them: the writer appends
  exactly \<open>enc\<close>, the reader inverts it, and whatever the reader returns is well typed and
  as long as its encoding.
\<close>

section \<open>The encoding as a function of the offset\<close>

definition zeros :: "nat \<Rightarrow> byte list" where
  "zeros n = replicate n 0"

lemma length_zeros [simp]: "length (zeros n) = n"
  by (simp add: zeros_def)

text \<open>Encodes the elements one after the other, each at the offset where it starts.\<close>

fun enc_seq :: "('x \<Rightarrow> nat \<Rightarrow> byte list) \<Rightarrow> 'x list \<Rightarrow> nat \<Rightarrow> byte list" where
  "enc_seq f [] n = []"
| "enc_seq f (x # xs) n = f x n @ enc_seq f xs (n + length (f x n))"

lemma enc_seq_cong [fundef_cong]:
  "xs = ys \<Longrightarrow> n = m \<Longrightarrow> (\<And>x k. x \<in> set ys \<Longrightarrow> f x k = g x k) \<Longrightarrow>
     enc_seq f xs n = enc_seq g ys m"
  by (induction xs arbitrary: ys n m) auto

definition enc_word :: "'w::len word \<Rightarrow> nat \<Rightarrow> byte list" where
  "enc_word w n = zeros (pad_to (LENGTH('w) div 8) n) @ to_le w"

definition enc_str :: "string \<Rightarrow> nat \<Rightarrow> byte list" where
  "enc_str s n = enc_word (of_nat (length s) :: u32) n @ bytes_of s @ [0]"

definition enc_sig :: "string \<Rightarrow> byte list" where
  "enc_sig s = of_nat (length s) # bytes_of s @ [0]"

definition align_or_1 :: "string \<Rightarrow> nat" where
  "align_or_1 sig = (case alignment sig of Inl _ \<Rightarrow> 1 | Inr a \<Rightarrow> a)"

definition enc_array :: "nat \<Rightarrow> ('x \<Rightarrow> nat \<Rightarrow> byte list) \<Rightarrow> 'x list \<Rightarrow> nat \<Rightarrow> byte list" where
  "enc_array a f xs n =
     (let n1 = n + pad_to 4 n + 4; p = pad_to a n1; body = enc_seq f xs (n1 + p)
      in enc_word (of_nat (length body) :: u32) n @ zeros p @ body)"

lemma enc_array_cong [fundef_cong]:
  assumes "a = a'" "xs = ys" "n = n'" "\<And>x k. x \<in> set ys \<Longrightarrow> f x k = g x k"
  shows "enc_array a f xs n = enc_array a' g ys n'"
  using enc_seq_cong [of xs ys _ _ f g, OF assms(2) refl assms(4)] assms
  by (simp add: enc_array_def)

fun enc :: "dvalue \<Rightarrow> nat \<Rightarrow> byte list" where
  "enc (Byte b) n = [b]"
| "enc (Bool b) n = enc_word (if b then 1 else 0 :: u32) n"
| "enc (I16 w) n = enc_word w n"
| "enc (U16 w) n = enc_word w n"
| "enc (I32 w) n = enc_word w n"
| "enc (U32 w) n = enc_word w n"
| "enc (Fd w) n = enc_word w n"
| "enc (I64 w) n = enc_word w n"
| "enc (U64 w) n = enc_word w n"
| "enc (Double w) n = enc_word w n"
| "enc (Str s) n = enc_str s n"
| "enc (Path s) n = enc_str s n"
| "enc (Sig s) n = enc_sig s"
| "enc (Variant v) n =
     enc_sig (signature v) @ enc v (n + length (enc_sig (signature v)))"
| "enc (Struct vs) n = zeros (pad_to 8 n) @ enc_seq enc vs (n + pad_to 8 n)"
| "enc (Array e items) n = enc_array (align_or_1 e) enc items n"
| "enc (Dict _ _ entries) n =
     enc_array 8
       (\<lambda>e m. case e of (k, v) \<Rightarrow>
          let k' = zeros (pad_to 8 m) @ enc k (m + pad_to 8 m)
          in k' @ enc v (m + length k'))
       entries n"

definition enc_entry :: "dvalue \<times> dvalue \<Rightarrow> nat \<Rightarrow> byte list" where
  "enc_entry e m =
     (case e of (k, v) \<Rightarrow>
        let k' = zeros (pad_to 8 m) @ enc k (m + pad_to 8 m)
        in k' @ enc v (m + length k'))"

lemma enc_Dict: "enc (Dict k v entries) n = enc_array 8 enc_entry entries n"
  by (simp add: enc_entry_def [abs_def])

declare enc.simps(17) [simp del] enc_Dict [simp]

lemma enc_entry_simps:
  "enc_entry (k, v) m =
     (let m' = m + pad_to 8 m in zeros (pad_to 8 m) @ enc k m' @ enc v (m' + length (enc k m')))"
  by (simp add: enc_entry_def Let_def add.assoc)

lemma length_enc:
  "length (enc_word (h :: u16) n) = pad_to 2 n + 2"
  "length (enc_word (w :: u32) n) = pad_to 4 n + 4"
  "length (enc_word (l :: u64) n) = pad_to 8 n + 8"
  "length (enc_str s n) = pad_to 4 n + length s + 5"
  "length (enc_sig s) = length s + 2"
  by (simp_all add: enc_word_def enc_str_def enc_sig_def)

lemma length_enc_array:
  "length (enc_array a f xs n) =
     (let n2 = n + pad_to 4 n + 4 + pad_to a (n + pad_to 4 n + 4)
      in n2 - n + length (enc_seq f xs n2))"
  by (simp add: enc_array_def Let_def length_enc)

text \<open>Computes the length of a concrete encoding; to be used with \<open>simp only\<close>.\<close>

lemmas length_enc_simps = enc_seq.simps enc.simps(1-16) enc_Dict signature.simps
  length_append list.size length_zeros length_enc length_enc_array enc_entry_simps Let_def

section \<open>Typing\<close>

text \<open>
  \<open>wt d v t\<close>: the value \<open>v\<close> has type \<open>t\<close> and can be read back at nesting depth \<open>d\<close>: strings
  are UTF-8, signatures fit their length byte, and nothing nests too deep.
\<close>

fun wt :: "nat \<Rightarrow> dvalue \<Rightarrow> ty \<Rightarrow> bool" where
  "wt d (Byte _) t \<longleftrightarrow> d \<le> MAX_DEPTH \<and> t = TBasic (CHR ''y'')"
| "wt d (Bool _) t \<longleftrightarrow> d \<le> MAX_DEPTH \<and> t = TBasic (CHR ''b'')"
| "wt d (I16 _) t \<longleftrightarrow> d \<le> MAX_DEPTH \<and> t = TBasic (CHR ''n'')"
| "wt d (U16 _) t \<longleftrightarrow> d \<le> MAX_DEPTH \<and> t = TBasic (CHR ''q'')"
| "wt d (I32 _) t \<longleftrightarrow> d \<le> MAX_DEPTH \<and> t = TBasic (CHR ''i'')"
| "wt d (U32 _) t \<longleftrightarrow> d \<le> MAX_DEPTH \<and> t = TBasic (CHR ''u'')"
| "wt d (Fd _) t \<longleftrightarrow> d \<le> MAX_DEPTH \<and> t = TBasic (CHR ''h'')"
| "wt d (I64 _) t \<longleftrightarrow> d \<le> MAX_DEPTH \<and> t = TBasic (CHR ''x'')"
| "wt d (U64 _) t \<longleftrightarrow> d \<le> MAX_DEPTH \<and> t = TBasic (CHR ''t'')"
| "wt d (Double _) t \<longleftrightarrow> d \<le> MAX_DEPTH \<and> t = TBasic (CHR ''d'')"
| "wt d (Str s) t \<longleftrightarrow> d \<le> MAX_DEPTH \<and> t = TBasic (CHR ''s'') \<and> utf8_valid (bytes_of s)"
| "wt d (Path s) t \<longleftrightarrow> d \<le> MAX_DEPTH \<and> t = TBasic (CHR ''o'') \<and> utf8_valid (bytes_of s)"
| "wt d (Sig s) t \<longleftrightarrow>
     d \<le> MAX_DEPTH \<and> t = TBasic (CHR ''g'') \<and> utf8_valid (bytes_of s) \<and> length s < 256"
| "wt d (Variant v) t \<longleftrightarrow>
     d \<le> MAX_DEPTH \<and> t = TBasic (CHR ''v'') \<and> length (signature v) < 256
     \<and> (\<exists>tv. ty_ok 0 tv \<and> wt (Suc d) v tv)"
| "wt d (Struct vs) t \<longleftrightarrow>
     d \<le> MAX_DEPTH \<and> (case t of TStruct ts \<Rightarrow> list_all2 (wt (Suc d)) vs ts | _ \<Rightarrow> False)"
| "wt d (Array e items) t \<longleftrightarrow>
     d \<le> MAX_DEPTH \<and>
     (case t of
        TArray (TEntry _ _) \<Rightarrow> False
      | TArray te \<Rightarrow> e = show_ty te \<and> (\<forall>i \<in> set items. wt (Suc d) i te)
      | _ \<Rightarrow> False)"
| "wt d (Dict k v entries) t \<longleftrightarrow>
     d \<le> MAX_DEPTH \<and>
     (case t of
        TArray (TEntry tk tv) \<Rightarrow>
          k = show_ty tk \<and> v = show_ty tv \<and> ty_ok d tk
          \<and> (\<forall>(a, b) \<in> set entries. wt (Suc d) a tk \<and> wt (Suc d) b tv)
      | _ \<Rightarrow> False)"

lemma wt_depth: "wt d v t \<Longrightarrow> d \<le> MAX_DEPTH"
  by (cases v) auto

lemma wt_signature: "wt d v t \<Longrightarrow> signature v = show_ty t"
proof (induction v arbitrary: d t)
  case (Struct vs)
  then obtain ts where t: "t = TStruct ts" and all: "list_all2 (wt (Suc d)) vs ts"
    by (auto split: ty.splits)
  from all Struct.IH have "map signature vs = map show_ty ts"
    by (induction vs ts rule: list_all2_induct) auto
  then show ?case by (simp add: t)
qed (auto split: ty.splits)

lemma wt_Array:
  "wt d (Array e items) t \<longleftrightarrow>
     d \<le> MAX_DEPTH \<and> (\<exists>te. t = TArray te \<and> (\<forall>a b. te \<noteq> TEntry a b) \<and> e = show_ty te
       \<and> (\<forall>i \<in> set items. wt (Suc d) i te))"
proof (cases t)
  case (TArray te)
  then show ?thesis by (cases te) auto
qed auto

lemma wt_Dict:
  "wt d (Dict k v entries) t \<longleftrightarrow>
     d \<le> MAX_DEPTH \<and> (\<exists>tk tv. t = TArray (TEntry tk tv) \<and> k = show_ty tk \<and> v = show_ty tv
       \<and> ty_ok d tk \<and> (\<forall>(a, b) \<in> set entries. wt (Suc d) a tk \<and> wt (Suc d) b tv))"
proof (cases t)
  case (TArray te)
  then show ?thesis by (cases te) auto
qed auto

lemma wt_Struct:
  "wt d (Struct vs) t \<longleftrightarrow>
     d \<le> MAX_DEPTH \<and> (\<exists>ts. t = TStruct ts \<and> list_all2 (wt (Suc d)) vs ts)"
  by (cases t) auto

declare wt.simps(15-17) [simp del]

section \<open>The writer appends the encoding\<close>

lemma w_align_eq: "w_align n buf = buf @ zeros (pad_to n (length buf))"
  by (simp add: w_align_def zeros_def)

lemma w_align_align [simp]: "0 < n \<Longrightarrow> w_align n (w_align n buf) = w_align n buf"
  by (simp add: w_align_eq pad_to_idem zeros_def)

lemma w_u32_eq: "w_u32 w buf = buf @ enc_word w (length buf)"
  by (simp add: w_u32_def enc_word_def w_align_eq)

lemma w_u32_align [simp]: "w_u32 w (w_align 4 buf) = w_u32 w buf"
  by (simp add: w_u32_def)

lemma w_words:
  "w_u32 w (w_align 4 buf) = buf @ enc_word w (length buf)"
  "w_align 2 buf @ to_le (h :: u16) = buf @ enc_word h (length buf)"
  "w_align 8 buf @ to_le (l :: u64) = buf @ enc_word l (length buf)"
  by (simp only: w_u32_align) (simp_all add: w_u32_eq w_align_eq enc_word_def)

lemma w_string_eq: "w_string s (w_align 4 buf) = buf @ enc_str s (length buf)"
  by (simp only: w_string_def w_u32_align) (simp add: enc_str_def w_u32_eq)

lemma w_sig_eq: "w_sig s buf = buf @ enc_sig s"
  by (simp add: w_sig_def enc_sig_def)

lemma fold_opt_enc_seq:
  assumes "\<And>x b. x \<in> set xs \<Longrightarrow> wr x b = Some (b @ f x (length b))"
  shows "fold_opt wr xs buf = Some (buf @ enc_seq f xs (length buf))"
  using assms by (induction xs arbitrary: buf) auto

lemma patch_middle:
  "length bs = length zs \<Longrightarrow> patch (length xs) bs (xs @ zs @ ys) = xs @ bs @ ys"
  by (simp add: patch_def)

lemma w_array_eq:
  assumes "\<And>x b. x \<in> set xs \<Longrightarrow> wr x b = Some (b @ f x (length b))"
  shows "w_array a wr xs (w_align 4 buf) = Some (buf @ enc_array a f xs (length buf))"
proof -
  let ?p = "pad_to 4 (length buf)"
  let ?n1 = "length buf + ?p + 4"
  let ?q = "pad_to a ?n1"
  let ?body = "enc_seq f xs (?n1 + ?q)"
  let ?xs = "buf @ zeros ?p"
  let ?buf1 = "?xs @ to_le (0 :: u32)"
  have len1: "length ?buf1 = ?n1" and len2: "length (?buf1 @ zeros ?q) = ?n1 + ?q"
    by simp_all
  have u32: "w_u32 0 (w_align 4 buf) = ?buf1"
    by (simp only: w_u32_align) (simp add: w_u32_eq enc_word_def)
  have al: "w_align a ?buf1 = ?buf1 @ zeros ?q"
    by (simp only: w_align_eq len1)
  have fold: "fold_opt wr xs (?buf1 @ zeros ?q) = Some ((?buf1 @ zeros ?q) @ ?body)"
    using fold_opt_enc_seq [of xs wr f "?buf1 @ zeros ?q", OF assms] by (simp only: len2)
  have patch: "patch (length ?xs) (to_le (of_nat (length ?body) :: u32))
      (?xs @ to_le (0 :: u32) @ zeros ?q @ ?body)
    = ?xs @ to_le (of_nat (length ?body) :: u32) @ zeros ?q @ ?body"
    by (rule patch_middle) simp
  have at: "length ?buf1 - 4 = length ?xs" and
    n: "length ((?buf1 @ zeros ?q) @ ?body) - length (?buf1 @ zeros ?q) = length ?body"
    by simp_all
  have "w_array a wr xs (w_align 4 buf)
      = Some (patch (length ?xs) (to_le (of_nat (length ?body) :: u32))
          ((?buf1 @ zeros ?q) @ ?body))"
    by (simp only: w_array_def Let_def u32 al fold Option.bind.bind_lunit at n)
  also have "\<dots> = Some (?xs @ to_le (of_nat (length ?body) :: u32) @ zeros ?q @ ?body)"
    using patch by (simp only: append_assoc)
  finally show ?thesis
    by (simp add: enc_array_def Let_def enc_word_def)
qed

theorem w_value_eq: "wt d v t \<Longrightarrow> w_value v buf = Some (buf @ enc v (length buf))"
proof (induction v arbitrary: d t buf)
  case (Array e items)
  then obtain te where te: "e = show_ty te" "\<forall>i \<in> set items. wt (Suc d) i te"
    by (auto simp: wt_Array)
  obtain a where a: "alignment e = Inr a" using alignment_show_ty te by blast
  have "w_array a w_value items (w_align 4 buf) = Some (buf @ enc_array a enc items (length buf))"
    by (rule w_array_eq) (use Array.IH te in blast)
  with a show ?case by (simp add: align_of_def align_or_1_def)
next
  case (Dict k v entries)
  then obtain tk tv where "\<forall>(a, b) \<in> set entries. wt (Suc d) a tk \<and> wt (Suc d) b tv"
    by (auto simp: wt_Dict)
  note wts = this
  let ?wr = "\<lambda>e buf. case e of (k, v) \<Rightarrow>
      do { buf \<leftarrow> w_value k (w_align 8 buf); w_value v buf }"
  have "?wr x b = Some (b @ enc_entry x (length b))" if x: "x \<in> set entries" for x b
  proof (cases x)
    case (Pair a c)
    with x wts have "wt (Suc d) a tk" "wt (Suc d) c tv" by auto
    with Dict.IH(1) [OF x, of a] Dict.IH(2) [OF x, of c] Pair
    have "w_value a buf = Some (buf @ enc a (length buf))"
      "w_value c buf = Some (buf @ enc c (length buf))" for buf
      by auto
    then show ?thesis by (simp add: Pair enc_entry_def w_align_eq add.assoc Let_def)
  qed
  then have "w_array 8 ?wr entries (w_align 4 buf)
      = Some (buf @ enc_array 8 enc_entry entries (length buf))"
    by (rule w_array_eq)
  then show ?case by (simp only: w_value.simps enc_Dict)
next
  case (Struct vs)
  then obtain ts where "list_all2 (wt (Suc d)) vs ts" by (auto simp: wt_Struct)
  then have "\<forall>x \<in> set vs. \<exists>t. wt (Suc d) x t"
    by (metis list_all2_conv_all_nth in_set_conv_nth)
  with Struct.IH show ?case
    by (subst w_value.simps, subst fold_opt_enc_seq [where f = enc]) (auto simp: w_align_eq)
next
  case (Variant v)
  then show ?case by (auto simp: w_sig_eq)
qed (auto simp: w_words w_string_eq w_sig_eq simp del: w_u32_align)

section \<open>Reading what is there\<close>

text \<open>\<open>occurs_at b n zs\<close>: the bytes \<open>zs\<close> stand at offset \<open>n\<close> of the buffer \<open>b\<close>.\<close>

definition occurs_at :: "byte list \<Rightarrow> nat \<Rightarrow> byte list \<Rightarrow> bool" where
  "occurs_at b n zs \<longleftrightarrow> (\<exists>pre post. b = pre @ zs @ post \<and> length pre = n)"

lemma occurs_at_append [simp]:
  "occurs_at b n (xs @ ys) \<longleftrightarrow> occurs_at b n xs \<and> occurs_at b (n + length xs) ys"
proof
  assume "occurs_at b n (xs @ ys)"
  then show "occurs_at b n xs \<and> occurs_at b (n + length xs) ys"
    unfolding occurs_at_def by (metis append.assoc length_append)
next
  assume "occurs_at b n xs \<and> occurs_at b (n + length xs) ys"
  then obtain p q p' q' where b: "b = p @ xs @ q" "length p = n"
    and b': "b = p' @ ys @ q'" "length p' = n + length xs"
    unfolding occurs_at_def by blast
  from b b' have "p' = p @ xs"
    by (metis append.assoc append_eq_append_conv length_append)
  with b b' show "occurs_at b n (xs @ ys)"
    unfolding occurs_at_def by (metis append.assoc)
qed

lemma occurs_at_Cons:
  "occurs_at b n (x # xs) \<longleftrightarrow> occurs_at b n [x] \<and> occurs_at b (Suc n) xs"
  using occurs_at_append [of b n "[x]" xs] by simp

lemma occurs_at_bound: "occurs_at b n zs \<Longrightarrow> n + length zs \<le> length b"
  by (auto simp: occurs_at_def)

lemma occurs_at_take: "occurs_at b n zs \<Longrightarrow> take (length zs) (drop n b) = zs"
  by (auto simp: occurs_at_def)

lemma occurs_at_self [simp]: "occurs_at (p @ zs @ q) (length p) zs"
  by (auto simp: occurs_at_def)

lemma reader_at_simps [simp]:
  "rbuf (reader_at b n big) = b" "rpos (reader_at b n big) = n" "rbig (reader_at b n big) = big"
  "(reader_at b n big)\<lparr>rpos := m\<rparr> = reader_at b m big"
  by (simp_all add: reader_at_def)

lemma take_bytes_at:
  "occurs_at b n zs \<Longrightarrow> k = length zs \<Longrightarrow>
     take_bytes k (reader_at b n big) = Inr (zs, reader_at b (n + length zs) big)"
  using occurs_at_bound [of b n zs] occurs_at_take [of b n zs] by (simp add: take_bytes_def)

lemma align_at:
  "n + pad_to a n \<le> length b \<Longrightarrow>
     align a (reader_at b n big) = Inr (reader_at b (n + pad_to a n) big)"
  by (simp add: align_def pad_to_def Let_def)

lemma align_at_zeros:
  "occurs_at b n (zeros (pad_to a n)) \<Longrightarrow>
     align a (reader_at b n big) = Inr (reader_at b (n + pad_to a n) big)"
  using occurs_at_bound [of b n "zeros (pad_to a n)"] by (simp add: align_at)

lemma align_1 [simp]: "n \<le> length b \<Longrightarrow> align (Suc 0) (reader_at b n big) = Inr (reader_at b n big)"
  by (simp add: align_at)

lemma read_word_at:
  "occurs_at b n (to_le (h :: u16)) \<Longrightarrow>
     read_u16 (reader_at b n False) = Inr (h, reader_at b (n + 2) False)"
  "occurs_at b n (to_le (l :: u64)) \<Longrightarrow>
     read_u64 (reader_at b n False) = Inr (l, reader_at b (n + 8) False)"
  using take_bytes_at [of b n "to_le h" 2 False] take_bytes_at [of b n "to_le l" 8 False]
  by (simp_all add: read_u16_def read_u64_def from_order_def)

lemma read_u32_at:
  assumes "occurs_at b n (enc_word (w :: u32) n)"
  shows "read_u32 (reader_at b n False)
           = Inr (w, reader_at b (n + length (enc_word w n)) False)"
proof -
  from assms have z: "occurs_at b n (zeros (pad_to 4 n))"
    and w: "occurs_at b (n + pad_to 4 n) (to_le w)"
    by (simp_all add: enc_word_def)
  show ?thesis
    using align_at_zeros [OF z, of False] take_bytes_at [OF w, of 4 False]
    by (simp add: read_u32_def enc_word_def from_order_def add.assoc)
qed

lemma read_u32_after_align:
  assumes "occurs_at b n (enc_word (w :: u32) n)"
  shows "read_u32 (reader_at b (n + pad_to 4 n) False)
           = Inr (w, reader_at b (n + length (enc_word w n)) False)"
proof -
  from assms have "occurs_at b (n + pad_to 4 n) (enc_word w (n + pad_to 4 n))"
    by (simp add: enc_word_def pad_to_idem zeros_def)
  from read_u32_at [OF this] show ?thesis
    by (simp add: enc_word_def pad_to_idem add.assoc)
qed

lemma read_string_at:
  assumes "occurs_at b n (bytes_of s @ [0])" and "utf8_valid (bytes_of s)"
  shows "read_string (length s) (reader_at b n big) = Inr (s, reader_at b (n + length s + 1) big)"
  using assms take_bytes_at [of b n "bytes_of s" "length s" big]
    take_bytes_at [of b "n + length s" "[0]" 1 big]
  by (simp add: read_string_def)

lemma read_sig_at:
  assumes "occurs_at b n (enc_sig s)" and "utf8_valid (bytes_of s)" and "length s < 256"
  shows "read_byte_len (reader_at b n big) = Inr (length s, reader_at b (Suc n) big)"
    and "read_string (length s) (reader_at b (Suc n) big)
           = Inr (s, reader_at b (n + length (enc_sig s)) big)"
proof -
  from assms(1) have o: "occurs_at b n [of_nat (length s)]" "occurs_at b (Suc n) (bytes_of s @ [0])"
    using occurs_at_append [of b n "[of_nat (length s)]" "bytes_of s @ [0]"]
    by (simp_all add: enc_sig_def)
  have "unat (of_nat (length s) :: byte) = length s"
    using assms(3) by (simp add: unat_of_nat)
  with take_bytes_at [OF o(1), of 1 big]
  show "read_byte_len (reader_at b n big) = Inr (length s, reader_at b (Suc n) big)"
    by (simp add: read_byte_len_def)
  from read_string_at [OF o(2) assms(2)]
  show "read_string (length s) (reader_at b (Suc n) big)
      = Inr (s, reader_at b (n + length (enc_sig s)) big)"
    by (simp add: enc_sig_def)
qed

end
