(* ===== verification/Dbus_Roundtrip.thy ===== *)
theory Dbus_Roundtrip
  imports Dbus_Codec
begin

text \<open>
  The reader inverts the writer on well-typed values, and everything the reader returns on a
  valid type is well typed, of the length of its own encoding, and read without a panic
  and within the loops' fuel.
\<close>

section \<open>Unfolding the reader by the shape of the type\<close>

lemma alignment_simps [simp]:
  "alignment (CHR ''a'' # s) = Inr 4" "alignment (CHR ''('' # s) = Inr 8"
  "alignment (CHR ''{'' # s) = Inr 8" "alignment (CHR ''v'' # s) = Inr 1"
  by (simp_all add: alignment_def)

lemma read_depth_basic:
  "d \<le> MAX_DEPTH \<Longrightarrow> c \<noteq> CHR ''v'' \<Longrightarrow> c \<noteq> CHR ''('' \<Longrightarrow> c \<noteq> CHR ''a'' \<Longrightarrow>
     read_depth (c # s) d r
       = and_then (alignment [c]) (\<lambda>a. and_then (align a r) (\<lambda>r. read_basic c r))"
  by (subst read_depth.simps) (simp add: alignment_def)

lemma read_depth_variant:
  "d \<le> MAX_DEPTH \<Longrightarrow>
     read_depth ''v'' d r
       = and_then (align 1 r) (\<lambda>r.
           and_then (read_byte_len r) (\<lambda>(n, r).
             and_then (read_string n r) (\<lambda>(inner, r).
               and_then (split_signature inner) (\<lambda>ts.
                 if length ts \<noteq> 1 then Inl Variant_not_single
                 else and_then (read_depth inner (Suc d) r) (\<lambda>(v, r). Inr (Variant v, r))))))"
  by (subst read_depth.simps) simp

lemma read_depth_struct:
  assumes "d \<le> MAX_DEPTH" and "\<forall>t \<in> set ts. ty_ok 0 t"
  shows "read_depth (show_ty (TStruct ts)) d r
    = and_then (align 8 r) (\<lambda>r.
        and_then (read_fields (\<lambda>t r. read_depth t (Suc d) r) (map show_ty ts) r) (\<lambda>(fs, r).
          Inr (Struct fs, r)))"
  using assms by (subst read_depth.simps) (simp add: split_signature_complete butlast_append)

definition read_elements ::
  "string \<Rightarrow> (nat \<Rightarrow> reader \<Rightarrow> dvalue reads) \<Rightarrow> reader \<Rightarrow> dvalue reads" where
  "read_elements elem rd r =
     and_then (align 4 r) (\<lambda>r. and_then (read_u32 r) (\<lambda>(len, r).
       and_then (alignment elem) (\<lambda>ea. and_then (align ea r) (\<lambda>r.
         if length (rbuf r) < rpos r + unat len then Inl Array_overruns
         else rd (unat len) r))))"

lemma read_depth_array:
  assumes "d \<le> MAX_DEPTH" and "\<forall>a b. te \<noteq> TEntry a b" and "ty_ok 0 te"
  shows "read_depth (show_ty (TArray te)) d r
    = read_elements (show_ty te) (\<lambda>len r.
        and_then (read_array (\<lambda>r. read_depth (show_ty te) (Suc d) r) len r)
          (\<lambda>(items, r). Inr (Array (show_ty te) items, r))) r"
proof -
  have "take 1 (show_ty te) \<noteq> ''{''"
    using assms by (cases te) (auto simp: basic_types_def)
  then show ?thesis
    using assms(1) by (subst read_depth.simps) (simp add: read_elements_def cong: if_cong)
qed

lemma read_depth_dict:
  assumes "d \<le> MAX_DEPTH" and "ty_ok d tk"
  shows "read_depth (show_ty (TArray (TEntry tk tv))) d r
    = read_elements (show_ty (TEntry tk tv)) (\<lambda>len r.
        and_then (read_array (read_entry (\<lambda>r. read_depth (show_ty tk) (Suc d) r)
                                         (\<lambda>r. read_depth (show_ty tv) (Suc d) r)) len r)
          (\<lambda>(es, r). Inr (Dict (show_ty tk) (show_ty tv) es, r))) r"
proof -
  have inner: "butlast (show_ty tk @ show_ty tv @ ''}'') = show_ty tk @ show_ty tv"
    by (simp add: butlast_append)
  have len: "complete_type_len (show_ty tk @ show_ty tv) d = Inr (length (show_ty tk))"
    using assms(2) by (rule complete_type_len_show)
  show ?thesis
    using assms(1)
    by (subst read_depth.simps) (simp add: read_elements_def inner len Let_def cong: if_cong)
qed

section \<open>Reading back an encoding\<close>

lemma enc_nonempty: "wt d v t \<Longrightarrow> ty_ok k t \<Longrightarrow> enc v n \<noteq> []"
proof (induction v arbitrary: d t k n)
  case (Struct vs)
  then obtain ts where t: "t = TStruct ts" and all: "list_all2 (wt (Suc d)) vs ts"
    by (auto simp: wt_Struct)
  with Struct.prems obtain v vs' t' ts' where vs: "vs = v # vs'" "ts = t' # ts'"
    by (cases ts; cases vs) auto
  with t all Struct.prems have "enc v m \<noteq> []" for m
    using Struct.IH [of v "Suc d" t' "Suc k" m] by simp
  then show ?case by (simp add: vs)
qed (auto simp: enc_word_def enc_str_def enc_sig_def enc_array_def Let_def zeros_def)

lemma length_enc_seq: "(\<And>x k. x \<in> set xs \<Longrightarrow> f x k \<noteq> []) \<Longrightarrow> length xs \<le> length (enc_seq f xs n)"
proof (induction xs arbitrary: n)
  case (Cons x xs)
  then have "0 < length (f x n)" "length xs \<le> length (enc_seq f xs (n + length (f x n)))" by auto
  then show ?case by (simp del: length_greater_0_conv)
qed simp

definition reads_back ::
  "(reader \<Rightarrow> 'x reads) \<Rightarrow> ('x \<Rightarrow> nat \<Rightarrow> byte list) \<Rightarrow> 'x \<Rightarrow> byte list \<Rightarrow> bool" where
  "reads_back rd f x b \<longleftrightarrow>
     (\<forall>n. occurs_at b n (f x n) \<longrightarrow> length (f x n) < 2 ^ 32 \<longrightarrow>
        rd (reader_at b n False) = Inr (x, reader_at b (n + length (f x n)) False))"

lemma reads_backD:
  "reads_back rd f x b \<Longrightarrow> occurs_at b n (f x n) \<Longrightarrow> length (f x n) < 2 ^ 32 \<Longrightarrow>
     rd (reader_at b n False) = Inr (x, reader_at b (n + length (f x n)) False)"
  by (simp add: reads_back_def)

lemma read_items_back:
  assumes "\<And>x. x \<in> set xs \<Longrightarrow> reads_back rd f x b" and "\<And>x k. x \<in> set xs \<Longrightarrow> f x k \<noteq> []"
    and "occurs_at b n (enc_seq f xs n)" and "length (enc_seq f xs n) < 2 ^ 32"
    and "length xs \<le> fuel"
  shows "read_items rd fuel (n + length (enc_seq f xs n)) (reader_at b n False)
           = Inr (xs, reader_at b (n + length (enc_seq f xs n)) False)"
  using assms
proof (induction xs arbitrary: n fuel)
  case Nil
  then show ?case by (subst read_items.simps) simp
next
  case (Cons x xs)
  let ?m = "n + length (f x n)"
  from Cons.prems(5) obtain k where k: "fuel = Suc k" "length xs \<le> k" by (cases fuel) auto
  have rd: "rd (reader_at b n False) = Inr (x, reader_at b ?m False)"
    using Cons.prems by (intro reads_backD) auto
  have IH: "read_items rd k (?m + length (enc_seq f xs ?m)) (reader_at b ?m False)
      = Inr (xs, reader_at b (?m + length (enc_seq f xs ?m)) False)"
    using Cons.prems k by (intro Cons.IH) auto
  have "0 < length (f x n)" using Cons.prems(2) by simp
  with rd IH k show ?case
    by (subst read_items.simps) (simp add: add.assoc del: length_greater_0_conv)
qed

lemma read_fields_back:
  assumes "list_all2 (\<lambda>v t. reads_back (rd t) f v b) vs ts"
    and "occurs_at b n (enc_seq f vs n)" and "length (enc_seq f vs n) < 2 ^ 32"
  shows "read_fields rd ts (reader_at b n False)
           = Inr (vs, reader_at b (n + length (enc_seq f vs n)) False)"
  using assms
proof (induction vs ts arbitrary: n rule: list_all2_induct)
  case (Cons v vs t ts)
  then have "rd t (reader_at b n False) = Inr (v, reader_at b (n + length (f v n)) False)"
    by (intro reads_backD) auto
  with Cons show ?case by (simp add: add.assoc)
qed simp

lemma read_elements_back:
  assumes items: "\<And>x. x \<in> set xs \<Longrightarrow> reads_back rd f x b" "\<And>x k. x \<in> set xs \<Longrightarrow> f x k \<noteq> []"
    and a: "alignment elem = Inr a"
    and o: "occurs_at b n (enc_array a f xs n)" and l: "length (enc_array a f xs n) < 2 ^ 32"
  shows "read_elements elem (\<lambda>len r. and_then (read_array rd len r) (\<lambda>(vs, r). Inr (g vs, r)))
           (reader_at b n False)
         = Inr (g xs, reader_at b (n + length (enc_array a f xs n)) False)"
proof -
  let ?n1 = "n + pad_to 4 n + 4"
  let ?n2 = "?n1 + pad_to a ?n1"
  let ?body = "enc_seq f xs ?n2"
  let ?len = "of_nat (length ?body) :: u32"
  have w: "occurs_at b n (enc_word ?len n)" and z: "occurs_at b ?n1 (zeros (pad_to a ?n1))"
    and body: "occurs_at b ?n2 ?body"
    using o by (simp_all add: enc_array_def Let_def enc_word_def add.assoc)
  have bound: "length ?body < 2 ^ 32"
    using l by (simp add: enc_array_def Let_def)
  then have len: "unat ?len = length ?body" by (simp add: unat_of_nat)
  have z4: "align 4 (reader_at b n False) = Inr (reader_at b (n + pad_to 4 n) False)"
    using w by (intro align_at_zeros) (simp add: enc_word_def)
  have u: "read_u32 (reader_at b (n + pad_to 4 n) False) = Inr (?len, reader_at b ?n1 False)"
    using read_u32_after_align [OF w] by (simp add: enc_word_def add.assoc)
  have za: "align a (reader_at b ?n1 False) = Inr (reader_at b ?n2 False)"
    by (rule align_at_zeros [OF z])
  have it: "read_items rd (length ?body) (?n2 + length ?body) (reader_at b ?n2 False)
      = Inr (xs, reader_at b (?n2 + length ?body) False)"
    by (rule read_items_back [OF items body bound length_enc_seq]) (use items in auto)
  have total: "n + length (enc_array a f xs n) = ?n2 + length ?body"
    by (simp add: enc_array_def Let_def enc_word_def)
  have "\<not> length b < ?n2 + length ?body" using occurs_at_bound [OF body] by simp
  with z4 u a za it len show ?thesis
    by (simp add: read_elements_def read_array_def Let_def total)
qed

lemma basic_types_ascii: "c \<in> basic_types \<Longrightarrow> unat (byte_of c) < 128"
  by (auto simp: basic_types_def unat_byte_of)

lemma show_ty_ascii: "ty_ok d t \<Longrightarrow> c \<in> set (show_ty t) \<Longrightarrow> unat (byte_of c) < 128"
proof (induction t arbitrary: d)
  case (TBasic x)
  then show ?case by (simp add: basic_types_ascii)
next
  case (TStruct ts)
  then show ?case by (auto simp: unat_byte_of)
next
  case (TArray t)
  then show ?case by (auto simp: unat_byte_of)
next
  case (TEntry k v)
  then show ?case by (auto simp: unat_byte_of)
qed

lemma utf8_show_ty: "ty_ok d t \<Longrightarrow> utf8_valid (bytes_of (show_ty t))"
  by (rule utf8_valid_ascii) (auto dest: show_ty_ascii)

lemma read_entry_back:
  assumes "reads_back rk enc x b" and "reads_back rv enc y b"
  shows "reads_back (read_entry rk rv) enc_entry (x, y) b"
  unfolding reads_back_def
proof (intro allI impI)
  fix n
  let ?m = "n + pad_to 8 n"
  let ?p = "?m + length (enc x ?m)"
  assume o: "occurs_at b n (enc_entry (x, y) n)" and l: "length (enc_entry (x, y) n) < 2 ^ 32"
  have o': "occurs_at b n (zeros (pad_to 8 n))" "occurs_at b ?m (enc x ?m)" "occurs_at b ?p (enc y ?p)"
    using o by (simp_all add: enc_entry_def Let_def add.assoc)
  have "length (enc x ?m) < 2 ^ 32" "length (enc y ?p) < 2 ^ 32"
    using l by (simp_all add: enc_entry_def Let_def add.assoc)
  with o' assms have "rk (reader_at b ?m False) = Inr (x, reader_at b ?p False)"
    "rv (reader_at b ?p False) = Inr (y, reader_at b (?p + length (enc y ?p)) False)"
    by (auto intro!: reads_backD)
  with align_at_zeros [OF o'(1), of False]
  show "read_entry rk rv (reader_at b n False)
      = Inr ((x, y), reader_at b (n + length (enc_entry (x, y) n)) False)"
    by (simp add: read_entry_def enc_entry_def Let_def add.assoc)
qed

lemma read_basic_word:
  assumes "occurs_at b n (enc_word (w :: u32) n)"
  shows "and_then (align 4 (reader_at b n False)) (\<lambda>r. and_then (read_u32 r) f)
           = f (w, reader_at b (n + length (enc_word w n)) False)"
proof -
  from assms have "occurs_at b n (zeros (pad_to 4 n))" by (simp add: enc_word_def)
  with assms show ?thesis
    by (simp add: align_at_zeros read_u32_after_align)
qed

lemma read_basic_halves:
  "occurs_at b n (enc_word (h :: u16) n) \<Longrightarrow>
     and_then (align 2 (reader_at b n False)) (\<lambda>r. and_then (read_u16 r) f)
       = f (h, reader_at b (n + length (enc_word h n)) False)"
  "occurs_at b n (enc_word (l :: u64) n) \<Longrightarrow>
     and_then (align 8 (reader_at b n False)) (\<lambda>r. and_then (read_u64 r) g)
       = g (l, reader_at b (n + length (enc_word l n)) False)"
  using read_word_at(1) [of b "n + pad_to 2 n" h] read_word_at(2) [of b "n + pad_to 8 n" l]
  by (simp_all add: enc_word_def align_at_zeros add.assoc)

lemma read_basic_str:
  assumes o: "occurs_at b n (enc_str s n)" and l: "length (enc_str s n) < 2 ^ 32"
    and u: "utf8_valid (bytes_of s)"
  shows "and_then (align 4 (reader_at b n False)) (\<lambda>r.
           and_then (read_u32 r) (\<lambda>(k, r). and_then (read_string (unat k) r) f))
         = f (s, reader_at b (n + length (enc_str s n)) False)"
proof -
  let ?len = "of_nat (length s) :: u32"
  let ?m = "n + length (enc_word ?len n)"
  have w: "occurs_at b n (enc_word ?len n)" and s: "occurs_at b ?m (bytes_of s @ [0])"
    using o by (simp_all add: enc_str_def add.assoc)
  have "length s < 2 ^ 32" using l by (simp add: enc_str_def)
  then have "unat ?len = length s" by (simp add: unat_of_nat)
  with read_string_at [OF s u, of False]
  show ?thesis
    by (simp add: read_basic_word [OF w] enc_str_def add.assoc)
qed

lemma reads_back_basic:
  assumes "wt d v (TBasic c)" and "c \<noteq> CHR ''v''"
  shows "reads_back (read_depth [c] d) enc v b"
proof -
  have d: "d \<le> MAX_DEPTH" using assms(1) by (rule wt_depth)
  have c: "c \<noteq> CHR ''('' \<and> c \<noteq> CHR ''a''" using assms by (cases v) (auto simp: wt_Array wt_Dict wt_Struct)
  note rd = read_depth_basic [OF d, of _ "[]"]
  show ?thesis
    unfolding reads_back_def
  proof (intro allI impI)
    fix n
    assume o: "occurs_at b n (enc v n)" and l: "length (enc v n) < 2 ^ 32"
    show "read_depth [c] d (reader_at b n False)
        = Inr (v, reader_at b (n + length (enc v n)) False)"
    proof (cases v)
      case (Byte x)
      with assms o take_bytes_at [of b n "[x]" 1 False] occurs_at_bound [OF o] show ?thesis
        by (simp add: rd alignment_def read_basic_def)
    next
      case (Sig x)
      with assms o read_sig_at [of b n x False] occurs_at_bound [OF o] show ?thesis
        by (simp add: rd alignment_def read_basic_def)
    qed (use assms o l in \<open>auto simp: rd alignment_def read_basic_def read_basic_word
           read_basic_halves read_basic_str wt_Array wt_Dict wt_Struct\<close>)
  qed
qed

theorem read_enc:
  "wt d v t \<Longrightarrow> ty_ok 0 t \<Longrightarrow> reads_back (read_depth (show_ty t) d) enc v b"
proof (induction v arbitrary: d t)
  case (Variant v)
  then obtain tv where d: "d \<le> MAX_DEPTH" and t: "t = TBasic (CHR ''v'')"
    and l: "length (signature v) < 256" and tv: "ty_ok 0 tv" "wt (Suc d) v tv" by auto
  let ?s = "signature v"
  have s: "?s = show_ty tv" using tv(2) by (rule wt_signature)
  have split: "split_signature ?s = Inr [?s]"
    using split_signature_complete [of "[tv]"] tv(1) s by simp
  have "utf8_valid (bytes_of ?s)" unfolding s using tv(1) by (rule utf8_show_ty)
  show ?case
    unfolding reads_back_def
  proof (intro allI impI)
    fix n
    assume o: "occurs_at b n (enc (Variant v) n)" and ln: "length (enc (Variant v) n) < 2 ^ 32"
    let ?m = "n + length (enc_sig ?s)"
    from o have o': "occurs_at b n (enc_sig ?s)" "occurs_at b ?m (enc v ?m)" by simp_all
    have "reads_back (read_depth ?s (Suc d)) enc v b"
      unfolding s by (rule Variant.IH [OF tv(2,1)])
    then have rv: "read_depth ?s (Suc d) (reader_at b ?m False)
        = Inr (v, reader_at b (?m + length (enc v ?m)) False)"
      by (rule reads_backD) (use o'(2) ln in auto)
    show "read_depth (show_ty t) d (reader_at b n False)
        = Inr (Variant v, reader_at b (n + length (enc (Variant v) n)) False)"
      using read_sig_at [OF o'(1) \<open>utf8_valid (bytes_of ?s)\<close> l, of False] split rv
        occurs_at_bound [OF o'(1)]
      by (simp add: t read_depth_variant [OF d] add.assoc)
  qed
next
  case (Struct vs)
  then obtain ts where d: "d \<le> MAX_DEPTH" and t: "t = TStruct ts"
    and all: "list_all2 (wt (Suc d)) vs ts" by (auto simp: wt_Struct)
  have ok: "\<forall>t \<in> set ts. ty_ok 0 t"
    using Struct.prems(2) ty_ok_mono [of "Suc 0" _ 0] by (auto simp: t)
  have each: "list_all2 (\<lambda>v t. reads_back (read_depth t (Suc d)) enc v b) vs (map show_ty ts)"
    using all ok Struct.IH
    by (auto simp: list_all2_conv_all_nth)
  show ?case
    unfolding reads_back_def
  proof (intro allI impI)
    fix n
    assume o: "occurs_at b n (enc (Struct vs) n)" and ln: "length (enc (Struct vs) n) < 2 ^ 32"
    let ?m = "n + pad_to 8 n"
    from o have o': "occurs_at b n (zeros (pad_to 8 n))" "occurs_at b ?m (enc_seq enc vs ?m)"
      by simp_all
    from ln have "length (enc_seq enc vs ?m) < 2 ^ 32" by simp
    from read_fields_back [OF each o'(2) this] align_at_zeros [OF o'(1), of False]
    show "read_depth (show_ty t) d (reader_at b n False)
        = Inr (Struct vs, reader_at b (n + length (enc (Struct vs) n)) False)"
      by (simp only: t read_depth_struct [OF d ok]) (simp add: add.assoc)
  qed
next
  case (Array e items)
  then obtain te where d: "d \<le> MAX_DEPTH" and t: "t = TArray te" "\<forall>a b. te \<noteq> TEntry a b"
    and e: "e = show_ty te" and all: "\<forall>i \<in> set items. wt (Suc d) i te" by (auto simp: wt_Array)
  have ok: "ty_ok 0 te" using Array.prems(2) ty_ok_mono [of "Suc 0" te 0] by (simp add: t)
  obtain a where a: "alignment e = Inr a" using alignment_show_ty e by blast
  have items: "reads_back (read_depth e (Suc d)) enc i b" if "i \<in> set items" for i
    using Array.IH [OF that] all that ok by (simp add: e)
  have "enc i k \<noteq> []" if "i \<in> set items" for i k
    using enc_nonempty all ok that by blast
  note elems = read_elements_back [where g = "Array e", OF items this a]
  show ?case
    unfolding reads_back_def t(1) read_depth_array [OF d t(2) ok] e [symmetric]
    using elems by (simp add: align_or_1_def a)
next
  case (Dict k v es)
  then obtain tk tv where d: "d \<le> MAX_DEPTH" and t: "t = TArray (TEntry tk tv)"
    and kv: "k = show_ty tk" "v = show_ty tv" and tk: "ty_ok d tk"
    and all: "\<forall>(a, b) \<in> set es. wt (Suc d) a tk \<and> wt (Suc d) b tv" by (auto simp: wt_Dict)
  have ok: "ty_ok 0 tk" "ty_ok 0 tv"
    using Dict.prems(2) ty_ok_mono [of "Suc (Suc 0)" _ 0] by (auto simp: t)
  have entry: "reads_back (read_entry (read_depth k (Suc d)) (read_depth v (Suc d))) enc_entry e b"
    if e: "e \<in> set es" for e
  proof (cases e)
    case (Pair x y)
    with e all have "wt (Suc d) x tk" "wt (Suc d) y tv" by auto
    with Dict.IH(1) [OF e, of x] Dict.IH(2) [OF e, of y] Pair ok
    have "reads_back (read_depth k (Suc d)) enc x b" "reads_back (read_depth v (Suc d)) enc y b"
      by (auto simp: kv)
    then show ?thesis
      unfolding Pair by (rule read_entry_back)
  qed
  have ne: "enc_entry e m \<noteq> []" if "e \<in> set es" for e m
  proof (cases e)
    case (Pair x y)
    with that all have "wt (Suc d) x tk" by auto
    from enc_nonempty [OF this ok(1)] show ?thesis by (simp add: Pair enc_entry_def Let_def)
  qed
  have al: "alignment (show_ty (TEntry tk tv)) = Inr 8" by simp
  note elems = read_elements_back [where g = "Dict k v", OF entry ne al]
  show ?case
    unfolding reads_back_def t read_depth_dict [OF d tk] kv [symmetric] enc_Dict
    using elems by simp
qed (use reads_back_basic in auto)

end
