(* ===== verification/Dbus_Sound.thy ===== *)
theory Dbus_Sound
  imports Dbus_Roundtrip
begin

text \<open>
  What the reader guarantees on arbitrary bytes: it never panics and never exhausts the fuel
  of its loops, and what it returns is well typed and occupied exactly the bytes that its
  own encoding would, in either byte order.
\<close>

section \<open>Postconditions of reads\<close>

definition okres ::
  "byte list \<Rightarrow> bool \<Rightarrow> 'x reads \<Rightarrow> ('x \<Rightarrow> nat \<Rightarrow> bool) \<Rightarrow> bool" where
  "okres b big res W \<longleftrightarrow>
     (case res of
        Inl e \<Rightarrow> harmless e
      | Inr (x, r) \<Rightarrow> \<exists>m. r = reader_at b m big \<and> m \<le> length b \<and> W x m)"

lemma okres_Inl [simp]: "okres b big (Inl e) W \<longleftrightarrow> harmless e"
  by (simp add: okres_def)

lemma reader_at_eq [simp]: "reader_at b m big = reader_at b k big \<longleftrightarrow> m = k"
  by (simp add: reader_at_def)

lemma okres_Inr [simp]: "okres b big (Inr (x, reader_at b m big)) W \<longleftrightarrow> m \<le> length b \<and> W x m"
  by (auto simp: okres_def)

lemma okres_bind:
  assumes "okres b big m W"
    and "\<And>x k. k \<le> length b \<Longrightarrow> W x k \<Longrightarrow> okres b big (g x (reader_at b k big)) V"
  shows "okres b big (and_then m (\<lambda>(x, r). g x r)) V"
  using assms by (cases m) (auto simp: okres_def)

lemma okres_if:
  "(c \<Longrightarrow> okres b big x W) \<Longrightarrow> (\<not> c \<Longrightarrow> okres b big y W) \<Longrightarrow> okres b big (if c then x else y) W"
  by simp

lemma okres_mono: "okres b big m W \<Longrightarrow> (\<And>x k. W x k \<Longrightarrow> V x k) \<Longrightarrow> okres b big m V"
  by (cases m) (auto simp: okres_def)

lemma harmless_simps [simp]:
  "harmless Truncated_padding" "harmless Truncated_value" "harmless Not_nul_terminated"
  "harmless Invalid_utf8" "harmless Value_too_deep" "harmless (Bad_boolean w)"
  "harmless Variant_not_single" "harmless Array_overruns" "harmless Element_overruns"
  "harmless (Cannot_read c)" "harmless Trailing_bytes"
  by (simp_all add: harmless_def)

lemma okres_align:
  assumes "n + pad_to a n \<le> length b \<Longrightarrow> okres b big (g (reader_at b (n + pad_to a n) big)) V"
  shows "okres b big (and_then (align a (reader_at b n big)) g) V"
proof (cases "n + pad_to a n \<le> length b")
  case True
  with assms show ?thesis by (simp add: align_at)
next
  case False
  then show ?thesis by (simp add: align_def Let_def pad_to_def)
qed

lemma okres_take:
  "okres b big (take_bytes k (reader_at b n big)) (\<lambda>bs m. length bs = k \<and> m = n + k)"
  by (auto simp: take_bytes_def)

lemma okres_words:
  "okres b big (read_u16 (reader_at b n big)) (\<lambda>w m. m = n + 2)"
  "okres b big (read_u32 (reader_at b n big)) (\<lambda>w m. m = n + pad_to 4 n + 4)"
  "okres b big (read_u64 (reader_at b n big)) (\<lambda>w m. m = n + 8)"
  unfolding read_u16_def read_u32_def read_u64_def
  by (auto intro!: okres_align okres_bind [OF okres_take])

lemma okres_byte_len:
  "okres b big (read_byte_len (reader_at b n big)) (\<lambda>k m. k < 256 \<and> m = n + 1)"
  unfolding read_byte_len_def
  by (rule okres_bind [OF okres_take]) (simp add: unat_byte_less)

lemma okres_string:
  "okres b big (read_string k (reader_at b n big))
     (\<lambda>s m. length s = k \<and> utf8_valid (bytes_of s) \<and> m = n + k + 1)"
  unfolding read_string_def
  by (rule okres_bind [OF okres_take], rule okres_bind [OF okres_take]) auto

section \<open>The base types\<close>

definition fits_enc :: "nat \<Rightarrow> ('x \<Rightarrow> nat \<Rightarrow> byte list) \<Rightarrow> ('x \<Rightarrow> bool) \<Rightarrow> 'x \<Rightarrow> nat \<Rightarrow> bool" where
  "fits_enc n f P x m \<longleftrightarrow> P x \<and> m = n + length (f x n)"

lemma okres_basic:
  assumes d: "d \<le> MAX_DEPTH" and n: "n \<le> length b" and c: "c \<notin> set ''v(a''"
  shows "okres b big (read_depth (c # s) d (reader_at b n big))
           (fits_enc n enc (\<lambda>v. wt d v (TBasic c)))"
proof -
  have eq: "read_depth (c # s) d (reader_at b n big)
      = and_then (alignment [c]) (\<lambda>a. and_then (align a (reader_at b n big)) (read_basic c))"
    using d c by (subst read_depth_basic) auto
  note binds = okres_bind [OF okres_words(1)] okres_bind [OF okres_words(2)]
    okres_bind [OF okres_words(3)] okres_bind [OF okres_take] okres_bind [OF okres_string]
    okres_bind [OF okres_byte_len]
  show ?thesis
    unfolding eq read_basic_def alignment_def list.case and_then_Inr fits_enc_def
    by (intro okres_align okres_if binds) (use d in \<open>simp_all add: length_enc pad_to_idem\<close>)
qed

section \<open>Sequences\<close>

text \<open>\<open>sound_rd b big rd f P\<close>: the read returns values that satisfy \<open>P\<close> and took the bytes
  their encoding \<open>f\<close> takes.\<close>

definition sound_rd ::
  "byte list \<Rightarrow> bool \<Rightarrow> (reader \<Rightarrow> 'x reads) \<Rightarrow> ('x \<Rightarrow> nat \<Rightarrow> byte list) \<Rightarrow> ('x \<Rightarrow> bool) \<Rightarrow> bool" where
  "sound_rd b big rd f P \<longleftrightarrow>
     (\<forall>n \<le> length b. okres b big (rd (reader_at b n big)) (fits_enc n f P))"

lemma sound_rdD:
  "sound_rd b big rd f P \<Longrightarrow> n \<le> length b \<Longrightarrow>
     okres b big (rd (reader_at b n big)) (fits_enc n f P)"
  by (simp add: sound_rd_def)

lemma sound_items:
  assumes rd: "sound_rd b big rd f P" and ne: "\<And>x k. P x \<Longrightarrow> f x k \<noteq> []"
    and "n \<le> length b" and "stop - n \<le> fuel"
  shows "okres b big (read_items rd fuel stop (reader_at b n big))
           (fits_enc n (enc_seq f) (\<lambda>xs. \<forall>x \<in> set xs. P x))"
  using assms(3,4)
proof (induction fuel arbitrary: n)
  case 0
  then show ?case by (subst read_items.simps) (simp add: fits_enc_def)
next
  case (Suc fuel)
  show ?case
  proof (cases "n < stop")
    case False
    with Suc.prems show ?thesis by (subst read_items.simps) (simp add: fits_enc_def)
  next
    case True
    have "okres b big (and_then (rd (reader_at b n big)) (\<lambda>(v, r).
        and_then (read_items rd fuel stop r) (\<lambda>(vs, r). Inr (v # vs, r))))
      (fits_enc n (enc_seq f) (\<lambda>xs. \<forall>x \<in> set xs. P x))"
    proof (rule okres_bind [OF sound_rdD [OF rd Suc.prems(1)]])
      fix x k
      assume k: "k \<le> length b" and x: "fits_enc n f P x k"
      then have "n < k" using ne [of x n] by (simp add: fits_enc_def)
      with Suc.prems have "stop - k \<le> fuel" by simp
      from Suc.IH [OF k this]
      show "okres b big (and_then (read_items rd fuel stop (reader_at b k big))
            (\<lambda>(vs, r). Inr (x # vs, r)))
          (fits_enc n (enc_seq f) (\<lambda>xs. \<forall>x \<in> set xs. P x))"
        by (rule okres_bind) (use x in \<open>auto simp: fits_enc_def\<close>)
    qed
    with True show ?thesis by (subst read_items.simps) simp
  qed
qed

lemma sound_fields:
  assumes "\<And>t. t \<in> set ts \<Longrightarrow> sound_rd b big (rd (h t)) f (P t)" and "n \<le> length b"
  shows "okres b big (read_fields rd (map h ts) (reader_at b n big))
           (fits_enc n (enc_seq f) (\<lambda>vs. list_all2 (\<lambda>v t. P t v) vs ts))"
  using assms
proof (induction ts arbitrary: n)
  case Nil
  then show ?case by (simp add: fits_enc_def)
next
  case (Cons t ts)
  have "okres b big (rd (h t) (reader_at b n big)) (fits_enc n f (P t))"
    using Cons.prems by (intro sound_rdD) auto
  moreover have "okres b big (and_then (read_fields rd (map h ts) (reader_at b k big))
        (\<lambda>(vs, r). Inr (x # vs, r)))
      (fits_enc n (enc_seq f) (\<lambda>vs. list_all2 (\<lambda>v t. P t v) vs (t # ts)))"
    if "k \<le> length b" "fits_enc n f (P t) x k" for x k
    using that by (intro okres_bind [OF Cons.IH]) (auto simp: fits_enc_def Cons.prems)
  ultimately show ?case by (simp add: okres_bind)
qed

lemma sound_entry:
  assumes "sound_rd b big rk enc P" and "sound_rd b big rv enc Q"
  shows "sound_rd b big (read_entry rk rv) enc_entry (\<lambda>(k, v). P k \<and> Q v)"
  unfolding sound_rd_def read_entry_def
proof (intro allI impI okres_align, goal_cases)
  case (1 n)
  show ?case
  proof (rule okres_bind [OF sound_rdD [OF assms(1) 1(2)]], goal_cases)
    case (1 x k)
    note x = 1
    show ?case
      by (rule okres_bind [OF sound_rdD [OF assms(2) x(1)]])
         (use x in \<open>auto simp: fits_enc_def enc_entry_def Let_def add.assoc\<close>)
  qed
qed

lemma sound_elements:
  assumes rd: "sound_rd b big rd f P" and ne: "\<And>x k. P x \<Longrightarrow> f x k \<noteq> []"
    and a: "alignment elem = Inr a" and n: "n \<le> length b"
    and wt: "\<And>xs. \<forall>x \<in> set xs. P x \<Longrightarrow> wt d (g xs) t"
    and g: "\<And>xs. enc (g xs) n = enc_array a f xs n"
  shows "okres b big
      (read_elements elem (\<lambda>len r. and_then (read_array rd len r) (\<lambda>(vs, r). Inr (g vs, r)))
        (reader_at b n big))
      (fits_enc n enc (\<lambda>v. wt d v t))"
proof -
  let ?n1 = "n + pad_to 4 n"
  let ?n2 = "?n1 + 4 + pad_to a (?n1 + 4)"
  have arr: "okres b big (and_then (read_array rd len (reader_at b ?n2 big)) (\<lambda>(vs, r). Inr (g vs, r)))
      (fits_enc n enc (\<lambda>v. wt d v t))" if len: "?n2 + len \<le> length b" for len
  proof -
    have "okres b big (read_items rd len (?n2 + len) (reader_at b ?n2 big))
        (fits_enc ?n2 (enc_seq f) (\<lambda>xs. \<forall>x \<in> set xs. P x))"
      by (rule sound_items [OF rd ne]) (use len in auto)
    then have "okres b big (read_array rd len (reader_at b ?n2 big))
        (fits_enc ?n2 (enc_seq f) (\<lambda>xs. \<forall>x \<in> set xs. P x))"
      unfolding read_array_def Let_def reader_at_simps by (rule okres_bind) auto
    then show ?thesis
      by (rule okres_bind)
         (use wt in \<open>auto simp: fits_enc_def g enc_array_def Let_def length_enc add.assoc\<close>)
  qed
  show ?thesis
    unfolding read_elements_def a and_then_Inr
    by (intro okres_align okres_bind [OF okres_words(2)])
       (auto simp: pad_to_idem intro!: okres_align arr)
qed

section \<open>Every type\<close>

theorem sound_read:
  "ty_ok 0 t \<Longrightarrow> sound_rd b big (read_depth (show_ty t) d) enc (\<lambda>v. wt d v t)"
proof (induction "Suc MAX_DEPTH - d" arbitrary: d t)
  case 0
  then show ?case
    by (auto simp: sound_rd_def read_depth.simps [of _ d])
next
  case (Suc k)
  then have d: "d \<le> MAX_DEPTH" and k: "k = Suc MAX_DEPTH - Suc d" by auto
  note IH = Suc.hyps(1) [OF k]
  show ?case
    unfolding sound_rd_def
  proof (intro allI impI)
    fix n
    assume n: "n \<le> length b"
    consider (variant) "t = TBasic (CHR ''v'')" | (basic) c where "t = TBasic c" "c \<in> basic_types" "c \<noteq> CHR ''v''"
      | (struct) ts where "t = TStruct ts" | (entry) tk tv where "t = TEntry tk tv"
      | (dict) tk tv where "t = TArray (TEntry tk tv)"
      | (arr) te where "t = TArray te" "\<forall>a b. te \<noteq> TEntry a b"
      using Suc.prems by (cases t) auto
    then show "okres b big (read_depth (show_ty t) d (reader_at b n big))
        (fits_enc n enc (\<lambda>v. wt d v t))"
    proof cases
      case variant
      have inner: "okres b big
          (and_then (split_signature s) (\<lambda>ts.
             if length ts \<noteq> 1 then Inl Variant_not_single
             else and_then (read_depth s (Suc d) (reader_at b m big)) (\<lambda>(v, r). Inr (Variant v, r))))
          (fits_enc n enc (\<lambda>v. wt d v t))"
        if s: "length s < 256" "m = n + length s + 2" "m \<le> length b" for s m
      proof (cases "split_signature s")
        case (Inl e)
        then show ?thesis using split_signature_harmless by simp
      next
        case (Inr ss)
        show ?thesis
        proof (cases "length ss = 1")
          case True
          from split_signature_sound [OF Inr] True obtain tv where tv: "ty_ok 0 tv" "s = show_ty tv"
            by (auto simp: length_Suc_conv)
          have "okres b big (and_then (read_depth s (Suc d) (reader_at b m big))
                (\<lambda>(v, r). Inr (Variant v, r))) (fits_enc n enc (\<lambda>v. wt d v t))"
            unfolding tv(2)
            by (rule okres_bind [OF sound_rdD [OF IH [OF tv(1)] s(3)]])
               (use s tv d wt_signature in
                 \<open>auto simp: fits_enc_def variant length_enc add.assoc\<close>)
          with Inr True show ?thesis by simp
        qed (simp add: Inr)
      qed
      show ?thesis
        unfolding variant show_ty.simps read_depth_variant [OF d]
        by (intro okres_align okres_bind [OF okres_byte_len] okres_bind [OF okres_string])
           (use inner in \<open>auto simp: variant\<close>)
    next
      case basic
      then have "c \<notin> set ''v(a''" by auto
      with okres_basic [OF d n, of c big "[]"] basic show ?thesis by simp
    next
      case struct
      with Suc.prems have ok: "\<forall>t \<in> set ts. ty_ok 0 t" using ty_ok_mono [of "Suc 0" _ 0] by auto
      have fields: "okres b big (and_then
            (read_fields (\<lambda>t r. read_depth t (Suc d) r) (map show_ty ts) (reader_at b m big))
            (\<lambda>(fs, r). Inr (Struct fs, r)))
          (fits_enc n enc (\<lambda>v. wt d v t))"
        if m: "m = n + pad_to 8 n" "m \<le> length b" for m
      proof -
        have "sound_rd b big (read_depth (show_ty t) (Suc d)) enc (\<lambda>v. wt (Suc d) v t)"
          if "t \<in> set ts" for t
          using that IH ok by blast
        from sound_fields [where rd = "\<lambda>t r. read_depth t (Suc d) r", OF this m(2)] show ?thesis
          by (rule okres_bind)
             (use m ok d in \<open>auto simp: fits_enc_def struct wt_Struct add.assoc\<close>)
      qed
      show ?thesis
        unfolding struct read_depth_struct [OF d ok]
        by (rule okres_align) (use fields in \<open>simp add: struct\<close>)
    next
      case entry
      have "read_depth (show_ty t) d r = and_then (align 8 r) (\<lambda>r. Inl (Cannot_read (CHR ''{'')))" for r
        by (simp add: entry read_depth_basic [OF d] read_basic_def)
      then show ?thesis by (simp add: okres_align)
    next
      case dict
      then have ok: "ty_ok 0 tk" "ty_ok 0 tv"
        using Suc.prems ty_ok_mono [of "Suc (Suc 0)" _ 0] by auto
      have ne: "enc_entry e k \<noteq> []" if "case e of (x, y) \<Rightarrow> wt (Suc d) x tk \<and> wt (Suc d) y tv" for e k
        using that enc_nonempty [OF _ ok(1)] by (auto simp: enc_entry_def Let_def split: prod.splits)
      show ?thesis
      proof (cases "ty_ok d tk")
        case True
        show ?thesis
          unfolding dict read_depth_dict [OF d True]
          by (rule sound_elements [OF sound_entry [OF IH [OF ok(1)] IH [OF ok(2)]] ne _ n])
             (use d True in \<open>auto simp: wt_Dict enc_Dict simp del: enc.simps\<close>)
      next
        case False
        then obtain e where e: "complete_type_len (show_ty tk @ show_ty tv) d = Inl e"
          using complete_type_len_fits [OF ok(1)]
          by (cases "complete_type_len (show_ty tk @ show_ty tv) d") auto
        then have "harmless e" by (rule complete_type_len_harmless)
        then show ?thesis
          unfolding dict using d e
          by (subst read_depth.simps)
             (auto simp: butlast_append Let_def intro!: okres_align okres_bind [OF okres_words(2)] cong: if_cong)
      qed
    next
      case arr
      then have ok: "ty_ok 0 te" using Suc.prems ty_ok_mono [of "Suc 0" te 0] by simp
      obtain a where a: "alignment (show_ty te) = Inr a" using alignment_show_ty by blast
      show ?thesis
        unfolding arr(1) read_depth_array [OF d arr(2) ok]
        by (rule sound_elements [OF IH [OF ok] enc_nonempty a n])
           (use d arr ok a in \<open>auto simp: wt_Array align_or_1_def\<close>)
    qed
  qed
qed

section \<open>Message bodies\<close>

lemma encode_body_wt:
  assumes "list_all2 (wt 0) vs ts"
  shows "encode_body vs = Some (show_tys ts, enc_seq enc vs 0)"
proof -
  from assms have sig: "map signature vs = map show_ty ts"
    by (induction vs ts rule: list_all2_induct) (auto simp: wt_signature)
  have "\<exists>t. wt 0 v t" if "v \<in> set vs" for v
    using assms that by (metis list_all2_conv_all_nth in_set_conv_nth)
  then have "fold_opt w_value vs [] = Some ([] @ enc_seq enc vs (length ([] :: byte list)))"
    by (intro fold_opt_enc_seq) (use w_value_eq in blast)
  then show ?thesis by (simp add: encode_body_def sig)
qed

lemma decode_body_enc:
  assumes wt: "list_all2 (wt 0) vs ts" and ok: "\<forall>t \<in> set ts. ty_ok 0 t"
    and len: "length (enc_seq enc vs 0) < 2 ^ 32"
  shows "decode_body (show_tys ts) (enc_seq enc vs 0) False = Inr vs"
proof -
  let ?b = "enc_seq enc vs 0"
  have each: "list_all2 (\<lambda>v t. reads_back (read_value t) enc v ?b) vs (map show_ty ts)"
    using wt ok read_enc
    by (auto simp: list_all2_conv_all_nth read_value_def [abs_def])
  have "occurs_at ?b 0 ?b" using occurs_at_self [of "[]" ?b "[]"] by simp
  from read_fields_back [OF each this len] show ?thesis
    using split_signature_complete [OF ok]
    by (simp add: decode_body_def reader_new_def)
qed

lemma decode_body_res:
  "case decode_body sig body big of
     Inl e \<Rightarrow> harmless e
   | Inr vs \<Rightarrow> \<exists>ts. (\<forall>t \<in> set ts. ty_ok 0 t) \<and> sig = show_tys ts \<and> list_all2 (wt 0) vs ts
        \<and> length body = length (enc_seq enc vs 0)"
proof (cases "split_signature sig")
  case (Inl e)
  then show ?thesis using split_signature_harmless by (simp add: decode_body_def)
next
  case (Inr ss)
  from split_signature_sound [OF Inr] obtain ts where
    ts: "\<forall>t \<in> set ts. ty_ok 0 t" "sig = show_tys ts" "ss = map show_ty ts" by blast
  have "sound_rd body big (read_value (show_ty t)) enc (\<lambda>v. wt 0 v t)" if "t \<in> set ts" for t
    using sound_read [of t body big 0] ts(1) that by (simp add: read_value_def [abs_def])
  from sound_fields [where rd = read_value and h = show_ty, OF this, of ts 0]
  have "okres body big (read_fields read_value ss (reader_new body big))
      (fits_enc 0 (enc_seq enc) (\<lambda>vs. list_all2 (wt 0) vs ts))"
    by (simp add: ts(3) reader_new_def)
  then show ?thesis
    using Inr ts(1,2)
    by (cases "read_fields read_value ss (reader_new body big)")
       (auto simp: decode_body_def okres_def fits_enc_def intro!: exI [of _ ts])
qed

lemma decode_body_typed:
  assumes "decode_body sig body big = Inr vs"
  obtains ts where "\<forall>t \<in> set ts. ty_ok 0 t" and "sig = show_tys ts" and "list_all2 (wt 0) vs ts"
    and "length body = length (enc_seq enc vs 0)"
  using decode_body_res [of sig body big] assms by auto

text \<open>
  C19. Encoding and decoding: a list of well-typed values whose encoding is under 4 GiB (the
  range of the length words) is encoded without a panic, and decoding that body with that
  signature gives the values back.
\<close>

theorem decode_encode_body:
  assumes "list_all2 (wt 0) vs ts" and "\<forall>t \<in> set ts. ty_ok 0 t"
    and "length (enc_seq enc vs 0) < 2 ^ 32"
  shows "\<exists>sig body. encode_body vs = Some (sig, body) \<and> decode_body sig body False = Inr vs"
  using encode_body_wt [OF assms(1)] decode_body_enc [OF assms] by simp

text \<open>A struct of a byte and an array of strings, and a dictionary with a variant.\<close>

lemma decode_encode_body_witness:
  "\<exists>sig body. encode_body
      [Struct [Byte 7, Array ''s'' [Str ''hi'']], Dict ''s'' ''v'' [(Str ''k'', Variant (Bool True))]]
      = Some (sig, body)
    \<and> decode_body sig body False
      = Inr [Struct [Byte 7, Array ''s'' [Str ''hi'']], Dict ''s'' ''v'' [(Str ''k'', Variant (Bool True))]]"
proof (rule decode_encode_body)
  let ?ts = "[TStruct [TBasic (CHR ''y''), TArray (TBasic (CHR ''s''))],
      TArray (TEntry (TBasic (CHR ''s'')) (TBasic (CHR ''v'')))]"
  show "list_all2 (wt 0) [Struct [Byte 7, Array ''s'' [Str ''hi'']],
      Dict ''s'' ''v'' [(Str ''k'', Variant (Bool True))]] ?ts"
    by (auto simp: wt_Struct wt_Array wt_Dict MAX_DEPTH_def basic_types_def unat_byte_of)
  show "\<forall>t \<in> set ?ts. ty_ok 0 t"
    by (simp add: MAX_DEPTH_def basic_types_def)
  show "length (enc_seq enc [Struct [Byte 7, Array ''s'' [Str ''hi'']],
      Dict ''s'' ''v'' [(Str ''k'', Variant (Bool True))]] 0) < 2 ^ 32"
    by (simp only: length_enc_simps) (simp add: pad_to_def align_or_1_def alignment_def)
qed

text \<open>
  Decoding is total: on any signature and any bytes, in either byte order, it neither
  indexes out of range nor loops without end (the fuel of its loops never runs out).
\<close>

theorem decode_body_total:
  "decode_body sig body big \<noteq> Inl Panicked \<and> decode_body sig body big \<noteq> Inl Out_of_fuel"
  using decode_body_res [of sig body big] by (auto simp: harmless_def)

lemma reencode_wt:
  assumes "decode_body sig body big = Inr vs" and "length body < 2 ^ 32"
  shows "\<exists>body'. encode_body vs = Some (sig, body') \<and> length body' = length body
           \<and> decode_body sig body' False = Inr vs"
proof -
  from assms(1) obtain ts where ts: "\<forall>t \<in> set ts. ty_ok 0 t" "sig = show_tys ts"
    "list_all2 (wt 0) vs ts" "length body = length (enc_seq enc vs 0)"
    by (rule decode_body_typed)
  with assms(2) show ?thesis
    using encode_body_wt [OF ts(3)] decode_body_enc [OF ts(3,1)] by simp
qed

text \<open>
  What was decoded, in either byte order, can be encoded again: same signature, same
  length, and (for a body under 4 GiB) a little-endian body that decodes to the same values.
\<close>

theorem reencode_decoded:
  assumes "decode_body sig body big = Inr vs" and "length body < 2 ^ 32"
  shows "\<exists>body'. encode_body vs = Some (sig, body') \<and> length body' = length body
           \<and> decode_body sig body' False = Inr vs"
  using assms by (rule reencode_wt)

lemma reencode_decoded_witness:
  "\<exists>body'. encode_body [U16 0x1234] = Some (''q'', body') \<and> length body' = length [0x12 :: byte, 0x34]
     \<and> decode_body ''q'' body' False = Inr [U16 0x1234]"
  by (rule reencode_decoded [where big = True]) (code_simp, simp)

end
