(* ===== verification/Dbus_Dict.thy ===== *)
theory Dbus_Dict
  imports Dbus_Sound
begin

text \<open>
  The dictionary operations of \<open>src/src/dbus/value.rs\<close> as a keyed store (on dictionaries; on
  any other value they do nothing), and that they, and \<^const>\<open>map_paths\<close>, keep values well
  typed and their signatures unchanged, so a rewritten message still encodes.
\<close>

fun is_dict :: "dvalue \<Rightarrow> bool" where
  "is_dict (Dict _ _ _) = True"
| "is_dict _ = False"

lemma is_dict_iff: "is_dict d \<longleftrightarrow> (\<exists>k v es. d = Dict k v es)"
  by (cases d) auto

lemma find_entries_set:
  "find (\<lambda>(k, _). as_str k = Some key') (entries_set es key v) =
     (if key' = key then
        (case find (\<lambda>(k, _). as_str k = Some key) es of
           None \<Rightarrow> Some (Str key, v) | Some (k, _) \<Rightarrow> Some (k, v))
      else find (\<lambda>(k, _). as_str k = Some key') es)"
  by (induction es key v rule: entries_set.induct) auto

lemma find_entries_remove:
  "find (\<lambda>(k, _). as_str k = Some key') (filter (\<lambda>(k, _). as_str k \<noteq> Some key) es) =
     (if key' = key then None else find (\<lambda>(k, _). as_str k = Some key') es)"
  by (induction es) auto

lemma dict_get_set:
  "is_dict d \<Longrightarrow> dict_get (dict_set d key v) key' = (if key' = key then Some v else dict_get d key')"
  by (auto simp: is_dict_iff find_entries_set split: option.splits)

lemma dict_get_remove:
  "is_dict d \<Longrightarrow> dict_get (dict_remove d key) key' = (if key' = key then None else dict_get d key')"
  by (auto simp: is_dict_iff find_entries_remove)

lemma is_dict_set [simp]: "is_dict (dict_set d key v) = is_dict d"
  by (cases d) auto

lemma is_dict_remove [simp]: "is_dict (dict_remove d key) = is_dict d"
  by (cases d) auto

interpretation dict: keyed_store is_dict dict_get dict_set dict_remove
  by unfold_locales (auto simp: dict_get_set dict_get_remove)

section \<open>Typing is kept\<close>

lemma dict_remove_wt: "wt d v t \<Longrightarrow> wt d (dict_remove v key) t"
  by (cases v) (auto simp: wt_Dict)

lemma entries_set_wt:
  assumes "\<forall>(a, b) \<in> set es. P a \<and> Q b" and "P (Str key)" and "Q v"
  shows "\<forall>(a, b) \<in> set (entries_set es key v). P a \<and> Q b"
  using assms by (induction es key v rule: entries_set.induct) auto

lemma dict_set_wt:
  assumes "wt d (Dict k v es) t" and "k = ''s''" and "v = ''v''"
    and "utf8_valid (bytes_of key)" and "wt (Suc d) (Variant new) (TBasic (CHR ''v''))"
  shows "wt d (dict_set (Dict k v es) key new) t"
proof -
  from assms(1) obtain tk tv where d: "d \<le> MAX_DEPTH" and t: "t = TArray (TEntry tk tv)"
    and k: "k = show_ty tk" "v = show_ty tv" and ok: "ty_ok d tk"
    and all: "\<forall>(a, b) \<in> set es. wt (Suc d) a tk \<and> wt (Suc d) b tv" by (auto simp: wt_Dict)
  from k assms(2,3) have "show_ty tk = ''s''" and "show_ty tv = ''v''" by simp_all
  then have tk: "tk = TBasic (CHR ''s'')" and tv: "tv = TBasic (CHR ''v'')"
    by (cases tk, simp_all) (cases tv, simp_all)
  have "Suc d \<le> MAX_DEPTH" using assms(5) by (rule wt_depth)
  with assms(4) have "wt (Suc d) (Str key) tk" by (simp add: tk)
  moreover have "wt (Suc d) (Variant new) tv" using assms(5) by (simp add: tv)
  ultimately have "\<forall>(a, b) \<in> set (entries_set es key (Variant new)). wt (Suc d) a tk \<and> wt (Suc d) b tv"
    using all by (intro entries_set_wt)
  with d t k ok show ?thesis by (auto simp: wt_Dict)
qed

lemma map_paths_wt:
  assumes "\<And>p q. f p = Some q \<Longrightarrow> utf8_valid (bytes_of p) \<Longrightarrow> utf8_valid (bytes_of q)"
  shows "wt d v t \<Longrightarrow> wt d (map_paths f v) t \<and> signature (map_paths f v) = signature v"
proof (induction v arbitrary: d t)
  case (Path p)
  then show ?case using assms by (cases "f p") auto
next
  case (Array e items)
  then show ?case by (auto simp: wt_Array)
next
  case (Dict k v es)
  then obtain tk tv where w: "d \<le> MAX_DEPTH" "t = TArray (TEntry tk tv)" "k = show_ty tk"
    "v = show_ty tv" "ty_ok d tk" "\<forall>(a, b) \<in> set es. wt (Suc d) a tk \<and> wt (Suc d) b tv"
    by (auto simp: wt_Dict)
  have "wt (Suc d) (map_paths f a) tk \<and> wt (Suc d) (map_paths f b) tv" if "(a, b) \<in> set es" for a b
    using Dict.IH(1) [OF that, of a] Dict.IH(2) [OF that, of b] w(6) that by auto
  with w show ?case by (auto simp: wt_Dict)
next
  case (Struct vs)
  then obtain ts where w: "d \<le> MAX_DEPTH" "t = TStruct ts" "list_all2 (wt (Suc d)) vs ts"
    by (auto simp: wt_Struct)
  from w(3) Struct.IH have "list_all2 (wt (Suc d)) (map (map_paths f) vs) ts
      \<and> map signature (map (map_paths f) vs) = map signature vs"
    by (induction vs ts rule: list_all2_induct) auto
  then have "list_all2 (wt (Suc d)) (map (map_paths f) vs) ts"
      and "map signature (map (map_paths f) vs) = map signature vs" by blast+
  with w(1,2) show ?case by (simp add: wt_Struct del: map_map)
qed auto

end
