(* ===== verification/Dbus_Message.thy ===== *)
theory Dbus_Message
  imports Dbus_Dict
begin

text \<open>
  \<open>src/src/dbus/message.rs\<close>: the fixed prefix and the header fields of a message, the length
  of a frame, and parsing and encoding. Lengths are computed in \<open>usize\<close>: two 32-bit counts
  cannot overflow 64 bits, so they are natural numbers here.
\<close>

section \<open>Messages\<close>

record message =
  msg_kind :: u8
  msg_flags :: u8
  msg_serial :: u32
  msg_path :: "string option"
  msg_interface :: "string option"
  msg_member :: "string option"
  msg_error_name :: "string option"
  msg_reply_serial :: "u32 option"
  msg_destination :: "string option"
  msg_sender :: "string option"
  msg_signature :: string
  msg_unix_fds :: u32
  msg_body :: "byte list"

definition message_default :: message where
  "message_default =
     \<lparr>msg_kind = 0, msg_flags = 0, msg_serial = 0, msg_path = None, msg_interface = None,
      msg_member = None, msg_error_name = None, msg_reply_serial = None, msg_destination = None,
      msg_sender = None, msg_signature = '''', msg_unix_fds = 0, msg_body = []\<rparr>"

definition METHOD_CALL :: u8 where "METHOD_CALL = 1"
definition METHOD_RETURN :: u8 where "METHOD_RETURN = 2"
definition ERROR :: u8 where "ERROR = 3"
definition SIGNAL :: u8 where "SIGNAL = 4"
definition FLAG_NO_REPLY_EXPECTED :: u8 where "FLAG_NO_REPLY_EXPECTED = 1"

lemmas kind_defs = METHOD_CALL_def METHOD_RETURN_def ERROR_def SIGNAL_def

definition FIELD_PATH :: u8 where "FIELD_PATH = 1"
definition FIELD_INTERFACE :: u8 where "FIELD_INTERFACE = 2"
definition FIELD_MEMBER :: u8 where "FIELD_MEMBER = 3"
definition FIELD_ERROR_NAME :: u8 where "FIELD_ERROR_NAME = 4"
definition FIELD_REPLY_SERIAL :: u8 where "FIELD_REPLY_SERIAL = 5"
definition FIELD_DESTINATION :: u8 where "FIELD_DESTINATION = 6"
definition FIELD_SENDER :: u8 where "FIELD_SENDER = 7"
definition FIELD_SIGNATURE :: u8 where "FIELD_SIGNATURE = 8"
definition FIELD_UNIX_FDS :: u8 where "FIELD_UNIX_FDS = 9"

lemmas field_defs = FIELD_PATH_def FIELD_INTERFACE_def FIELD_MEMBER_def FIELD_ERROR_NAME_def
  FIELD_REPLY_SERIAL_def FIELD_DESTINATION_def FIELD_SENDER_def FIELD_SIGNATURE_def
  FIELD_UNIX_FDS_def

definition MAX_MESSAGE :: nat where
  "MAX_MESSAGE = 128 * 1024 * 1024"

section \<open>The prefix\<close>

definition pad8 :: "nat \<Rightarrow> nat" where
  "pad8 n = (n + 7) div 8 * 8"

definition big_endian :: "byte \<Rightarrow> decode_error + bool" where
  "big_endian first =
     (if first = byte_of (CHR ''l'') then Inr False
      else if first = byte_of (CHR ''B'') then Inr True
      else Inl Unknown_byte_order)"

definition prefix_u32 :: "byte list \<Rightarrow> nat \<Rightarrow> bool \<Rightarrow> u32" where
  "prefix_u32 prefix at big = from_order big (take 4 (drop at prefix))"

definition frame_len :: "byte list \<Rightarrow> decode_error + nat" where
  "frame_len prefix =
     and_then (big_endian (hd prefix)) (\<lambda>big.
       let body = unat (prefix_u32 prefix 4 big);
           fields = unat (prefix_u32 prefix 12 big);
           total = pad8 (16 + fields) + body
       in if MAX_MESSAGE < total then Inl Message_too_large else Inr total)"

section \<open>Building messages\<close>

text \<open>\<open>None\<close> is the panic of \<^const>\<open>encode_body\<close> on an ill-formed array value.\<close>

definition set_body :: "dvalue list \<Rightarrow> message \<Rightarrow> message option" where
  "set_body args m =
     do {
       (sig, body) \<leftarrow> encode_body args;
       Some (m\<lparr>msg_signature := sig, msg_body := body\<rparr>)
     }"

definition method_call ::
  "string \<Rightarrow> string \<Rightarrow> string \<Rightarrow> string \<Rightarrow> dvalue list \<Rightarrow> message option" where
  "method_call dest path iface member args =
     set_body args
       (message_default\<lparr>msg_kind := METHOD_CALL, msg_destination := Some dest,
          msg_path := Some path, msg_interface := Some iface, msg_member := Some member\<rparr>)"

definition method_return :: "message \<Rightarrow> message" where
  "method_return to =
     message_default\<lparr>msg_kind := METHOD_RETURN, msg_flags := FLAG_NO_REPLY_EXPECTED,
       msg_reply_serial := Some (msg_serial to), msg_destination := msg_sender to\<rparr>"

definition error_reply :: "message \<Rightarrow> string \<Rightarrow> string \<Rightarrow> message option" where
  "error_reply to name text =
     set_body [Str text]
       (message_default\<lparr>msg_kind := ERROR, msg_flags := FLAG_NO_REPLY_EXPECTED,
          msg_reply_serial := Some (msg_serial to), msg_destination := msg_sender to,
          msg_error_name := Some name\<rparr>)"

definition expects_reply :: "message \<Rightarrow> bool" where
  "expects_reply m \<longleftrightarrow>
     msg_kind m = METHOD_CALL \<and> and (msg_flags m) FLAG_NO_REPLY_EXPECTED = 0"

definition msg_args :: "message \<Rightarrow> decode_error + dvalue list" where
  "msg_args m = decode_body (msg_signature m) (msg_body m) False"

definition msg_is :: "message \<Rightarrow> string \<Rightarrow> string \<Rightarrow> bool" where
  "msg_is m iface member \<longleftrightarrow> msg_interface m = Some iface \<and> msg_member m = Some member"

section \<open>Parsing\<close>

definition set_field :: "u8 \<Rightarrow> dvalue \<Rightarrow> message \<Rightarrow> message" where
  "set_field code v m =
     (case v of
        Path s \<Rightarrow> if code = FIELD_PATH then m\<lparr>msg_path := Some s\<rparr> else m
      | Str s \<Rightarrow>
          if code = FIELD_INTERFACE then m\<lparr>msg_interface := Some s\<rparr>
          else if code = FIELD_MEMBER then m\<lparr>msg_member := Some s\<rparr>
          else if code = FIELD_ERROR_NAME then m\<lparr>msg_error_name := Some s\<rparr>
          else if code = FIELD_DESTINATION then m\<lparr>msg_destination := Some s\<rparr>
          else if code = FIELD_SENDER then m\<lparr>msg_sender := Some s\<rparr>
          else m
      | U32 n \<Rightarrow>
          if code = FIELD_REPLY_SERIAL then m\<lparr>msg_reply_serial := Some n\<rparr>
          else if code = FIELD_UNIX_FDS then m\<lparr>msg_unix_fds := n\<rparr>
          else m
      | Sig s \<Rightarrow> if code = FIELD_SIGNATURE then m\<lparr>msg_signature := s\<rparr> else m
      | _ \<Rightarrow> m)"

text \<open>One header field: the two \<open>pop\<close>s take the variant and the code off the end.\<close>

definition header_field :: "dvalue \<Rightarrow> message \<Rightarrow> message" where
  "header_field f m =
     (case f of
        Struct kv \<Rightarrow>
          (case rev kv of
             Variant v # Byte code # _ \<Rightarrow> set_field code v m
           | _ \<Rightarrow> m)
      | _ \<Rightarrow> m)"

definition parse_header :: "byte list \<Rightarrow> decode_error + message \<times> bool" where
  "parse_header buf =
     (if length buf < 16 then Inl Short_header
      else and_then (frame_len (take 16 buf)) (\<lambda>total.
        if length buf \<noteq> total then Inl Length_mismatch
        else if buf ! 3 \<noteq> 1 then Inl Unsupported_version
        else and_then (big_endian (hd buf)) (\<lambda>big.
          let m = message_default\<lparr>msg_kind := buf ! 1, msg_flags := buf ! 2,
                    msg_serial := prefix_u32 buf 8 big\<rparr>
          in and_then (read_value ''a(yv)'' (reader_at buf 12 big)) (\<lambda>(v, r).
            case v of
              Array _ fs \<Rightarrow>
                let m = fold header_field fs m;
                    fields_end = 16 + unat (prefix_u32 buf 12 big)
                in if rpos r \<noteq> fields_end then Inl Fields_length_mismatch
                   else if length buf < pad8 fields_end then Inl Panicked
                   else Inr (m\<lparr>msg_body := drop (pad8 fields_end) buf\<rparr>, big)
            | _ \<Rightarrow> Inl Panicked))))"

definition parse :: "byte list \<Rightarrow> decode_error + message" where
  "parse buf =
     and_then (parse_header buf) (\<lambda>(m, big).
       and_then (decode_body (msg_signature m) (msg_body m) big) (\<lambda>args.
         if big then
           (case encode_body args of
              None \<Rightarrow> Inl Panicked
            | Some (_, body) \<Rightarrow> Inr (m\<lparr>msg_body := body\<rparr>))
         else Inr m))"

section \<open>Encoding\<close>

definition opt_field :: "u8 \<Rightarrow> ('a \<Rightarrow> dvalue) \<Rightarrow> 'a option \<Rightarrow> dvalue list" where
  "opt_field code f x =
     (case x of None \<Rightarrow> [] | Some v \<Rightarrow> [Struct [Byte code, Variant (f v)]])"

definition header_fields :: "message \<Rightarrow> dvalue list" where
  "header_fields m =
     opt_field FIELD_PATH Path (msg_path m)
     @ opt_field FIELD_INTERFACE Str (msg_interface m)
     @ opt_field FIELD_MEMBER Str (msg_member m)
     @ opt_field FIELD_ERROR_NAME Str (msg_error_name m)
     @ opt_field FIELD_REPLY_SERIAL U32 (msg_reply_serial m)
     @ opt_field FIELD_DESTINATION Str (msg_destination m)
     @ opt_field FIELD_SIGNATURE Sig (if msg_signature m \<noteq> '''' then Some (msg_signature m) else None)
     @ opt_field FIELD_UNIX_FDS U32 (if 0 < msg_unix_fds m then Some (msg_unix_fds m) else None)"

definition encode :: "message \<Rightarrow> u32 \<Rightarrow> byte list option" where
  "encode m serial =
     (let w = [byte_of (CHR ''l''), msg_kind m, msg_flags m, 1];
          w = w_u32 (of_nat (length (msg_body m))) w;
          w = w_u32 serial w
      in do {
        w \<leftarrow> w_value (Array ''(yv)'' (header_fields m)) w;
        Some (w_align 8 w @ msg_body m)
      })"

section \<open>The shape of an encoded message\<close>

lemma pad8_eq: "pad8 n = n + pad_to 8 n"
proof -
  define q r where "q = n div 8" and "r = n mod 8"
  then have n: "n = r + 8 * q" by simp
  have "r < 8" by (simp add: r_def)
  then have "r = 0 \<or> r = 1 \<or> r = 2 \<or> r = 3 \<or> r = 4 \<or> r = 5 \<or> r = 6 \<or> r = 7" by linarith
  moreover have "pad8 n = (r + 7) div 8 * 8 + 8 * q"
    by (simp add: pad8_def n add.commute [of _ 7] flip: add.assoc)
  moreover have "pad_to 8 n = (8 - r) mod 8" using \<open>r < 8\<close> by (simp add: pad_to_def n)
  ultimately show ?thesis by (elim disjE) (simp_all add: n)
qed

lemma pad8_mono: "m \<le> n \<Longrightarrow> pad8 m \<le> pad8 n"
  unfolding pad8_def by (intro mult_le_mono1 div_le_mono) simp

lemma pad8_ge: "n \<le> pad8 n"
  by (simp add: pad8_eq)

abbreviation field_ty :: ty where
  "field_ty \<equiv> TStruct [TBasic (CHR ''y''), TBasic (CHR ''v'')]"

text \<open>
  A message that can be written and read back: its strings are UTF-8, its signature fits the
  length byte of a signature, and it is no larger than a message may be.
\<close>

definition utf8_str :: "string \<Rightarrow> bool" where
  "utf8_str s \<longleftrightarrow> utf8_valid (bytes_of s)"

definition fields_bytes :: "message \<Rightarrow> byte list" where
  "fields_bytes m = enc_seq enc (header_fields m) 16"

definition msg_ok :: "message \<Rightarrow> bool" where
  "msg_ok m \<longleftrightarrow>
     pred_option utf8_str (msg_path m) \<and> pred_option utf8_str (msg_interface m)
     \<and> pred_option utf8_str (msg_member m) \<and> pred_option utf8_str (msg_error_name m)
     \<and> pred_option utf8_str (msg_destination m)
     \<and> utf8_str (msg_signature m) \<and> length (msg_signature m) < 256
     \<and> pad8 (16 + length (fields_bytes m)) + length (msg_body m) \<le> MAX_MESSAGE"

lemma wt_opt_field:
  assumes "pred_option (\<lambda>v. wt 3 (f v) (TBasic c)) x" and c: "c \<in> basic_types"
  shows "\<forall>e \<in> set (opt_field code f x). wt (Suc 0) e field_ty"
proof (cases x)
  case (Some v)
  with assms have "wt 3 (f v) (TBasic c)" by simp
  moreover from this have "signature (f v) = [c]" by (simp add: wt_signature)
  ultimately show ?thesis using Some c
    by (auto simp: opt_field_def wt_Struct MAX_DEPTH_def numeral_3_eq_3 intro: exI [of _ "TBasic c"])
qed (simp add: opt_field_def)

lemma wt_opt_fields:
  "pred_option utf8_str x \<Longrightarrow> \<forall>e \<in> set (opt_field code Path x). wt (Suc 0) e field_ty"
  "pred_option utf8_str x \<Longrightarrow> \<forall>e \<in> set (opt_field code Str x). wt (Suc 0) e field_ty"
  "pred_option (\<lambda>s. utf8_str s \<and> length s < 256) x \<Longrightarrow>
     \<forall>e \<in> set (opt_field code Sig x). wt (Suc 0) e field_ty"
  "\<forall>e \<in> set (opt_field code U32 n). wt (Suc 0) e field_ty"
  using wt_opt_field [of Path "CHR ''o''" x code] wt_opt_field [of Str "CHR ''s''" x code]
    wt_opt_field [of Sig "CHR ''g''" x code] wt_opt_field [of U32 "CHR ''u''" n code]
  by (simp_all add: utf8_str_def [abs_def] MAX_DEPTH_def basic_types_def option.pred_True)

lemma wt_header_fields:
  assumes "msg_ok m"
  shows "wt 0 (Array ''(yv)'' (header_fields m)) (TArray field_ty)"
proof -
  have "\<forall>e \<in> set (header_fields m). wt (Suc 0) e field_ty"
    unfolding header_fields_def set_append ball_Un
    using assms by (intro conjI wt_opt_fields) (simp_all add: msg_ok_def)
  then show ?thesis by (simp add: wt_Array MAX_DEPTH_def)
qed

lemma enc_word_aligned: "n mod (LENGTH('w) div 8) = 0 \<Longrightarrow> enc_word (w :: 'w::len word) n = to_le w"
  by (simp add: enc_word_def zeros_def)

definition msg_prefix :: "message \<Rightarrow> u32 \<Rightarrow> byte list" where
  "msg_prefix m serial =
     [byte_of (CHR ''l''), msg_kind m, msg_flags m, 1]
       @ to_le (of_nat (length (msg_body m)) :: u32) @ to_le serial"

lemma length_msg_prefix [simp]: "length (msg_prefix m serial) = 12"
  by (simp add: msg_prefix_def)

lemma enc_fields:
  "enc (Array ''(yv)'' (header_fields m)) 12
     = to_le (of_nat (length (fields_bytes m)) :: u32) @ fields_bytes m"
  by (simp add: enc_array_def enc_word_aligned align_or_1_def fields_bytes_def Let_def zeros_def)

lemma encode_eq:
  assumes "msg_ok m"
  shows "encode m serial
    = Some (msg_prefix m serial @ to_le (of_nat (length (fields_bytes m)) :: u32) @ fields_bytes m
        @ zeros (pad_to 8 (16 + length (fields_bytes m))) @ msg_body m)"
proof -
  have p: "w_u32 serial (w_u32 (of_nat (length (msg_body m)))
      [byte_of (CHR ''l''), msg_kind m, msg_flags m, 1]) = msg_prefix m serial"
    by (simp add: msg_prefix_def w_u32_eq enc_word_aligned)
  show ?thesis
    by (simp add: encode_def p w_value_eq [OF wt_header_fields [OF assms]] enc_fields w_align_eq
        del: w_value.simps enc.simps)
qed

section \<open>The header fields are read back\<close>

lemma fold_opt_field:
  "fold header_field (opt_field code f x) m = (case x of None \<Rightarrow> m | Some v \<Rightarrow> set_field code (f v) m)"
  by (simp add: opt_field_def header_field_def split: option.split)

lemma set_field_simps [simp]:
  "set_field FIELD_PATH (Path s) m = m\<lparr>msg_path := Some s\<rparr>"
  "set_field FIELD_INTERFACE (Str s) m = m\<lparr>msg_interface := Some s\<rparr>"
  "set_field FIELD_MEMBER (Str s) m = m\<lparr>msg_member := Some s\<rparr>"
  "set_field FIELD_ERROR_NAME (Str s) m = m\<lparr>msg_error_name := Some s\<rparr>"
  "set_field FIELD_REPLY_SERIAL (U32 n) m = m\<lparr>msg_reply_serial := Some n\<rparr>"
  "set_field FIELD_DESTINATION (Str s) m = m\<lparr>msg_destination := Some s\<rparr>"
  "set_field FIELD_SENDER (Str s) m = m\<lparr>msg_sender := Some s\<rparr>"
  "set_field FIELD_SIGNATURE (Sig s) m = m\<lparr>msg_signature := s\<rparr>"
  "set_field FIELD_UNIX_FDS (U32 n) m = m\<lparr>msg_unix_fds := n\<rparr>"
  by (simp_all add: set_field_def field_defs)

text \<open>Each field lands in a message where it was still unset.\<close>

lemma set_unset:
  "msg_path m = None \<Longrightarrow>
     fold header_field (opt_field FIELD_PATH Path x) m = m\<lparr>msg_path := x\<rparr>"
  "msg_interface m = None \<Longrightarrow>
     fold header_field (opt_field FIELD_INTERFACE Str x) m = m\<lparr>msg_interface := x\<rparr>"
  "msg_member m = None \<Longrightarrow>
     fold header_field (opt_field FIELD_MEMBER Str x) m = m\<lparr>msg_member := x\<rparr>"
  "msg_error_name m = None \<Longrightarrow>
     fold header_field (opt_field FIELD_ERROR_NAME Str x) m = m\<lparr>msg_error_name := x\<rparr>"
  "msg_reply_serial m = None \<Longrightarrow>
     fold header_field (opt_field FIELD_REPLY_SERIAL U32 n) m = m\<lparr>msg_reply_serial := n\<rparr>"
  "msg_destination m = None \<Longrightarrow>
     fold header_field (opt_field FIELD_DESTINATION Str x) m = m\<lparr>msg_destination := x\<rparr>"
  by (cases m; simp add: fold_opt_field split: option.split)+

lemma set_nonempty:
  "msg_signature m = '''' \<Longrightarrow>
     fold header_field (opt_field FIELD_SIGNATURE Sig (if s \<noteq> '''' then Some s else None)) m
       = m\<lparr>msg_signature := s\<rparr>"
  "msg_unix_fds m = 0 \<Longrightarrow>
     fold header_field (opt_field FIELD_UNIX_FDS U32 (if 0 < w then Some w else None)) m
       = m\<lparr>msg_unix_fds := w\<rparr>"
  by (cases m; simp add: fold_opt_field word_gt_0)+

lemma fold_header_fields:
  "fold header_field (header_fields m)
     (message_default\<lparr>msg_kind := msg_kind m, msg_flags := msg_flags m, msg_serial := s\<rparr>)
   = m\<lparr>msg_serial := s, msg_sender := None, msg_body := []\<rparr>"
  unfolding header_fields_def
  by (rule message.equality) (simp_all add: message_default_def set_unset set_nonempty)

section \<open>Parsing an encoded message\<close>

lemma drop_take_middle:
  "length xs = n \<Longrightarrow> length ys = k \<Longrightarrow> take k (drop n (xs @ ys @ zs)) = ys"
  by simp

lemma parse_header_encode:
  assumes ok: "msg_ok m" and e: "encode m serial = Some buf"
  shows "parse_header buf = Inr (m\<lparr>msg_serial := serial, msg_sender := None\<rparr>, False)"
proof -
  let ?F = "fields_bytes m" and ?n = "length (msg_body m)"
  let ?z = "zeros (pad_to 8 (16 + length ?F))"
  let ?l = "to_le (of_nat (length ?F) :: u32)"
  have size: "pad8 (16 + length ?F) + ?n \<le> MAX_MESSAGE" using ok by (simp add: msg_ok_def)
  have "16 + length ?F \<le> pad8 (16 + length ?F)" by (rule pad8_ge)
  with size have small: "?n < 2 ^ 32" "length ?F < 2 ^ 32 - 4" by (auto simp: MAX_MESSAGE_def)
  from e ok have buf: "buf = msg_prefix m serial @ ?l @ ?F @ ?z @ msg_body m"
    by (simp add: encode_eq)
  have len: "length buf = pad8 (16 + length ?F) + ?n" by (simp add: buf pad8_eq)
  have pre: "prefix_u32 (take 16 buf) 4 False = of_nat ?n"
    "prefix_u32 (take 16 buf) 12 False = of_nat (length ?F)"
    "prefix_u32 buf 12 False = of_nat (length ?F)" "prefix_u32 buf 8 False = serial"
    by (simp_all add: buf msg_prefix_def prefix_u32_def from_order_def)
  have un: "unat (of_nat ?n :: u32) = ?n" "unat (of_nat (length ?F) :: u32) = length ?F"
    using small by (simp_all add: unat_of_nat)
  have order: "big_endian (hd buf) = Inr False" "big_endian (hd (take 16 buf)) = Inr False"
    by (simp_all add: buf msg_prefix_def big_endian_def)
  have fl: "frame_len (take 16 buf) = Inr (length buf)"
    using size by (simp add: frame_len_def order pre un len Let_def)
  let ?v = "Array ''(yv)'' (header_fields m)"
  have wt: "wt 0 ?v (TArray field_ty)" by (rule wt_header_fields [OF ok])
  have ty: "ty_ok 0 (TArray field_ty)" by (simp add: MAX_DEPTH_def basic_types_def)
  have "occurs_at buf 12 (enc ?v 12)"
    unfolding enc_fields using occurs_at_self [of "msg_prefix m serial" "?l @ ?F" "?z @ msg_body m"]
    by (simp add: buf del: occurs_at_append)
  moreover have "length (enc ?v 12) < 2 ^ 32" unfolding enc_fields using small by simp
  ultimately have read: "read_value ''a(yv)'' (reader_at buf 12 False)
      = Inr (?v, reader_at buf (16 + length ?F) False)"
    using reads_backD [OF read_enc [OF wt ty]]
    by (simp add: read_value_def enc_fields del: enc.simps)
  have bytes: "buf ! Suc 0 = msg_kind m" "buf ! 1 = msg_kind m" "buf ! 2 = msg_flags m" "buf ! 3 = 1"
    by (simp_all add: buf msg_prefix_def)
  have drop: "drop (pad8 (16 + length ?F)) buf = msg_body m" by (simp add: buf pad8_eq)
  have "\<not> length buf < 16" "\<not> length buf < pad8 (16 + length ?F)"
    using pad8_ge [of "16 + length ?F"] by (simp_all add: len)
  then show ?thesis
    by (simp add: parse_header_def fl bytes order read pre un drop fold_header_fields Let_def)
qed

lemma parse_encoded:
  assumes "msg_ok m" and "encode m serial = Some buf" and "msg_args m = Inr vs"
  shows "parse buf = Inr (m\<lparr>msg_serial := serial, msg_sender := None\<rparr>)"
  using assms(3) by (simp add: parse_def parse_header_encode [OF assms(1,2)] msg_args_def)

text \<open>An example: a call of \<open>Ping\<close> with a one-byte body.\<close>

definition ping :: message where
  "ping = message_default\<lparr>msg_kind := METHOD_CALL, msg_member := Some ''Ping'',
     msg_signature := ''y'', msg_body := [7]\<rparr>"

lemma ping_ok: "msg_ok ping" "msg_args ping = Inr [Byte 7]"
proof -
  have f: "header_fields ping = [Struct [Byte FIELD_MEMBER, Variant (Str ''Ping'')],
      Struct [Byte FIELD_SIGNATURE, Variant (Sig ''y'')]]"
    by (simp add: header_fields_def opt_field_def ping_def message_default_def)
  have "length (fields_bytes ping) \<le> 100"
    unfolding fields_bytes_def f length_enc_simps by (simp add: pad_to_def)
  then show "msg_ok ping"
    by (auto simp: msg_ok_def ping_def message_default_def utf8_str_def byte_of_def pad8_def
        MAX_MESSAGE_def)
  show "msg_args ping = Inr [Byte 7]"
    by (simp add: msg_args_def ping_def message_default_def decode_body_def split_signature_def
        complete_type_len.simps MAX_DEPTH_def basic_types_def read_value_def read_depth.simps
        alignment_def align_def read_basic_def take_bytes_def reader_new_def)
qed

text \<open>
  C12. A message whose strings are UTF-8, whose signature fits and which is not too large is
  parsed from its encoding as it was, with the serial it was given and no sender, provided its
  body decodes under its signature.
\<close>

theorem parse_encode:
  assumes "msg_ok m" and "encode m serial = Some buf" and "msg_args m = Inr vs"
  shows "parse buf = Inr (m\<lparr>msg_serial := serial, msg_sender := None\<rparr>)"
  using assms by (rule parse_encoded)

lemma parse_encode_witness:
  "\<exists>buf. encode ping 42 = Some buf
     \<and> parse buf = Inr (ping\<lparr>msg_serial := 42, msg_sender := None\<rparr>)"
  using parse_encode [of ping 42 _ "[Byte 7]"] encode_eq [of ping 42] ping_ok by auto

section \<open>Every message\<close>

lemma harmless_header [simp]:
  "harmless Unknown_byte_order" "harmless Message_too_large" "harmless Short_header"
  "harmless Length_mismatch" "harmless Unsupported_version" "harmless Fields_length_mismatch"
  by (simp_all add: harmless_def)

lemma big_endian_harmless: "big_endian b = Inl e \<Longrightarrow> harmless e"
  by (auto simp: big_endian_def split: if_splits)

lemma frame_len_harmless: "frame_len p = Inl e \<Longrightarrow> harmless e"
  by (auto simp: frame_len_def Let_def dest: big_endian_harmless split: if_splits)

lemma frame_len_Inr:
  "frame_len p = Inr n \<longleftrightarrow>
     (\<exists>big. big_endian (hd p) = Inr big
       \<and> n = pad8 (16 + unat (prefix_u32 p 12 big)) + unat (prefix_u32 p 4 big) \<and> n \<le> MAX_MESSAGE)"
  by (auto simp: frame_len_def Let_def not_less)

text \<open>The header fields, read at offset 12: an array of structs, or an error.\<close>

lemma read_header_fields:
  assumes "12 \<le> length buf"
  obtains (err) e where "read_value ''a(yv)'' (reader_at buf 12 big) = Inl e" and "harmless e"
  | (ok) fs n where "read_value ''a(yv)'' (reader_at buf 12 big)
        = Inr (Array ''(yv)'' fs, reader_at buf n big)"
      and "wt 0 (Array ''(yv)'' fs) (TArray field_ty)"
proof -
  have "ty_ok 0 (TArray field_ty)" by (simp add: MAX_DEPTH_def basic_types_def)
  from sound_rdD [OF sound_read [OF this, of buf big 0] assms]
  have *: "okres buf big (read_value ''a(yv)'' (reader_at buf 12 big))
      (fits_enc 12 enc (\<lambda>v. wt 0 v (TArray field_ty)))"
    by (simp add: read_value_def)
  have array: "\<exists>fs. v = Array ''(yv)'' fs" if "wt 0 v (TArray field_ty)" for v
    using that by (cases v) (simp_all add: wt_Array wt_Dict wt_Struct)
  show thesis
  proof (cases "read_value ''a(yv)'' (reader_at buf 12 big)")
    case (Inl e)
    with * show thesis by (intro err) simp_all
  next
    case (Inr p)
    with * array show thesis by (auto simp: okres_def fits_enc_def intro: ok)
  qed
qed

lemma prefix_take: "prefix_u32 (take 16 buf) 12 big = prefix_u32 buf 12 big"
  by (simp add: prefix_u32_def drop_take)

lemma msg_body_fold [simp]: "msg_body (fold header_field fs m) = msg_body m"
proof (induction fs arbitrary: m)
  case (Cons f fs)
  have "msg_body (header_field f m) = msg_body m"
    by (auto simp: header_field_def set_field_def split: dvalue.split list.split)
  with Cons show ?case by simp
qed simp

lemma parse_header_res:
  "case parse_header buf of
     Inl e \<Rightarrow> harmless e
   | Inr (m, big) \<Rightarrow> length (msg_body m) \<le> MAX_MESSAGE"
proof (cases "length buf < 16")
  case False
  then have l: "12 \<le> length buf" and hd: "hd (take 16 buf) = hd buf"
    by (simp_all add: hd_take)
  show ?thesis
  proof (cases "frame_len (take 16 buf)")
    case (Inl e)
    with False show ?thesis by (simp add: parse_header_def frame_len_harmless)
  next
    case (Inr total)
    then obtain big where big: "big_endian (hd buf) = Inr big"
      and total: "pad8 (16 + unat (prefix_u32 buf 12 big)) \<le> total" "total \<le> MAX_MESSAGE"
      by (auto simp: frame_len_Inr hd prefix_take)
    from l show ?thesis
      by (cases rule: read_header_fields [of buf big])
         (use False Inr big total in \<open>auto simp: parse_header_def Let_def hd\<close>)
  qed
qed (simp add: parse_header_def)

text \<open>
  C18. Parsing any bytes ends without a panic: neither a slice out of range nor a nested value
  ever makes it index past the buffer, and every loop ends.
\<close>

theorem parse_total: "parse buf \<noteq> Inl Panicked \<and> parse buf \<noteq> Inl Out_of_fuel"
proof -
  have "harmless e" if "parse buf = Inl e" for e
  proof (cases "parse_header buf")
    case (Inl e')
    with that parse_header_res [of buf] show ?thesis by (simp add: parse_def)
  next
    case (Inr p)
    obtain m big where p: "p = (m, big)" by (cases p)
    show ?thesis
    proof (cases "decode_body (msg_signature m) (msg_body m) big")
      case (Inl e')
      with that Inr p decode_body_res [of "msg_signature m" "msg_body m" big] show ?thesis
        by (simp add: parse_def)
    next
      case dec: (Inr vs)
      have "length (msg_body m) < 2 ^ 32"
        using parse_header_res [of buf] Inr p by (simp add: MAX_MESSAGE_def)
      with dec obtain body where "encode_body vs = Some (msg_signature m, body)"
        using reencode_wt by blast
      with dec that Inr p show ?thesis by (auto simp: parse_def split: if_splits)
    qed
  qed
  then show ?thesis by (auto simp: harmless_def)
qed

text \<open>
  A parsed message holds the values of the bytes it came from: whatever byte order they
  were in, its arguments decode, and to the values that the header's own byte order gives.
\<close>

theorem parse_args:
  assumes "parse buf = Inr m"
  shows "\<exists>m' big vs. parse_header buf = Inr (m', big)
           \<and> decode_body (msg_signature m') (msg_body m') big = Inr vs
           \<and> msg_args m = Inr vs \<and> m = m'\<lparr>msg_body := msg_body m\<rparr>"
proof -
  from assms obtain m' big vs where h: "parse_header buf = Inr (m', big)"
    and d: "decode_body (msg_signature m') (msg_body m') big = Inr vs"
    by (auto simp: parse_def)
  have "length (msg_body m') < 2 ^ 32"
    using parse_header_res [of buf] h by (simp add: MAX_MESSAGE_def)
  with d obtain body where "encode_body vs = Some (msg_signature m', body)"
    "decode_body (msg_signature m') body False = Inr vs"
    using reencode_wt by blast
  with assms h d have "msg_args m = Inr vs \<and> m = m'\<lparr>msg_body := msg_body m\<rparr>"
    by (auto simp: parse_def msg_args_def split: if_splits)
  with h d show ?thesis by blast
qed

lemma parse_args_witness:
  "\<exists>buf m. parse buf = Inr m \<and> (\<exists>m' big vs. parse_header buf = Inr (m', big)
           \<and> decode_body (msg_signature m') (msg_body m') big = Inr vs
           \<and> msg_args m = Inr vs \<and> m = m'\<lparr>msg_body := msg_body m\<rparr>)"
proof -
  obtain buf where "encode ping 42 = Some buf" using encode_eq ping_ok by blast
  with ping_ok have "parse buf = Inr (ping\<lparr>msg_serial := 42, msg_sender := None\<rparr>)"
    using parse_encoded by blast
  with parse_args [OF this] show ?thesis by blast
qed

lemma frame_len_prefix:
  "length prefix = 16 \<Longrightarrow> frame_len (prefix @ rest) = frame_len prefix"
  by (cases prefix) (auto simp: frame_len_def prefix_u32_def)

lemma frame_len_bounds: "frame_len p = Inr n \<Longrightarrow> 16 \<le> n \<and> n \<le> MAX_MESSAGE"
proof -
  have "16 \<le> pad8 (16 + k)" for k using pad8_ge [of "16 + k"] by simp
  then show "frame_len p = Inr n \<Longrightarrow> 16 \<le> n \<and> n \<le> MAX_MESSAGE"
    by (auto simp: frame_len_Inr intro: trans_le_add1)
qed

text \<open>
  Replies go back to the caller: a method return, and an error whose text is UTF-8, carry
  the call's serial and its sender as destination, expect no reply themselves, and an error's
  arguments are its text.
\<close>

theorem replies_target_caller:
  "msg_reply_serial (method_return call) = Some (msg_serial call)
   \<and> msg_destination (method_return call) = msg_sender call
   \<and> \<not> expects_reply (method_return call)
   \<and> (utf8_str text \<and> length text < 2 ^ 31 \<longrightarrow>
        (\<exists>r. error_reply call name text = Some r
           \<and> msg_reply_serial r = Some (msg_serial call) \<and> msg_destination r = msg_sender call
           \<and> msg_error_name r = Some name \<and> \<not> expects_reply r
           \<and> msg_args r = Inr [Str text]))"
proof -
  have "\<exists>r. error_reply call name text = Some r
           \<and> msg_reply_serial r = Some (msg_serial call) \<and> msg_destination r = msg_sender call
           \<and> msg_error_name r = Some name \<and> \<not> expects_reply r
           \<and> msg_args r = Inr [Str text]"
    if t: "utf8_str text" "length text < 2 ^ 31"
  proof -
    have wt: "list_all2 (wt 0) [Str text] [TBasic (CHR ''s'')]"
      and ty: "\<forall>t \<in> set [TBasic (CHR ''s'')]. ty_ok 0 t"
      using t by (simp_all add: utf8_str_def MAX_DEPTH_def basic_types_def)
    have len: "length (enc_seq enc [Str text] 0) < 2 ^ 32"
      using t by (simp add: length_enc)
    obtain sig body where eb: "encode_body [Str text] = Some (sig, body)"
      and "decode_body sig body False = Inr [Str text]"
      using encode_body_wt [OF wt] decode_body_enc [OF wt ty len] by auto
    then show ?thesis
      by (auto simp: error_reply_def set_body_def msg_args_def expects_reply_def message_default_def
          kind_defs)
  qed
  then show ?thesis
    by (simp add: method_return_def message_default_def expects_reply_def kind_defs)
qed

lemma replies_target_caller_witness:
  "\<exists>r. error_reply ping ''org.freedesktop.DBus.Error.AccessDenied'' ''no'' = Some r
     \<and> msg_args r = Inr [Str ''no'']"
  using replies_target_caller [of ping "''no''" "''org.freedesktop.DBus.Error.AccessDenied''"]
  by (auto simp: utf8_str_def byte_of_def)

end
