(* ===== verification/Framing.thy ===== *)
theory Framing
  imports Prelude
begin

text \<open>
  The interface of a stream cut into frames: a decision how long the frame at the start of the
  buffer is, which stays the same as more bytes arrive. Whatever reads frames under this
  interface reads the same frames however the transport splits the stream. The D-Bus
  connection and the Wayland socket of the decorations proxy both provide it.
\<close>

text \<open>All the complete frames at the start of a buffer, and what is left.\<close>

function frames :: "('b list \<Rightarrow> nat option) \<Rightarrow> 'b list \<Rightarrow> 'b list list \<times> 'b list" where
  "frames need buf =
     (case need buf of
        None \<Rightarrow> ([], buf)
      | Some n \<Rightarrow>
          if n = 0 \<or> length buf < n then ([], buf)
          else (let (fs, rest) = frames need (drop n buf) in (take n buf # fs, rest)))"
  by pat_completeness auto
termination
  by (relation "measure (\<lambda>(need, buf). length buf)") auto

declare frames.simps [simp del]

text \<open>Reading chunk by chunk, taking the complete frames off after each.\<close>

fun feed :: "('b list \<Rightarrow> nat option) \<Rightarrow> 'b list \<Rightarrow> 'b list list \<Rightarrow> 'b list list \<times> 'b list" where
  "feed need buf [] = ([], buf)"
| "feed need buf (c # cs) =
     (let (fs, buf') = frames need (buf @ c); (gs, rest) = feed need buf' cs in (fs @ gs, rest))"

locale framing =
  fixes need :: "'b list \<Rightarrow> nat option"
  assumes need_pos: "need xs = Some n \<Longrightarrow> 0 < n"
    and need_append: "need xs = Some n \<Longrightarrow> need (xs @ ys) = Some n"
begin

lemma frames_append:
  "frames need (xs @ ys) =
     (let (fs, r) = frames need xs; (gs, r') = frames need (r @ ys) in (fs @ gs, r'))"
proof (induction "length xs" arbitrary: xs rule: less_induct)
  case less
  show ?case
  proof (cases "\<exists>n. need xs = Some n \<and> n \<le> length xs")
    case False
    then have "frames need xs = ([], xs)"
      by (auto simp: frames.simps [of need xs] split: option.split)
    then show ?thesis by simp
  next
    case True
    then obtain n where n: "need xs = Some n" "n \<le> length xs" by blast
    then have pos: "0 < n" by (simp add: need_pos)
    have app: "need (xs @ ys) = Some n" using n by (simp add: need_append)
    from n pos have IH: "frames need (drop n xs @ ys) =
        (let (fs, r) = frames need (drop n xs); (gs, r') = frames need (r @ ys) in (fs @ gs, r'))"
      by (intro less) simp
    from n pos app show ?thesis
      by (simp add: frames.simps [of need xs] frames.simps [of need "xs @ ys"] IH
          split: prod.split)
  qed
qed

lemma frames_rest: "snd (frames need (snd (frames need xs))) = snd (frames need xs)
    \<and> fst (frames need (snd (frames need xs))) = []"
proof (induction "length xs" arbitrary: xs rule: less_induct)
  case less
  show ?case
  proof (cases "\<exists>n. need xs = Some n \<and> n \<le> length xs")
    case False
    then have "frames need xs = ([], xs)"
      by (auto simp: frames.simps [of need xs] split: option.split)
    then show ?thesis by simp
  next
    case True
    then obtain n where n: "need xs = Some n" "n \<le> length xs" by blast
    then have pos: "0 < n" by (simp add: need_pos)
    with n have "snd (frames need xs) = snd (frames need (drop n xs))"
      by (simp add: frames.simps [of need xs] split: prod.split)
    with less [of "drop n xs"] n pos show ?thesis by simp
  qed
qed

text \<open>The frames do not depend on where the transport splits the stream.\<close>

lemma feed_concat: "frames need buf = ([], buf) \<Longrightarrow> feed need buf cs = frames need (buf @ concat cs)"
proof (induction cs arbitrary: buf)
  case (Cons c cs)
  obtain fs r where f: "frames need (buf @ c) = (fs, r)" by (cases "frames need (buf @ c)")
  from frames_rest [of "buf @ c"] f have "frames need r = ([], r)" by (metis fst_conv snd_conv prod.collapse)
  with Cons.IH have "feed need r cs = frames need (r @ concat cs)" .
  with f frames_append [of "buf @ c" "concat cs"] show ?case by simp
qed simp

text \<open>A frame at the start of the stream is the first one read.\<close>

lemma frames_Cons:
  assumes "need x = Some (length x)"
  shows "frames need (x @ ys) = (let (fs, r) = frames need ys in (x # fs, r))"
  using assms need_pos [OF assms] need_append [OF assms, of ys]
  by (simp add: frames.simps [of need "x @ ys"])

lemma frames_concat:
  assumes "\<forall>x \<in> set xs. need x = Some (length x)" and "frames need r = ([], r)"
  shows "frames need (concat xs @ r) = (xs, r)"
  using assms by (induction xs) (auto simp: frames_Cons)

end

end
