(* ===== verification/Dbus_Conn.thy ===== *)
theory Dbus_Conn
  imports Dbus_Message Framing
begin

text \<open>
  \<open>src/src/dbus/conn.rs\<close>: the blocking client connection. The socket is a parameter of the
  model: the items \<open>recvmsg\<close> will return (bytes with the descriptors that come with them, or
  an error), and how many bytes each \<open>sendmsg\<close> takes. Descriptors are numbers.
\<close>

section \<open>The connection\<close>

type_synonym fd = nat

datatype recv_item = Chunk "byte list" "fd list" | Recv_error

datatype conn_error =
    Invalid_frame decode_error
  | Missing_descriptors
  | Undecodable message decode_error
  | Closed
  | Socket_error
  | Timed_out
  | Remote_error string string

record conn =
  incoming :: "recv_item list"
  rd_buf :: "byte list"
  rd_fds :: "fd list"
  backlog :: "(message \<times> fd list) list"
  next_serial :: u32
  outgoing :: "(byte list \<times> fd list) list"

definition BUS_NAME :: string where
  "BUS_NAME = ''org.freedesktop.DBus''"

definition BUS_PATH :: string where
  "BUS_PATH = ''/org/freedesktop/DBus''"

section \<open>Sending\<close>

text \<open>
  The loop of \<open>send\<close>: \<open>takes bs\<close> is how many bytes of \<open>bs\<close> the kernel takes, at least one and
  at most all of them, or none when \<open>sendmsg\<close> fails, which ends the loop with what was written so far.
  The descriptors go with the first bytes only.
\<close>

function send_loop ::
  "(byte list \<Rightarrow> nat option) \<Rightarrow> byte list \<Rightarrow> fd list \<Rightarrow> (byte list \<times> fd list) list \<times> bool" where
  "send_loop takes bs fds =
     (if bs = [] then ([], True)
      else case takes bs of
        None \<Rightarrow> ([], False)
      | Some k \<Rightarrow>
          let n = max 1 (min k (length bs)); (sent, ok) = send_loop takes (drop n bs) []
          in ((take n bs, fds) # sent, ok))"
  by pat_completeness auto
termination
  by (relation "measure (\<lambda>(takes, bs, fds). length bs)") auto

declare send_loop.simps [simp del]

text \<open>
  The serial is used up when the send fails, too. \<open>None\<close> is the panic of \<^const>\<open>encode\<close>, which never
  comes.
\<close>

definition send ::
  "(byte list \<Rightarrow> nat option) \<Rightarrow> message \<Rightarrow> fd list \<Rightarrow> conn \<Rightarrow> ((conn_error + u32) \<times> conn) option" where
  "send takes msg fds c =
     (let serial = next_serial c;
          c = c\<lparr>next_serial := next_serial c + 1\<rparr>;
          m = msg\<lparr>msg_unix_fds := of_nat (length fds)\<rparr>
      in do {
        bytes \<leftarrow> encode m serial;
        let (sent, ok) = send_loop takes bytes fds;
        Some (if ok then Inr serial else Inl Socket_error, c\<lparr>outgoing := outgoing c @ sent\<rparr>)
      })"

section \<open>Receiving\<close>

text \<open>The body of the read loop: a whole message at the start of the buffer is taken off.\<close>

definition take_message ::
  "byte list \<Rightarrow> fd list \<Rightarrow>
     ((conn_error + message \<times> fd list) \<times> byte list \<times> fd list) option" where
  "take_message buf fds =
     (if length buf < 16 then None
      else case frame_len (take 16 buf) of
        Inl e \<Rightarrow> Some (Inl (Invalid_frame e), buf, fds)
      | Inr len \<Rightarrow>
          if length buf < len then None
          else let raw = take len buf; buf = drop len buf
          in case parse_header raw of
               Inl e \<Rightarrow> Some (Inl (Invalid_frame e), buf, fds)
             | Inr (header, _) \<Rightarrow>
                 let n = unat (msg_unix_fds header)
                 in if length fds < n then Some (Inl Missing_descriptors, buf, fds)
                    else let mfds = take n fds; fds = drop n fds
                    in case parse raw of
                         Inr msg \<Rightarrow> Some (Inr (msg, mfds), buf, fds)
                       | Inl e \<Rightarrow>
                           Some (Inl (Undecodable (header\<lparr>msg_body := [], msg_signature := ''''\<rparr>) e),
                             buf, fds))"

text \<open>
  \<open>recvmsg\<close> pushes the descriptors before the bytes; no bytes, or no item left, is the end of
  the stream.
\<close>

fun read_loop ::
  "byte list \<Rightarrow> fd list \<Rightarrow> recv_item list \<Rightarrow>
     (conn_error + message \<times> fd list) \<times> byte list \<times> fd list \<times> recv_item list" where
  "read_loop buf fds [] =
     (case take_message buf fds of
        Some (res, buf, fds) \<Rightarrow> (res, buf, fds, [])
      | None \<Rightarrow> (Inl Closed, buf, fds, []))"
| "read_loop buf fds (i # is) =
     (case take_message buf fds of
        Some (res, buf, fds) \<Rightarrow> (res, buf, fds, i # is)
      | None \<Rightarrow>
          (case i of
             Recv_error \<Rightarrow> (Inl Socket_error, buf, fds, is)
           | Chunk bs new \<Rightarrow>
               if bs = [] then (Inl Closed, buf, fds @ new, is)
               else read_loop (buf @ bs) (fds @ new) is))"

definition read_one :: "conn \<Rightarrow> (conn_error + message \<times> fd list) \<times> conn" where
  "read_one c =
     (case read_loop (rd_buf c) (rd_fds c) (incoming c) of
        (res, buf, fds, is) \<Rightarrow> (res, c\<lparr>rd_buf := buf, rd_fds := fds, incoming := is\<rparr>))"

definition recv :: "conn \<Rightarrow> (conn_error + message \<times> fd list) \<times> conn" where
  "recv c =
     (case backlog c of
        m # ms \<Rightarrow> (Inr m, c\<lparr>backlog := ms\<rparr>)
      | [] \<Rightarrow> read_one c)"

section \<open>Calls\<close>

definition remote_error :: "message \<Rightarrow> conn_error" where
  "remote_error reply =
     Remote_error (case msg_error_name reply of Some n \<Rightarrow> n | None \<Rightarrow> ''error'')
       (case msg_args reply of
          Inr (v # _) \<Rightarrow> (case as_str v of Some s \<Rightarrow> s | None \<Rightarrow> '''')
        | _ \<Rightarrow> '''')"

text \<open>
  The loop that waits for the reply to \<open>serial\<close>: \<open>late k\<close> tells whether the deadline has
  passed in the round that has \<open>k\<close> rounds of fuel after it. Every round takes a message off the stream,
  so its bytes bound the rounds.
\<close>

fun item_bytes :: "recv_item \<Rightarrow> byte list" where
  "item_bytes (Chunk bs _) = bs"
| "item_bytes Recv_error = []"

fun item_fds :: "recv_item \<Rightarrow> fd list" where
  "item_fds (Chunk _ fds) = fds"
| "item_fds Recv_error = []"

definition stream :: "conn \<Rightarrow> byte list" where
  "stream c = rd_buf c @ concat (map item_bytes (incoming c))"

fun call_loop ::
  "nat \<Rightarrow> (nat \<Rightarrow> bool) \<Rightarrow> u32 \<Rightarrow> conn \<Rightarrow> (conn_error + message \<times> fd list) option \<times> conn" where
  "call_loop 0 late serial c = (None, c)"
| "call_loop (Suc fuel) late serial c =
     (if late fuel then (Some (Inl Timed_out), c)
      else case read_one c of
        (Inr (reply, fds), c) \<Rightarrow>
          if msg_reply_serial reply = Some serial then
            (if msg_kind reply = ERROR then (Some (Inl (remote_error reply)), c)
             else (Some (Inr (reply, fds)), c))
          else if msg_sender reply = Some BUS_NAME then
            call_loop fuel late serial (c\<lparr>backlog := backlog c @ [(reply, fds)]\<rparr>)
          else call_loop fuel late serial c
      | (Inl (Undecodable header e), c) \<Rightarrow>
          if msg_reply_serial header \<noteq> Some serial then call_loop fuel late serial c
          else (Some (Inl (Undecodable header e)), c)
      | (Inl e, c) \<Rightarrow> (Some (Inl e), c))"

definition call_fds ::
  "(byte list \<Rightarrow> nat option) \<Rightarrow> (nat \<Rightarrow> bool) \<Rightarrow> message \<Rightarrow> conn \<Rightarrow>
     ((conn_error + message \<times> fd list) option \<times> conn) option" where
  "call_fds takes late msg c =
     do {
       (res, c) \<leftarrow> send takes msg [] c;
       Some (case res of
           Inl e \<Rightarrow> (Some (Inl e), c)
         | Inr serial \<Rightarrow> call_loop (length (stream c) + 1) late serial c)
     }"

section \<open>Addresses\<close>

fun unescape :: "string \<Rightarrow> byte list" where
  "unescape [] = []"
| "unescape (c # cs) =
     (if c = CHR ''%'' then
        (case cs of
           h # l # rest \<Rightarrow>
             (case (hex_digit h, hex_digit l) of
                (Some a, Some b) \<Rightarrow> or (push_bit 4 (of_nat a)) (of_nat b) # unescape rest
              | _ \<Rightarrow> byte_of c # unescape cs)
         | _ \<Rightarrow> byte_of c # unescape cs)
      else byte_of c # unescape cs)"

section \<open>Frames of the stream\<close>

definition need_frame :: "byte list \<Rightarrow> nat option" where
  "need_frame buf =
     (if length buf < 16 then None
      else case frame_len (take 16 buf) of Inl _ \<Rightarrow> None | Inr n \<Rightarrow> Some n)"

interpretation dbus: framing need_frame
  by unfold_locales
    (auto simp: need_frame_def dest: frame_len_bounds split: if_splits sum.splits)

text \<open>Bytes that are one message by their header, with the descriptors the header counts.\<close>

definition valid_frame :: "byte list \<Rightarrow> fd list \<Rightarrow> bool" where
  "valid_frame raw mfds \<longleftrightarrow>
     need_frame raw = Some (length raw)
     \<and> (case parse_header raw of
          Inl _ \<Rightarrow> False
        | Inr (h, _) \<Rightarrow> unat (msg_unix_fds h) = length mfds)"

text \<open>What reading such a message gives, whether or not its body decodes.\<close>

definition frame_result :: "byte list \<Rightarrow> fd list \<Rightarrow> conn_error + message \<times> fd list" where
  "frame_result raw mfds =
     (case parse raw of
        Inr m \<Rightarrow> Inr (m, mfds)
      | Inl e \<Rightarrow>
          (case parse_header raw of
             Inr (h, _) \<Rightarrow> Inl (Undecodable (h\<lparr>msg_body := [], msg_signature := ''''\<rparr>) e)
           | Inl _ \<Rightarrow> Inl (Invalid_frame e)))"

lemma valid_frame_length: "valid_frame raw mfds \<Longrightarrow> 16 \<le> length raw"
  by (auto simp: valid_frame_def need_frame_def split: if_splits)

lemma need_frame_prefix:
  assumes "buf @ x = raw @ tail" and "16 \<le> length buf" and "16 \<le> length raw"
  shows "need_frame buf = need_frame raw"
proof -
  have "take 16 (buf @ x) = take 16 (raw @ tail)" using assms(1) by simp
  with assms(2,3) show ?thesis by (simp add: need_frame_def)
qed

lemma take_message_need:
  "take_message buf fds = None \<longleftrightarrow>
     length buf < 16 \<or> (\<exists>n. need_frame buf = Some n \<and> length buf < n)"
  by (auto simp: take_message_def need_frame_def Let_def split: sum.splits prod.splits)

lemma take_message_frame:
  assumes v: "valid_frame raw mfds" and s: "buf @ x = raw @ tail" and f: "fds @ y = mfds @ ftail"
  shows "length buf < length raw \<Longrightarrow> take_message buf fds = None"
    and "length raw \<le> length buf \<Longrightarrow> length mfds \<le> length fds \<Longrightarrow>
      take_message buf fds
        = Some (frame_result raw mfds, drop (length raw) buf, drop (length mfds) fds)"
proof -
  note l = valid_frame_length [OF v]
  show "take_message buf fds = None" if "length buf < length raw"
    using need_frame_prefix [OF s _ l] that v by (auto simp: take_message_need valid_frame_def)
next
  note l = valid_frame_length [OF v]
  assume b: "length raw \<le> length buf" and fd: "length mfds \<le> length fds"
  have "take (length raw) (buf @ x) = raw" using s by simp
  with b have raw: "take (length raw) buf = raw" by simp
  have "take (length mfds) (fds @ y) = mfds" using f by simp
  with fd have mf: "take (length mfds) fds = mfds" by simp
  from need_frame_prefix [OF s _ l] v b l have n: "need_frame buf = Some (length raw)"
    by (simp add: valid_frame_def)
  with b l have fl: "frame_len (take 16 buf) = Inr (length raw)"
    by (auto simp: need_frame_def split: if_splits sum.splits)
  from v obtain h big where "parse_header raw = Inr (h, big)" "unat (msg_unix_fds h) = length mfds"
    by (auto simp: valid_frame_def split: sum.splits)
  with b l fd fl raw mf
  show "take_message buf fds
      = Some (frame_result raw mfds, drop (length raw) buf, drop (length mfds) fds)"
    by (simp add: take_message_def frame_result_def Let_def split: sum.split)
qed

abbreviation items_bytes :: "recv_item list \<Rightarrow> byte list" where
  "items_bytes is \<equiv> concat (map item_bytes is)"

abbreviation items_fds :: "recv_item list \<Rightarrow> fd list" where
  "items_fds is \<equiv> concat (map item_fds is)"

definition chunks_only :: "recv_item list \<Rightarrow> bool" where
  "chunks_only is \<longleftrightarrow> (\<forall>i \<in> set is. \<exists>bs fds. i = Chunk bs fds \<and> bs \<noteq> [])"

lemma read_loop_frame:
  assumes v: "valid_frame raw mfds" and "chunks_only is"
    and "buf @ items_bytes is = raw @ tail" and "fds @ items_fds is = mfds @ ftail"
    and "\<And>pre post. is = pre @ post \<Longrightarrow> length raw \<le> length (buf @ items_bytes pre) \<Longrightarrow>
           length mfds \<le> length (fds @ items_fds pre)"
  shows "\<exists>pre post. is = pre @ post \<and> length raw \<le> length (buf @ items_bytes pre)
     \<and> read_loop buf fds is = (frame_result raw mfds, drop (length raw) (buf @ items_bytes pre),
          drop (length mfds) (fds @ items_fds pre), post)"
  using assms(2-)
proof (induction "is" arbitrary: buf fds)
  case Nil
  then show ?case using take_message_frame(2) [OF v, of buf "[]" tail fds "[]" ftail] by simp
next
  case (Cons i "is")
  show ?case
  proof (cases "length raw \<le> length buf")
    case True
    moreover from Cons.prems(4) [of "[]" "i # is"] True have "length mfds \<le> length fds" by simp
    ultimately show ?thesis
      using take_message_frame(2) [OF v, of buf "items_bytes (i # is)" tail fds "items_fds (i # is)" ftail]
        Cons.prems(2,3) by (intro exI [of _ "[]"] exI [of _ "i # is"]) simp
  next
    case False
    from Cons.prems(1) obtain bs new where i: "i = Chunk bs new" "bs \<noteq> []" and c: "chunks_only is"
      by (auto simp: chunks_only_def)
    have none: "take_message buf fds = None"
      using take_message_frame(1) [OF v, of buf "items_bytes (i # is)" tail fds "items_fds (i # is)" ftail]
        Cons.prems(2,3) False by simp
    have sb: "(buf @ bs) @ items_bytes is = raw @ tail" and sf: "(fds @ new) @ items_fds is = mfds @ ftail"
      using Cons.prems(2,3) i by simp_all
    have t: "length mfds \<le> length ((fds @ new) @ items_fds pre)"
      if "is = pre @ post" "length raw \<le> length ((buf @ bs) @ items_bytes pre)" for pre post
      using Cons.prems(4) [of "i # pre" post] that i by simp
    have "\<exists>pre post. is = pre @ post \<and> length raw \<le> length ((buf @ bs) @ items_bytes pre)
       \<and> read_loop (buf @ bs) (fds @ new) is
          = (frame_result raw mfds, drop (length raw) ((buf @ bs) @ items_bytes pre),
             drop (length mfds) ((fds @ new) @ items_fds pre), post)"
      by (rule Cons.IH [OF c sb sf]) (rule t)
    then obtain pre post where p: "is = pre @ post"
      "length raw \<le> length ((buf @ bs) @ items_bytes pre)"
      "read_loop (buf @ bs) (fds @ new) is
          = (frame_result raw mfds, drop (length raw) ((buf @ bs) @ items_bytes pre),
             drop (length mfds) ((fds @ new) @ items_fds pre), post)" by blast
    then show ?thesis using none i by (intro exI [of _ "i # pre"] exI [of _ post]) simp
  qed
qed

section \<open>Reading a stream of messages\<close>

text \<open>The descriptors of every message have come once all its bytes have.\<close>

definition timely :: "(byte list \<times> fd list) list \<Rightarrow> byte list \<Rightarrow> fd list \<Rightarrow> recv_item list \<Rightarrow> bool" where
  "timely ms buf fds is \<longleftrightarrow>
     (\<forall>pre post k. is = pre @ post \<longrightarrow> k \<le> length ms \<longrightarrow>
        length (concat (map fst (take k ms))) \<le> length (buf @ items_bytes pre) \<longrightarrow>
        length (concat (map snd (take k ms))) \<le> length (fds @ items_fds pre))"

fun recv_many :: "nat \<Rightarrow> conn \<Rightarrow> (conn_error + message \<times> fd list) list \<times> conn" where
  "recv_many 0 c = ([], c)"
| "recv_many (Suc n) c =
     (case recv c of (res, c) \<Rightarrow> (case recv_many n c of (rs, c) \<Rightarrow> (res # rs, c)))"

lemma timelyD:
  "timely ms buf fds is \<Longrightarrow> is = pre @ post \<Longrightarrow> k \<le> length ms \<Longrightarrow>
     length (concat (map fst (take k ms))) \<le> length (buf @ items_bytes pre) \<Longrightarrow>
     length (concat (map snd (take k ms))) \<le> length (fds @ items_fds pre)"
  unfolding timely_def by blast

lemma timely_rest:
  assumes t: "timely ((raw, mfds) # ms) buf fds (pre @ post)"
    and b: "length raw \<le> length (buf @ items_bytes pre)"
  shows "timely ms (drop (length raw) (buf @ items_bytes pre)) (drop (length mfds) (fds @ items_fds pre)) post"
  unfolding timely_def
proof (intro allI impI)
  fix pre' post' k
  assume p: "post = pre' @ post'" and k: "k \<le> length ms"
    and l: "length (concat (map fst (take k ms)))
      \<le> length (drop (length raw) (buf @ items_bytes pre) @ items_bytes pre')"
  from p have "pre @ post = (pre @ pre') @ post'" by simp
  moreover have "Suc k \<le> length ((raw, mfds) # ms)" using k by simp
  moreover have "length (concat (map fst (take (Suc k) ((raw, mfds) # ms))))
      \<le> length (buf @ items_bytes (pre @ pre'))" using l b by simp
  ultimately have "length (concat (map snd (take (Suc k) ((raw, mfds) # ms))))
      \<le> length (fds @ items_fds (pre @ pre'))" by (rule timelyD [OF t])
  then show "length (concat (map snd (take k ms)))
      \<le> length (drop (length mfds) (fds @ items_fds pre) @ items_fds pre')" by simp
qed

text \<open>What a connection is still to read: the messages \<open>ms\<close>, then \<open>tail\<close>, however the transport cuts it.\<close>

definition carries :: "(byte list \<times> fd list) list \<Rightarrow> byte list \<Rightarrow> fd list \<Rightarrow> conn \<Rightarrow> bool" where
  "carries ms tail ftail c \<longleftrightarrow>
     (\<forall>(raw, mfds) \<in> set ms. valid_frame raw mfds) \<and> chunks_only (incoming c)
     \<and> stream c = concat (map fst ms) @ tail
     \<and> rd_fds c @ items_fds (incoming c) = concat (map snd ms) @ ftail
     \<and> timely ms (rd_buf c) (rd_fds c) (incoming c)"

lemma carries_backlog [simp]: "carries ms tail ftail (c\<lparr>backlog := b\<rparr>) = carries ms tail ftail c"
  by (simp add: carries_def stream_def)

lemma read_one_frame:
  assumes "carries ((raw, mfds) # ms) tail ftail c"
  obtains c' where "read_one c = (frame_result raw mfds, c')" and "carries ms tail ftail c'"
    and "backlog c' = backlog c"
proof -
  let ?b = "rd_buf c" and ?f = "rd_fds c"
  from assms have v: "valid_frame raw mfds" and vs: "\<forall>(raw, mfds) \<in> set ms. valid_frame raw mfds"
    and ch: "chunks_only (incoming c)"
    and sb: "?b @ items_bytes (incoming c) = raw @ concat (map fst ms) @ tail"
    and sf: "?f @ items_fds (incoming c) = mfds @ concat (map snd ms) @ ftail"
    and tm: "timely ((raw, mfds) # ms) ?b ?f (incoming c)"
    by (simp_all add: carries_def stream_def)
  have t: "length mfds \<le> length (?f @ items_fds pre)"
    if "incoming c = pre @ post" "length raw \<le> length (?b @ items_bytes pre)" for pre post
    using timelyD [OF tm that(1), of 1] that(2) by simp
  have "\<exists>pre post. incoming c = pre @ post \<and> length raw \<le> length (?b @ items_bytes pre)
     \<and> read_loop ?b ?f (incoming c) = (frame_result raw mfds, drop (length raw) (?b @ items_bytes pre),
          drop (length mfds) (?f @ items_fds pre), post)"
    by (rule read_loop_frame [OF v ch sb sf]) (rule t)
  then obtain pre post where p: "incoming c = pre @ post"
    "length raw \<le> length (?b @ items_bytes pre)"
    "read_loop ?b ?f (incoming c) = (frame_result raw mfds, drop (length raw) (?b @ items_bytes pre),
        drop (length mfds) (?f @ items_fds pre), post)" by blast
  define c' where "c' = c\<lparr>rd_buf := drop (length raw) (?b @ items_bytes pre),
      rd_fds := drop (length mfds) (?f @ items_fds pre), incoming := post\<rparr>"
  have mf: "length mfds \<le> length (?f @ items_fds pre)" by (rule t [OF p(1,2)])
  have "drop (length raw) ((?b @ items_bytes pre) @ items_bytes post) = concat (map fst ms) @ tail"
    using sb p(1) by simp
  with p(2) have "stream c' = concat (map fst ms) @ tail" by (simp add: stream_def c'_def)
  moreover have "drop (length mfds) ((?f @ items_fds pre) @ items_fds post) = concat (map snd ms) @ ftail"
    using sf p(1) by simp
  with mf have "rd_fds c' @ items_fds (incoming c') = concat (map snd ms) @ ftail" by (simp add: c'_def)
  moreover have "timely ms (rd_buf c') (rd_fds c') (incoming c')"
    using timely_rest [of raw mfds ms ?b ?f pre post] tm p(1,2) by (simp add: c'_def)
  moreover have "chunks_only (incoming c')" using ch p(1) by (auto simp: c'_def chunks_only_def)
  ultimately have "carries ms tail ftail c'" using vs by (simp add: carries_def)
  moreover have "read_one c = (frame_result raw mfds, c')" "backlog c' = backlog c"
    using p(3) by (simp_all add: read_one_def c'_def)
  ultimately show thesis using that by blast
qed

lemma recv_many_stream:
  assumes "backlog c = []" and "carries ms tail ftail c"
  shows "fst (recv_many (length ms) c) = map (\<lambda>(raw, mfds). frame_result raw mfds) ms
     \<and> stream (snd (recv_many (length ms) c)) = tail"
  using assms
proof (induction ms arbitrary: c)
  case Nil
  then show ?case by (simp add: carries_def)
next
  case (Cons m ms)
  obtain raw mfds where m: "m = (raw, mfds)" by (cases m)
  from Cons.prems(2) m obtain c' where "read_one c = (frame_result raw mfds, c')"
    and c': "carries ms tail ftail c'" "backlog c' = backlog c"
    by (auto elim: read_one_frame)
  with Cons.prems(1) have "recv c = (frame_result raw mfds, c')" by (simp add: recv_def)
  with Cons.IH [of c'] Cons.prems(1) c' m show ?case by (cases "recv_many (length ms) c'") auto
qed

section \<open>What is sent is received\<close>

definition never_fails :: "(byte list \<Rightarrow> nat option) \<Rightarrow> bool" where
  "never_fails takes \<longleftrightarrow> (\<forall>bs. takes bs \<noteq> None)"

lemma send_loop_props:
  assumes "send_loop takes bs fds = (sent, ok)"
  shows "(\<forall>(b, f) \<in> set sent. b \<noteq> [])
   \<and> (ok \<longrightarrow> concat (map fst sent) = bs \<and> concat (map snd sent) = (if bs = [] then [] else fds))
   \<and> (never_fails takes \<longrightarrow> ok)"
  using assms
proof (induction takes bs fds arbitrary: sent ok rule: send_loop.induct)
  case (1 takes bs fds)
  show ?case
  proof (cases "bs = [] \<or> takes bs = None")
    case False
    then obtain k where k: "bs \<noteq> []" "takes bs = Some k" by blast
    let ?n = "max 1 (min k (length bs))"
    obtain rest ok' where r: "send_loop takes (drop ?n bs) [] = (rest, ok')" by fastforce
    with "1.prems" k have "sent = (take ?n bs, fds) # rest" "ok = ok'"
      by (simp_all add: send_loop.simps [of takes bs] Let_def)
    with "1.IH" [OF k refl r] k(1) show ?thesis by (auto simp: max_def)
  next
    case True
    moreover have "never_fails takes \<Longrightarrow> takes bs \<noteq> None" by (simp add: never_fails_def)
    ultimately show ?thesis using "1.prems" by (auto simp: send_loop.simps [of takes bs] simp del: not_None_eq)
  qed
qed

text \<open>The chunks in which the messages \<open>ms\<close> leave the sender.\<close>

abbreviation sent_chunks ::
  "(byte list \<Rightarrow> nat option) \<Rightarrow> (byte list \<times> fd list) list \<Rightarrow> (byte list \<times> fd list) list" where
  "sent_chunks takes ms \<equiv> concat (map (\<lambda>(raw, mfds). fst (send_loop takes raw mfds)) ms)"

definition sent_whole :: "(byte list \<Rightarrow> nat option) \<Rightarrow> (byte list \<times> fd list) list \<Rightarrow> bool" where
  "sent_whole takes ms \<longleftrightarrow> (\<forall>(raw, mfds) \<in> set ms. raw \<noteq> [] \<and> snd (send_loop takes raw mfds))"

lemma sent_chunks_props:
  "sent_whole takes ms \<Longrightarrow>
     concat (map fst (sent_chunks takes ms)) = concat (map fst ms)
     \<and> concat (map snd (sent_chunks takes ms)) = concat (map snd ms)"
proof (induction ms)
  case (Cons m ms)
  obtain raw mfds where m: "m = (raw, mfds)" by (cases m)
  obtain sent ok where s: "send_loop takes raw mfds = (sent, ok)" by fastforce
  with send_loop_props [OF s] Cons m show ?case by (simp add: sent_whole_def)
qed simp

text \<open>
  What the socket is relied on for: it hands over the bytes written, in order and in nonempty pieces of
  any size, with the descriptors in order, those of a write no later than its last byte.
\<close>

definition transported :: "(byte list \<times> fd list) list \<Rightarrow> recv_item list \<Rightarrow> bool" where
  "transported sent is \<longleftrightarrow>
     chunks_only is \<and> items_bytes is = concat (map fst sent) \<and> items_fds is = concat (map snd sent)
     \<and> timely sent [] [] is"

lemma sent_timely:
  assumes whole: "sent_whole takes ms" and t: "timely (sent_chunks takes ms @ part) [] [] is"
  shows "timely ms [] [] is"
  unfolding timely_def
proof (intro allI impI)
  fix pre post k
  assume e: "is = pre @ post" and "k \<le> length ms"
    and l: "length (concat (map fst (take k ms))) \<le> length ([] @ items_bytes pre)"
  let ?A = "sent_chunks takes (take k ms)"
  have "ms = take k ms @ drop k ms" by simp
  then have split: "sent_chunks takes ms = ?A @ sent_chunks takes (drop k ms)"
    by (metis concat_append map_append)
  then have A: "take (length ?A) (sent_chunks takes ms @ part) = ?A" by simp
  have "sent_whole takes (take k ms)" using whole by (auto simp: sent_whole_def dest: in_set_takeD)
  note B = sent_chunks_props [OF this]
  have "length (concat (map snd (take (length ?A) (sent_chunks takes ms @ part)))) \<le> length ([] @ items_fds pre)"
    by (rule timelyD [OF t e]) (use l B split in \<open>simp_all only: A append_Nil length_append\<close>, simp add: split)
  with A B show "length (concat (map snd (take k ms))) \<le> length ([] @ items_fds pre)" by simp
qed

text \<open>A well-formed message, encoded, is a valid frame that reads as the message.\<close>

lemma encoded_frame:
  assumes ok: "msg_ok m" and e: "encode m serial = Some raw" and a: "msg_args m = Inr vs"
    and n: "unat (msg_unix_fds m) = length fds"
  shows "valid_frame raw fds" and "raw \<noteq> []"
    and "frame_result raw fds = Inr (m\<lparr>msg_serial := serial, msg_sender := None\<rparr>, fds)"
proof -
  note h = parse_header_encode [OF ok e]
  from h have "16 \<le> length raw" and "frame_len (take 16 raw) = Inr (length raw)"
    by (auto simp: parse_header_def split: if_splits)
  with h n show "valid_frame raw fds" "raw \<noteq> []" by (auto simp: valid_frame_def need_frame_def)
  show "frame_result raw fds = Inr (m\<lparr>msg_serial := serial, msg_sender := None\<rparr>, fds)"
    using parse_encoded [OF ok e a] by (simp add: frame_result_def)
qed

text \<open>Sending one message after the other, up to one that fails; the serials of those sent.\<close>

fun send_all ::
  "(byte list \<Rightarrow> nat option) \<Rightarrow> (message \<times> fd list) list \<Rightarrow> conn \<Rightarrow> (u32 list \<times> conn) option" where
  "send_all takes [] c = Some ([], c)"
| "send_all takes ((m, fds) # ms) c =
     do {
       (res, c) \<leftarrow> send takes m fds c;
       case res of
         Inl e \<Rightarrow> Some ([], c)
       | Inr serial \<Rightarrow> do { (serials, c) \<leftarrow> send_all takes ms c; Some (serial # serials, c) }
     }"

definition sendable :: "message \<Rightarrow> fd list \<Rightarrow> bool" where
  "sendable m fds \<longleftrightarrow>
     length fds < 2 ^ 32 \<and> msg_ok (m\<lparr>msg_unix_fds := of_nat (length fds)\<rparr>)
     \<and> (case msg_args m of Inl _ \<Rightarrow> False | Inr _ \<Rightarrow> True)"

definition delivered :: "u32 \<Rightarrow> message \<times> fd list \<Rightarrow> message \<times> fd list" where
  "delivered serial mf =
     (case mf of (m, fds) \<Rightarrow>
        (m\<lparr>msg_serial := serial, msg_sender := None, msg_unix_fds := of_nat (length fds)\<rparr>, fds))"

lemma send_all_frames:
  assumes "\<forall>(m, fds) \<in> set ms. sendable m fds"
  shows "\<exists>n raws part c'. send_all takes ms c = Some (map (\<lambda>i. next_serial c + of_nat i) [0..<n], c')
     \<and> n \<le> length ms \<and> length raws = n \<and> (never_fails takes \<longrightarrow> n = length ms)
     \<and> sent_whole takes (zip raws (map snd ms))
     \<and> outgoing c' = outgoing c @ sent_chunks takes (zip raws (map snd ms)) @ part
     \<and> (n = length ms \<longrightarrow> part = [])
     \<and> (\<forall>i < n. valid_frame (raws ! i) (snd (ms ! i))
          \<and> frame_result (raws ! i) (snd (ms ! i)) = Inr (delivered (next_serial c + of_nat i) (ms ! i)))"
  using assms
proof (induction ms arbitrary: c)
  case Nil
  then show ?case by (simp add: sent_whole_def)
next
  case (Cons mf ms)
  obtain m fds where mf: "mf = (m, fds)" by (cases mf)
  let ?m = "m\<lparr>msg_unix_fds := of_nat (length fds)\<rparr>" and ?s = "next_serial c"
  from Cons.prems mf have s: "length fds < 2 ^ 32" "msg_ok ?m" and "\<exists>vs. msg_args m = Inr vs"
    by (auto simp: sendable_def split: sum.splits)
  then obtain vs where a: "msg_args ?m = Inr vs" by (auto simp: msg_args_def)
  obtain raw where e: "encode ?m ?s = Some raw" using encode_eq [OF s(2)] by blast
  have n: "unat (msg_unix_fds ?m) = length fds" using s(1) by (simp add: unat_of_nat)
  note f = encoded_frame [OF s(2) e a n]
  obtain sent ok where l: "send_loop takes raw fds = (sent, ok)" by fastforce
  note lp = send_loop_props [OF l]
  define c1 where "c1 = c\<lparr>next_serial := ?s + 1, outgoing := outgoing c @ sent\<rparr>"
  have step: "send takes m fds c = Some (if ok then Inr ?s else Inl Socket_error, c1)"
    using e l by (simp add: send_def c1_def Let_def)
  show ?case
  proof (cases ok)
    case False
    with step mf lp show ?thesis
      by (intro exI [of _ 0] exI [of _ "[]"] exI [of _ sent] exI [of _ c1]) (auto simp: sent_whole_def c1_def)
  next
    case True
    have "\<forall>(m, fds) \<in> set ms. sendable m fds" using Cons.prems by simp
    from Cons.IH [OF this, of c1] obtain n raws part c' where r:
      "send_all takes ms c1 = Some (map (\<lambda>i. next_serial c1 + of_nat i) [0..<n], c')" "n \<le> length ms"
      "length raws = n" "never_fails takes \<longrightarrow> n = length ms" "sent_whole takes (zip raws (map snd ms))"
      "outgoing c' = outgoing c1 @ sent_chunks takes (zip raws (map snd ms)) @ part"
      "n = length ms \<longrightarrow> part = []"
      "\<forall>i < n. valid_frame (raws ! i) (snd (ms ! i))
         \<and> frame_result (raws ! i) (snd (ms ! i)) = Inr (delivered (next_serial c1 + of_nat i) (ms ! i))"
      by blast
    have serials: "map (\<lambda>i. ?s + of_nat i) [0..<Suc n] = ?s # map (\<lambda>i. next_serial c1 + of_nat i) [0..<n]"
      by (simp add: map_upt_Suc c1_def add.assoc del: upt_Suc)
    have each: "valid_frame ((raw # raws) ! i) (snd ((mf # ms) ! i))
        \<and> frame_result ((raw # raws) ! i) (snd ((mf # ms) ! i)) = Inr (delivered (?s + of_nat i) ((mf # ms) ! i))"
      if i: "i < Suc n" for i
    proof (cases i)
      case 0
      with f mf show ?thesis by (simp add: delivered_def)
    next
      case (Suc j)
      with i r(8) have "frame_result (raws ! j) (snd (ms ! j)) = Inr (delivered (next_serial c1 + of_nat j) (ms ! j))"
        and "valid_frame (raws ! j) (snd (ms ! j))" by simp_all
      moreover have "next_serial c1 + of_nat j = ?s + of_nat (Suc j)" by (simp add: c1_def)
      ultimately show ?thesis using Suc by simp
    qed
    show ?thesis
    proof (intro exI conjI)
      show "send_all takes (mf # ms) c = Some (map (\<lambda>i. ?s + of_nat i) [0..<Suc n], c')"
        unfolding serials using True step mf r(1) by simp
      show "sent_whole takes (zip (raw # raws) (map snd (mf # ms)))"
        using r(5) True l f(2) mf by (simp add: sent_whole_def)
      show "outgoing c' = outgoing c @ sent_chunks takes (zip (raw # raws) (map snd (mf # ms))) @ part"
        using r(6) l mf by (simp add: c1_def)
    qed (use r(2,3,4,7) each in auto)
  qed
qed

text \<open>
  C7. What one end sends, the other end receives: for any well-formed messages and descriptors,
  however the kernel splits the writes and cuts the stream for the reader, and whichever write fails,
  reading as many messages as were sent gives these, in order, with consecutive serials, each with
  exactly its own descriptors. When no write fails all of them are sent.
\<close>

theorem send_recv:
  assumes "\<forall>(m, fds) \<in> set ms. sendable m fds" and "outgoing s = []"
    and "backlog r = []" and "rd_buf r = []" and "rd_fds r = []"
  shows "\<exists>n s'. send_all takes ms s = Some (map (\<lambda>i. next_serial s + of_nat i) [0..<n], s')
     \<and> n \<le> length ms \<and> (never_fails takes \<longrightarrow> n = length ms)
     \<and> (transported (outgoing s') (incoming r) \<longrightarrow>
          fst (recv_many n r) = map (\<lambda>i. Inr (delivered (next_serial s + of_nat i) (ms ! i))) [0..<n])"
proof -
  from send_all_frames [OF assms(1), of takes s] obtain n raws part s' where
    s': "send_all takes ms s = Some (map (\<lambda>i. next_serial s + of_nat i) [0..<n], s')"
      "n \<le> length ms" "length raws = n" "never_fails takes \<longrightarrow> n = length ms"
      "sent_whole takes (zip raws (map snd ms))"
      "outgoing s' = outgoing s @ sent_chunks takes (zip raws (map snd ms)) @ part"
    and f: "\<forall>i < n. valid_frame (raws ! i) (snd (ms ! i))
       \<and> frame_result (raws ! i) (snd (ms ! i)) = Inr (delivered (next_serial s + of_nat i) (ms ! i))"
    by blast
  have out: "outgoing s' = sent_chunks takes (zip raws (map snd ms)) @ part" using s'(6) assms(2) by simp
  let ?z = "zip raws (map snd ms)"
  have z: "length ?z = n" "\<And>i. i < n \<Longrightarrow> ?z ! i = (raws ! i, snd (ms ! i))"
    using s'(2,3) by simp_all
  have "fst (recv_many (length ?z) r) = map (\<lambda>(raw, mfds). frame_result raw mfds) ?z"
    if t: "transported (outgoing s') (incoming r)"
  proof -
    note p = sent_chunks_props [OF s'(5)]
    have "\<forall>(raw, mfds) \<in> set ?z. valid_frame raw mfds" using f z by (auto simp: in_set_conv_nth)
    moreover have "stream r = concat (map fst ?z) @ concat (map fst part)"
      "rd_fds r @ items_fds (incoming r) = concat (map snd ?z) @ concat (map snd part)"
      using t p assms(4,5) unfolding transported_def stream_def out by simp_all
    moreover have "timely ?z (rd_buf r) (rd_fds r) (incoming r)"
      using t sent_timely [OF s'(5), of part "incoming r"] unfolding transported_def out assms(4,5) by blast
    ultimately have "carries ?z (concat (map fst part)) (concat (map snd part)) r"
      using t by (simp add: carries_def transported_def)
    with assms(3) show ?thesis using recv_many_stream by blast
  qed
  moreover have "map (\<lambda>(raw, mfds). frame_result raw mfds) ?z
      = map (\<lambda>i. Inr (delivered (next_serial s + of_nat i) (ms ! i))) [0..<n]"
    using f z by (intro nth_equalityI) simp_all
  ultimately show ?thesis using s'(1,2,4) z(1) by auto
qed

definition conn_new :: "recv_item list \<Rightarrow> conn" where
  "conn_new is = \<lparr>incoming = is, rd_buf = [], rd_fds = [], backlog = [], next_serial = 1, outgoing = []\<rparr>"

lemma ping_sendable: "sendable ping []"
proof -
  have "ping\<lparr>msg_unix_fds := of_nat (length [])\<rparr> = ping" by (simp add: ping_def message_default_def)
  then show ?thesis using ping_ok by (simp add: sendable_def)
qed

text \<open>Two pings, written three bytes at a time and read at once.\<close>

lemma send_recv_witness:
  "\<exists>s' r. send_all (\<lambda>_. Some 3) [(ping, []), (ping, [])] (conn_new []) = Some ([1, 2], s')
     \<and> incoming r = [Chunk (concat (map fst (outgoing s'))) []]
     \<and> fst (recv_many 2 r) = [Inr (ping\<lparr>msg_serial := 1\<rparr>, []), Inr (ping\<lparr>msg_serial := 2\<rparr>, [])]"
proof -
  let ?ms = "[(ping, []), (ping, [])] :: (message \<times> fd list) list" and ?takes = "\<lambda>_. Some (3::nat)"
  have ok: "\<forall>(m, fds) \<in> set ?ms. sendable m fds" using ping_sendable by simp
  have nf: "never_fails ?takes" by (simp add: never_fails_def)
  obtain n raws part s' where n: "send_all ?takes ?ms (conn_new [])
      = Some (map (\<lambda>i. next_serial (conn_new []) + of_nat i) [0..<n], s')"
    and raws: "length raws = n" "never_fails ?takes \<longrightarrow> n = length ?ms" "n = length ?ms \<longrightarrow> part = []"
    and whole: "sent_whole ?takes (zip raws (map snd ?ms))"
    and out: "outgoing s' = outgoing (conn_new []) @ sent_chunks ?takes (zip raws (map snd ?ms)) @ part"
    using send_all_frames [OF ok, of ?takes "conn_new []"] by blast
  from nf raws have n2: "n = 2" and raws2: "length raws = 2" "part = []" by simp_all
  have s': "send_all ?takes ?ms (conn_new []) = Some ([1, 2], s')" "sent_whole ?takes (zip raws [[], []])"
    using n whole n2 by (simp_all add: conn_new_def upt_rec numeral_2_eq_2)
  have out: "outgoing s' = sent_chunks ?takes (zip raws [[], []])"
    using out raws2(2) by (simp add: conn_new_def)
  from raws2(1) obtain r1 r2 where raws: "raws = [r1, r2]" by (auto simp: numeral_2_eq_2 length_Suc_conv)
  note p = sent_chunks_props [OF s'(2), folded out]
  have "concat (map snd (outgoing s')) = []" "concat (map fst (outgoing s')) \<noteq> []"
    using p s'(2) raws by (simp_all add: sent_whole_def)
  moreover from this(1) have "concat (map snd (take k (outgoing s'))) = []" for k
    by (auto dest: in_set_takeD)
  then have "timely (outgoing s') [] [] [Chunk (concat (map fst (outgoing s'))) []]"
    unfolding timely_def by (metis le0 list.size(3))
  ultimately have "transported (outgoing s') [Chunk (concat (map fst (outgoing s'))) []]"
    by (simp add: transported_def chunks_only_def)
  moreover let ?r = "conn_new [Chunk (concat (map fst (outgoing s'))) []]"
  obtain k t where k: "send_all ?takes ?ms (conn_new []) = Some (map (\<lambda>i. next_serial (conn_new []) + of_nat i) [0..<k], t)"
    "never_fails ?takes \<longrightarrow> k = length ?ms"
    "transported (outgoing t) (incoming ?r) \<longrightarrow>
       fst (recv_many k ?r) = map (\<lambda>i. Inr (delivered (next_serial (conn_new []) + of_nat i) (?ms ! i))) [0..<k]"
    using send_recv [OF ok, of "conn_new []" ?r ?takes] by (auto simp: conn_new_def)
  from k(1) s'(1) have "t = s'" by simp
  moreover from k(2) nf have "k = 2" by simp
  ultimately have "fst (recv_many 2 ?r) = map (\<lambda>i. Inr (delivered (1 + of_nat i) (?ms ! i))) [0..<2]"
    using k(3) by (simp add: conn_new_def)
  moreover have "ping\<lparr>msg_serial := k, msg_sender := None, msg_unix_fds := 0\<rparr> = ping\<lparr>msg_serial := k\<rparr>" for k
    by (simp add: ping_def message_default_def)
  ultimately have "fst (recv_many 2 ?r) = [Inr (ping\<lparr>msg_serial := 1\<rparr>, []), Inr (ping\<lparr>msg_serial := 2\<rparr>, [])]"
    by (simp add: delivered_def upt_rec)
  with s'(1) show ?thesis by (intro exI [of _ s'] exI [of _ ?r]) (simp add: conn_new_def)
qed

text \<open>
  C13. A stream of messages is read message by message wherever the transport cuts it, as long
  as a message's descriptors come no later than its last byte; a message whose body does not
  decode is reported as such, takes its own descriptors along, and leaves the messages after
  it as they were.
\<close>

theorem recv_stream:
  assumes "backlog c = []" and "\<forall>(raw, mfds) \<in> set ms. valid_frame raw mfds"
    and "chunks_only (incoming c)" and "stream c = concat (map fst ms) @ tail"
    and "rd_fds c @ items_fds (incoming c) = concat (map snd ms) @ ftail"
    and "timely ms (rd_buf c) (rd_fds c) (incoming c)"
  shows "fst (recv_many (length ms) c) = map (\<lambda>(raw, mfds). frame_result raw mfds) ms
     \<and> stream (snd (recv_many (length ms) c)) = tail"
  using recv_many_stream [OF assms(1), of ms tail ftail] assms(2-) by (simp add: carries_def)

text \<open>A message whose body does not decode under its signature, then a ping.\<close>

definition bad_ping :: message where
  "bad_ping = ping\<lparr>msg_signature := ''s''\<rparr>"

lemma bad_ping_ok: "msg_ok bad_ping"
proof -
  have f: "header_fields bad_ping = [Struct [Byte FIELD_MEMBER, Variant (Str ''Ping'')],
      Struct [Byte FIELD_SIGNATURE, Variant (Sig ''s'')]]"
    by (simp add: header_fields_def opt_field_def bad_ping_def ping_def message_default_def)
  have "length (fields_bytes bad_ping) \<le> 100"
    unfolding fields_bytes_def f length_enc_simps by (simp add: pad_to_def)
  then show ?thesis
    by (auto simp: msg_ok_def bad_ping_def ping_def message_default_def utf8_str_def byte_of_def
        pad8_def MAX_MESSAGE_def)
qed

lemma bad_ping_frame:
  assumes "encode bad_ping 5 = Some raw"
  shows "valid_frame raw []"
    and "frame_result raw [] = Inl (Undecodable (ping\<lparr>msg_serial := 5, msg_signature := '''', msg_body := []\<rparr>)
           Truncated_value)"
proof -
  note h = parse_header_encode [OF bad_ping_ok assms]
  from h have "16 \<le> length raw" and "frame_len (take 16 raw) = Inr (length raw)"
    by (auto simp: parse_header_def split: if_splits)
  with h show "valid_frame raw []"
    by (simp add: valid_frame_def need_frame_def bad_ping_def ping_def message_default_def)
  have "decode_body ''s'' [7] False = Inl Truncated_value"
    by (simp add: decode_body_def split_signature_def complete_type_len.simps MAX_DEPTH_def
        basic_types_def read_value_def read_depth.simps alignment_def align_def read_basic_def
        read_u32_def take_bytes_def reader_new_def)
  with h show "frame_result raw []
      = Inl (Undecodable (ping\<lparr>msg_serial := 5, msg_signature := '''', msg_body := []\<rparr>) Truncated_value)"
    by (simp add: frame_result_def parse_def bad_ping_def ping_def message_default_def)
qed

lemma recv_stream_witness:
  "\<exists>c. fst (recv_many 2 c)
     = [Inl (Undecodable (ping\<lparr>msg_serial := 5, msg_signature := '''', msg_body := []\<rparr>) Truncated_value),
        Inr (ping\<lparr>msg_serial := 6\<rparr>, [])]"
proof -
  obtain raw1 where r1: "encode bad_ping 5 = Some raw1" using encode_eq [OF bad_ping_ok] by blast
  obtain raw2 where r2: "encode ping 6 = Some raw2" using encode_eq [OF ping_ok(1)] by blast
  have s: "ping\<lparr>msg_serial := 6, msg_sender := None\<rparr> = ping\<lparr>msg_serial := 6\<rparr>"
    and n: "unat (msg_unix_fds ping) = length ([] :: fd list)"
    by (simp_all add: ping_def message_default_def)
  note f1 = bad_ping_frame [OF r1]
  note f2 = encoded_frame [OF ping_ok(1) r2 ping_ok(2) n]
  let ?ms = "[(raw1, []), (raw2, [])] :: (byte list \<times> fd list) list"
  let ?c = "conn_new [Chunk (take 5 (raw1 @ raw2)) [], Chunk (drop 5 (raw1 @ raw2)) []]"
  have l: "16 \<le> length raw1" using valid_frame_length f1(1) .
  have "chunks_only (incoming ?c)" using l by (auto simp: chunks_only_def conn_new_def)
  moreover have "stream ?c = concat (map fst ?ms) @ []"
    using append_take_drop_id [of 5 "raw1 @ raw2"]
    by (simp add: stream_def conn_new_def del: append_take_drop_id take_append drop_append)
  moreover have "timely ?ms (rd_buf ?c) (rd_fds ?c) (incoming ?c)"
  proof -
    have "concat (map snd (take k ?ms)) = []" for k by (cases k; cases "k - 1"; simp)
    then show ?thesis by (simp only: timely_def) simp
  qed
  ultimately have "fst (recv_many (length ?ms) ?c) = map (\<lambda>(raw, mfds). frame_result raw mfds) ?ms"
    using recv_stream [of ?c ?ms "[]" "[]"] f1 f2 by (simp add: conn_new_def)
  then show ?thesis using f1 f2 s by (intro exI [of _ ?c]) (simp add: numeral_2_eq_2)
qed

section \<open>Waiting for a reply\<close>

text \<open>Whether reading gave a message, decodable or not.\<close>

fun took_message :: "conn_error + message \<times> fd list \<Rightarrow> bool" where
  "took_message (Inr _) = True"
| "took_message (Inl (Undecodable _ _)) = True"
| "took_message _ = False"

lemma take_message_shrinks:
  "take_message buf fds = Some (res, buf', fds') \<Longrightarrow>
     length buf' \<le> length buf \<and> (took_message res \<longrightarrow> length buf' < length buf)"
  by (auto simp: take_message_def Let_def dest!: frame_len_bounds
      split: if_splits sum.splits prod.splits)

lemma read_loop_shrinks:
  "read_loop buf fds is = (res, buf', fds', is') \<Longrightarrow>
     length (buf' @ items_bytes is') \<le> length (buf @ items_bytes is)
     \<and> (took_message res \<longrightarrow> length (buf' @ items_bytes is') < length (buf @ items_bytes is))"
proof (induction buf fds "is" rule: read_loop.induct)
  case (1 buf fds)
  then show ?case by (auto dest!: take_message_shrinks split: option.splits)
next
  case (2 buf fds i "is")
  show ?case
  proof (cases "take_message buf fds")
    case None
    with 2 show ?thesis by (fastforce split: recv_item.splits if_splits)
  next
    case (Some x)
    with "2.prems" show ?thesis by (auto dest!: take_message_shrinks split: prod.splits)
  qed
qed

lemma read_one_shrinks:
  "read_one c = (res, c') \<Longrightarrow> took_message res \<Longrightarrow> length (stream c') < length (stream c)"
  by (auto simp: read_one_def stream_def dest!: read_loop_shrinks split: prod.splits)

lemma read_one_backlog: "read_one c = (res, c') \<Longrightarrow> backlog c' = backlog c"
  by (auto simp: read_one_def split: prod.splits)

definition from_bus :: "message \<times> fd list \<Rightarrow> bool" where
  "from_bus m \<longleftrightarrow> msg_sender (fst m) = Some BUS_NAME"

definition answers :: "(nat \<Rightarrow> bool) \<Rightarrow> u32 \<Rightarrow> conn_error + message \<times> fd list \<Rightarrow> bool" where
  "answers late serial res \<longleftrightarrow>
     (case res of
        Inr (reply, _) \<Rightarrow> msg_reply_serial reply = Some serial \<and> msg_kind reply \<noteq> ERROR
      | Inl (Undecodable h _) \<Rightarrow> msg_reply_serial h = Some serial
      | Inl Timed_out \<Rightarrow> \<exists>k. late k
      | Inl _ \<Rightarrow> True)"

lemma read_loop_in_time: "fst (read_loop buf fds is) \<noteq> Inl Timed_out"
  by (induction buf fds "is" rule: read_loop.induct)
    (auto simp: take_message_def Let_def split: option.split recv_item.split if_splits sum.splits prod.splits)

lemma call_loop_answer:
  "length (stream c) < fuel \<Longrightarrow>
     \<exists>res c' new. call_loop fuel late serial c = (Some res, c') \<and> answers late serial res
       \<and> backlog c' = backlog c @ new \<and> (\<forall>m \<in> set new. from_bus m)"
proof (induction fuel arbitrary: c)
  case (Suc fuel)
  obtain res c1 where r: "read_one c = (res, c1)" by (cases "read_one c")
  note b = read_one_backlog [OF r]
  have IH: "\<exists>res c' new. call_loop fuel late serial c2 = (Some res, c') \<and> answers late serial res
       \<and> backlog c' = backlog c2 @ new \<and> (\<forall>m \<in> set new. from_bus m)"
    if "took_message res" "stream c2 = stream c1" for c2
    using Suc.IH [of c2] read_one_shrinks [OF r that(1)] that(2) Suc.prems by simp
  have t: "res \<noteq> Inl Timed_out"
    using r read_loop_in_time [of "rd_buf c" "rd_fds c" "incoming c"] by (auto simp: read_one_def split: prod.splits)
  show ?case
  proof (cases "late fuel")
    case False
    show ?thesis
    proof (cases res)
      case (Inr p)
      obtain reply fds where p: "p = (reply, fds)" by (cases p)
      let ?c = "c1\<lparr>backlog := backlog c1 @ [(reply, fds)]\<rparr>"
      have s: "stream ?c = stream c1" by (simp add: stream_def)
      show ?thesis
      proof (cases "msg_reply_serial reply = Some serial")
        case True
        with r Inr p False b show ?thesis by (auto simp: answers_def remote_error_def)
      next
        case other: False
        show ?thesis
        proof (cases "msg_sender reply = Some BUS_NAME")
          case True
          with IH [of ?c] s Inr obtain res' c' new where
            "call_loop fuel late serial ?c = (Some res', c')" "answers late serial res'"
            "backlog c' = backlog c @ (reply, fds) # new" "\<forall>m \<in> set new. from_bus m"
            by (auto simp: b)
          with r Inr p False other True show ?thesis
            by (intro exI [of _ res'] exI [of _ c'] exI [of _ "(reply, fds) # new"])
              (simp add: from_bus_def)
        qed (use IH [of c1] r Inr p False other b in auto)
      qed
    next
      case (Inl e)
      show ?thesis
      proof (cases e)
        case (Undecodable h d)
        show ?thesis
        proof (cases "msg_reply_serial h = Some serial")
          case True
          with r Inl Undecodable False b show ?thesis by (auto simp: answers_def)
        qed (use IH [of c1] r Inl Undecodable False b in auto)
      qed (use r Inl False b t in \<open>auto simp: answers_def\<close>)
    qed
  qed (auto simp: answers_def)
qed simp

text \<open>
  What reading gave concerns the call: a message, or the header of one that does not decode, that
  answers its serial; and the call's outcome then.
\<close>

fun concerns :: "u32 \<Rightarrow> conn_error + message \<times> fd list \<Rightarrow> bool" where
  "concerns serial (Inr (m, _)) \<longleftrightarrow> msg_reply_serial m = Some serial"
| "concerns serial (Inl (Undecodable h _)) \<longleftrightarrow> msg_reply_serial h = Some serial"
| "concerns serial (Inl _) \<longleftrightarrow> True"

fun outcome :: "conn_error + message \<times> fd list \<Rightarrow> conn_error + message \<times> fd list" where
  "outcome (Inr (reply, fds)) = (if msg_kind reply = ERROR then Inl (remote_error reply) else Inr (reply, fds))"
| "outcome (Inl e) = Inl e"

text \<open>The messages of the bus itself among some frames, in order.\<close>

definition bus_messages :: "(byte list \<times> fd list) list \<Rightarrow> (message \<times> fd list) list" where
  "bus_messages ms =
     filter from_bus (concat (map (\<lambda>(raw, mfds). case frame_result raw mfds of Inr m \<Rightarrow> [m] | Inl _ \<Rightarrow> []) ms))"

lemma call_loop_frames:
  assumes "carries (ms @ (raw, mfds) # rest) tail ftail c" and "length ms < fuel" and "\<forall>k. \<not> late k"
    and "\<forall>(raw, mfds) \<in> set ms. \<not> concerns serial (frame_result raw mfds)"
    and "concerns serial (frame_result raw mfds)"
  shows "\<exists>c'. call_loop fuel late serial c = (Some (outcome (frame_result raw mfds)), c')
     \<and> backlog c' = backlog c @ bus_messages ms \<and> carries rest tail ftail c'"
  using assms
proof (induction ms arbitrary: fuel c)
  case Nil
  then obtain k where k: "fuel = Suc k" by (cases fuel) auto
  from Nil.prems(1) obtain c' where "read_one c = (frame_result raw mfds, c')" "carries rest tail ftail c'"
    "backlog c' = backlog c" by (auto elim: read_one_frame)
  with Nil.prems(3,5) k show ?case
    by (cases "frame_result raw mfds" rule: outcome.cases)
      (auto simp: bus_messages_def split: conn_error.split)
next
  case (Cons m ms)
  obtain raw1 mfds1 where m: "m = (raw1, mfds1)" by (cases m)
  from Cons.prems(2) obtain k where k: "fuel = Suc k" "length ms < k" by (cases fuel) auto
  from Cons.prems(1) m obtain c1 where c1: "read_one c = (frame_result raw1 mfds1, c1)"
    "carries (ms @ (raw, mfds) # rest) tail ftail c1" "backlog c1 = backlog c"
    by (auto elim: read_one_frame)
  have n: "\<not> concerns serial (frame_result raw1 mfds1)" using Cons.prems(4) m by simp
  note IH = Cons.IH [OF _ k(2) Cons.prems(3) _ Cons.prems(5)]
  have later: "\<forall>(raw, mfds) \<in> set ms. \<not> concerns serial (frame_result raw mfds)" using Cons.prems(4) by simp
  show ?case
  proof (cases "frame_result raw1 mfds1" rule: outcome.cases)
    case (1 reply fds)
    let ?c = "if from_bus (reply, fds) then c1\<lparr>backlog := backlog c1 @ [(reply, fds)]\<rparr> else c1"
    have "call_loop fuel late serial c = call_loop k late serial ?c"
      using 1 n c1(1) k(1) Cons.prems(3) by (simp add: from_bus_def)
    moreover have "carries (ms @ (raw, mfds) # rest) tail ftail ?c" using c1(2) by simp
    moreover have "bus_messages (m # ms) = (if from_bus (reply, fds) then [(reply, fds)] else []) @ bus_messages ms"
      using 1 m by (simp add: bus_messages_def)
    ultimately show ?thesis using IH [of ?c] later c1(3) by (auto split: if_splits)
  next
    case (2 e)
    with n obtain h d where e: "e = Undecodable h d" "msg_reply_serial h \<noteq> Some serial" by (cases e) auto
    with 2 c1(1) k(1) Cons.prems(3) have "call_loop fuel late serial c = call_loop k late serial c1" by simp
    moreover have "bus_messages (m # ms) = bus_messages ms" using 2 m by (simp add: bus_messages_def)
    ultimately show ?thesis using IH [of c1] later c1(2,3) by simp
  qed
qed

lemma carries_length: "carries ms tail ftail c \<Longrightarrow> length ms \<le> length (stream c)"
proof -
  assume c: "carries ms tail ftail c"
  have "length ms \<le> length (concat (map fst ms))" if "\<forall>(raw, mfds) \<in> set ms. valid_frame raw mfds"
    using that by (induction ms) (auto dest!: valid_frame_length)
  with c show ?thesis by (simp add: carries_def)
qed

text \<open>
  C17. A call returns, on any input: with an error, or with the reply to its own serial, which is not an
  error message; an undecodable message ends it only as the answer to its serial, and the deadline only
  when it has passed. Of the other messages it meets it keeps for later, in order, only those the bus
  itself sent. And when the message goes out, the deadline does not pass, and the input brings the
  frames \<open>ms\<close>, which do not answer the serial, and then one that does, the call returns with that one
  (its error when it is an error message), keeps exactly the messages of the bus among \<open>ms\<close>, and leaves
  what comes after to be read.
\<close>

theorem call_answered:
  assumes "msg_ok (msg\<lparr>msg_unix_fds := 0\<rparr>)"
  shows "(\<exists>res c' new. call_fds takes late msg c = Some (Some res, c')
       \<and> answers late (next_serial c) res
       \<and> backlog c' = backlog c @ new \<and> (\<forall>m \<in> set new. from_bus m))
     \<and> (never_fails takes \<and> (\<forall>k. \<not> late k) \<and> carries (ms @ (raw, mfds) # rest) tail ftail c
         \<and> (\<forall>(raw, mfds) \<in> set ms. \<not> concerns (next_serial c) (frame_result raw mfds))
         \<and> concerns (next_serial c) (frame_result raw mfds) \<longrightarrow>
       (\<exists>c'. call_fds takes late msg c = Some (Some (outcome (frame_result raw mfds)), c')
          \<and> backlog c' = backlog c @ bus_messages ms \<and> carries rest tail ftail c'))"
proof -
  from encode_eq [OF assms, of "next_serial c"] obtain bytes
    where e: "encode (msg\<lparr>msg_unix_fds := 0\<rparr>) (next_serial c) = Some bytes" by blast
  obtain sent ok where l: "send_loop takes bytes [] = (sent, ok)" by fastforce
  let ?c = "c\<lparr>next_serial := next_serial c + 1, outgoing := outgoing c @ sent\<rparr>"
  have s: "send takes msg [] c = Some (if ok then Inr (next_serial c) else Inl Socket_error, ?c)"
    using e l by (simp add: send_def Let_def)
  have "\<exists>res c' new. call_fds takes late msg c = Some (Some res, c')
       \<and> answers late (next_serial c) res
       \<and> backlog c' = backlog c @ new \<and> (\<forall>m \<in> set new. from_bus m)"
    using call_loop_answer [of ?c "length (stream ?c) + 1" late "next_serial c"] s
    by (cases ok) (auto simp: call_fds_def answers_def)
  moreover have "\<exists>c'. call_fds takes late msg c = Some (Some (outcome (frame_result raw mfds)), c')
          \<and> backlog c' = backlog c @ bus_messages ms \<and> carries rest tail ftail c'"
    if h: "never_fails takes" "\<forall>k. \<not> late k" "carries (ms @ (raw, mfds) # rest) tail ftail c"
      "\<forall>(raw, mfds) \<in> set ms. \<not> concerns (next_serial c) (frame_result raw mfds)"
      "concerns (next_serial c) (frame_result raw mfds)"
  proof -
    have ok using send_loop_props [OF l] h(1) by blast
    have c: "carries (ms @ (raw, mfds) # rest) tail ftail ?c" using h(3) by (simp add: carries_def stream_def)
    have "length ms < length (stream ?c) + 1" using carries_length [OF c] by simp
    from call_loop_frames [OF c this h(2,4,5)] show ?thesis using s \<open>ok\<close> by (simp add: call_fds_def)
  qed
  ultimately show ?thesis by blast
qed

text \<open>Another message, then the reply.\<close>

definition pong :: message where
  "pong = ping\<lparr>msg_kind := METHOD_RETURN, msg_reply_serial := Some 1\<rparr>"

lemma pong_ok: "msg_ok pong" "\<exists>vs. msg_args pong = Inr vs"
proof -
  have f: "header_fields pong = [Struct [Byte FIELD_MEMBER, Variant (Str ''Ping'')],
      Struct [Byte FIELD_REPLY_SERIAL, Variant (U32 1)], Struct [Byte FIELD_SIGNATURE, Variant (Sig ''y'')]]"
    by (simp add: header_fields_def opt_field_def pong_def ping_def message_default_def)
  have "length (fields_bytes pong) \<le> 100"
    unfolding fields_bytes_def f length_enc_simps by (simp add: pad_to_def)
  then show "msg_ok pong"
    by (auto simp: msg_ok_def pong_def ping_def message_default_def utf8_str_def byte_of_def
        pad8_def MAX_MESSAGE_def)
  show "\<exists>vs. msg_args pong = Inr vs"
    using ping_ok(2) by (auto simp: pong_def msg_args_def)
qed

lemma call_answered_witness:
  "\<exists>raw1 raw2 c'. call_fds (\<lambda>_. Some 16) (\<lambda>_. False) ping (conn_new [Chunk (raw1 @ raw2) []])
       = Some (Some (Inr (pong\<lparr>msg_serial := 9\<rparr>, [])), c')
     \<and> backlog c' = [] \<and> stream c' = []"
proof -
  obtain raw1 where r1: "encode ping 8 = Some raw1" using encode_eq [OF ping_ok(1)] by blast
  obtain raw2 where r2: "encode pong 9 = Some raw2" using encode_eq [OF pong_ok(1)] by blast
  obtain vs where vs: "msg_args pong = Inr vs" using pong_ok(2) by blast
  have n: "unat (msg_unix_fds ping) = length ([] :: fd list)" "unat (msg_unix_fds pong) = length ([] :: fd list)"
    and p: "ping\<lparr>msg_unix_fds := 0\<rparr> = ping" "msg_reply_serial ping = None"
    and q: "pong\<lparr>msg_serial := 9, msg_sender := None\<rparr> = pong\<lparr>msg_serial := 9\<rparr>"
    by (simp_all add: pong_def ping_def message_default_def)
  note f1 = encoded_frame [OF ping_ok(1) r1 ping_ok(2) n(1)] and f2 = encoded_frame [OF pong_ok(1) r2 vs n(2)]
  let ?c = "conn_new [Chunk (raw1 @ raw2) []]"
  have "timely [(raw1, []), (raw2, [])] [] [] [Chunk (raw1 @ raw2) []]"
  proof -
    have "concat (map snd (take k [(raw1, []), (raw2, [])])) = ([] :: fd list)" for k
      by (cases k; cases "k - 1"; simp)
    then show ?thesis by (simp only: timely_def) simp
  qed
  then have "carries ([(raw1, [])] @ (raw2, []) # []) [] [] ?c"
    using f1 f2 by (simp add: carries_def conn_new_def chunks_only_def stream_def)
  with call_answered [of ping "\<lambda>_. Some 16" "\<lambda>_. False" ?c "[(raw1, [])]" raw2 "[]" "[]" "[]" "[]"] ping_ok(1) f1 f2
    never_fails_def [of "\<lambda>_. Some 16"]
  have "\<exists>c'. call_fds (\<lambda>_. Some 16) (\<lambda>_. False) ping ?c = Some (Some (Inr (pong\<lparr>msg_serial := 9\<rparr>, [])), c')
      \<and> backlog c' = [] \<and> carries [] [] [] c'"
    unfolding p(1) by (simp add: conn_new_def p q bus_messages_def from_bus_def pong_def ping_def message_default_def kind_defs)
  then show ?thesis by (auto simp: carries_def)
qed

section \<open>Escapes in addresses\<close>

lemma or_nibbles:
  assumes "c < 16"
  shows "or (push_bit 4 (of_nat a)) (of_nat c) = (of_nat (16 * a + c) :: byte)"
proof -
  have "\<not> bit (of_nat c :: byte) n" if "4 \<le> n" for n
  proof -
    have "c < 2 ^ n" using assms power_increasing [OF that, of "2::nat"] by simp
    then have "\<not> bit c n" by (simp add: bit_iff_odd)
    then show ?thesis by (simp add: bit_of_nat_iff)
  qed
  then have "push_bit 4 (of_nat a :: byte) + of_nat c = or (push_bit 4 (of_nat a)) (of_nat c)"
    by (intro disjunctive_add) (auto simp: bit_push_bit_iff not_le)
  then show ?thesis by (simp add: push_bit_eq_mult mult.commute)
qed

text \<open>
  Address escapes decode to what was escaped, whichever bytes were escaped, as long as
  \<open>%\<close> itself always is.
\<close>

theorem unescape_escaped:
  "\<not> safe (byte_of (CHR ''%'')) \<Longrightarrow> unescape (concat (map (escape_byte safe) bs)) = bs"
proof (induction bs)
  case (Cons b bs)
  show ?case
  proof (cases "safe b")
    case True
    with Cons have "char_of_byte b \<noteq> CHR ''%''" by (metis byte_of_char_of)
    with Cons True show ?thesis by (simp add: escape_byte_def)
  next
    case False
    have "or (push_bit 4 (of_nat (unat b div 16))) (of_nat (unat b mod 16)) = b"
      by (simp only: or_nibbles [OF unat_byte_nibbles(2)] nibbles_byte)
    with False Cons show ?thesis
      by (simp add: escape_byte_def percent_def unat_byte_nibbles)
  qed
qed simp

lemma unescape_escaped_witness: "unescape (concat (map (escape_byte (\<lambda>b. b = 65)) [65, 37, 10])) = [65, 37, 10]"
  by (rule unescape_escaped) (simp add: byte_of_def)

end
