(* ===== verification/Portal.thy ===== *)
theory Portal
  imports Dbus_Message
begin

text \<open>
  \<open>src/src/portal.rs\<close>: which calls and signals the D-Bus gateway forwards to the host, and how
  it rewrites what it forwards. All of it is pure in the source. A path or a URI is the string
  of its bytes.
\<close>

section \<open>Names and tables\<close>

definition PORTAL_NAME :: string where "PORTAL_NAME = ''org.freedesktop.portal.Desktop''"
definition PORTAL_PATH :: string where "PORTAL_PATH = ''/org/freedesktop/portal/desktop''"
definition NOTIFICATIONS_NAME :: string where "NOTIFICATIONS_NAME = ''org.freedesktop.Notifications''"
definition NOTIFICATIONS_PATH :: string where "NOTIFICATIONS_PATH = ''/org/freedesktop/Notifications''"
definition GATEWAY_NAMES :: "string list" where "GATEWAY_NAMES = [PORTAL_NAME, NOTIFICATIONS_NAME]"

definition REQUEST_PREFIX :: string where
  "REQUEST_PREFIX = ''/org/freedesktop/portal/desktop/request/''"

definition SESSION_PREFIX :: string where
  "SESSION_PREFIX = ''/org/freedesktop/portal/desktop/session/''"

definition METHODS :: "(string \<times> string list) list" where
  "METHODS =
     [(''org.freedesktop.portal.Account'', [''GetUserInformation'']),
      (''org.freedesktop.portal.Email'', [''ComposeEmail'']),
      (''org.freedesktop.portal.FileChooser'', [''OpenFile'', ''SaveFile'', ''SaveFiles'']),
      (''org.freedesktop.portal.GlobalShortcuts'',
        [''CreateSession'', ''BindShortcuts'', ''ListShortcuts'', ''ConfigureShortcuts'']),
      (''org.freedesktop.portal.Inhibit'', [''Inhibit'', ''CreateMonitor'', ''QueryEndResponse'']),
      (''org.freedesktop.portal.MemoryMonitor'', []),
      (''org.freedesktop.portal.NetworkMonitor'',
        [''GetAvailable'', ''GetMetered'', ''GetConnectivity'', ''GetStatus'', ''CanReach'']),
      (''org.freedesktop.portal.Notification'', [''AddNotification'', ''RemoveNotification'']),
      (''org.freedesktop.portal.PowerProfileMonitor'', []),
      (''org.freedesktop.portal.Print'', [''PreparePrint'', ''Print'']),
      (''org.freedesktop.portal.ProxyResolver'', [''Lookup'']),
      (''org.freedesktop.portal.Secret'', [''RetrieveSecret'']),
      (''org.freedesktop.portal.Settings'', [''ReadAll'', ''Read'', ''ReadOne'']),
      (''org.freedesktop.portal.Trash'', [''TrashFile'']),
      (''org.freedesktop.portal.OpenURI'',
        [''OpenURI'', ''OpenFile'', ''OpenDirectory'', ''SchemeSupported'']),
      (''org.freedesktop.portal.Screenshot'', [''Screenshot'', ''PickColor'']),
      (''org.freedesktop.portal.ScreenCast'',
        [''CreateSession'', ''SelectSources'', ''Start'', ''OpenPipeWireRemote'']),
      (''org.freedesktop.portal.Camera'', [''AccessCamera'', ''OpenPipeWireRemote'']),
      (''org.freedesktop.portal.Realtime'',
        [''MakeThreadRealtimeWithPID'', ''MakeThreadHighPriorityWithPID''])]"

definition UNIDENTIFIED :: "(string \<times> string list) list" where
  "UNIDENTIFIED =
     [(''org.freedesktop.portal.Settings'', [''ReadAll'', ''Read'', ''ReadOne'']),
      (''org.freedesktop.portal.OpenURI'', [''OpenURI'', ''SchemeSupported'']),
      (''org.freedesktop.portal.Realtime'',
        [''MakeThreadRealtimeWithPID'', ''MakeThreadHighPriorityWithPID'']),
      (''org.freedesktop.portal.Inhibit'', [''Inhibit'', ''CreateMonitor'', ''QueryEndResponse'']),
      (''org.freedesktop.portal.NetworkMonitor'',
        [''GetAvailable'', ''GetMetered'', ''GetConnectivity'', ''GetStatus'', ''CanReach'']),
      (''org.freedesktop.portal.MemoryMonitor'', []),
      (''org.freedesktop.portal.PowerProfileMonitor'', [])]"

definition NOTIFICATIONS_METHODS :: "string list" where
  "NOTIFICATIONS_METHODS = [''Notify'', ''CloseNotification'', ''GetCapabilities'', ''GetServerInformation'']"

definition activation_allowed :: "string \<Rightarrow> bool" where
  "activation_allowed name \<longleftrightarrow>
     name \<notin> set GATEWAY_NAMES
     \<and> name \<noteq> ''org.freedesktop.systemd1''
     \<and> \<not> starts_with name ''org.freedesktop.portal.''
     \<and> \<not> starts_with name ''org.freedesktop.impl.portal.''"

record policy =
  camera :: bool
  realtime :: bool
  uri_schemes :: "string list"

definition policy_default :: policy where
  "policy_default = \<lparr>camera = False, realtime = False, uri_schemes = [''http'', ''https'', ''mailto'']\<rparr>"

section \<open>Services and signals\<close>

definition service_for :: "string \<Rightarrow> string \<Rightarrow> string \<Rightarrow> string option" where
  "service_for dest gateway_unique path =
     (case find (\<lambda>n. n = dest) GATEWAY_NAMES of
        Some name \<Rightarrow> Some name
      | None \<Rightarrow>
          if dest \<noteq> gateway_unique then None
          else if path = PORTAL_PATH \<or> starts_with path REQUEST_PREFIX \<or> starts_with path SESSION_PREFIX
          then Some PORTAL_NAME
          else if path = NOTIFICATIONS_PATH then Some NOTIFICATIONS_NAME
          else None)"

definition signal_forwarded :: "string \<Rightarrow> string \<Rightarrow> bool" where
  "signal_forwarded path iface \<longleftrightarrow>
     (let portal_object = path = PORTAL_PATH \<or> starts_with path (PORTAL_PATH @ ''/'');
          notifications_object = path = NOTIFICATIONS_PATH
      in if iface = ''org.freedesktop.DBus.Properties'' then portal_object \<or> notifications_object
         else if iface = NOTIFICATIONS_NAME then notifications_object
         else portal_object \<and> starts_with iface ''org.freedesktop.portal.'')"

section \<open>Verdicts\<close>

datatype file_request = Open | Save | Screenshot

datatype reason = Text string | Uri_scheme string

datatype verdict =
    Forward "dvalue list option" "file_request option"
  | Deny reason
  | Missing string
  | Introspect

abbreviation forward :: verdict where
  "forward \<equiv> Forward None None"

abbreviation deny :: "string \<Rightarrow> verdict" where
  "deny why \<equiv> Deny (Text why)"

definition introspection :: "string \<Rightarrow> bool" where
  "introspection iface \<longleftrightarrow>
     iface = ''org.freedesktop.DBus.Introspectable'' \<or> iface = ''org.freedesktop.DBus.Peer''"

definition portal_methods :: "policy \<Rightarrow> bool \<Rightarrow> string \<Rightarrow> string list option" where
  "portal_methods policy identified iface =
     (let gated =
            (if iface = ''org.freedesktop.portal.Camera'' then camera policy
             else if iface = ''org.freedesktop.portal.Realtime'' then realtime policy
             else True);
          methods = (if identified then METHODS else UNIDENTIFIED)
      in if gated then map_option snd (find (\<lambda>(name, _). name = iface) methods) else None)"

text \<open>A list of plain file names: byte strings, with at most a final NUL.\<close>

fun bytes_value :: "dvalue list \<Rightarrow> byte list option" where
  "bytes_value [] = Some []"
| "bytes_value (Byte b # vs) = map_option ((#) b) (bytes_value vs)"
| "bytes_value (_ # vs) = None"

definition strip_nul :: "byte list \<Rightarrow> byte list" where
  "strip_nul bs = (if bs \<noteq> [] \<and> last bs = 0 then butlast bs else bs)"

definition plain_name :: "dvalue \<Rightarrow> bool" where
  "plain_name name =
     (case name of
        Array _ bytes \<Rightarrow>
          (case bytes_value bytes of
             None \<Rightarrow> False
           | Some bs \<Rightarrow>
               let n = strip_nul bs
               in n \<noteq> [] \<and> n \<noteq> bytes_of ''.'' \<and> n \<noteq> bytes_of ''..''
                  \<and> byte_of (CHR ''/'') \<notin> set n \<and> 0 \<notin> set n)
      | _ \<Rightarrow> False)"

definition plain_file_names :: "dvalue \<Rightarrow> bool" where
  "plain_file_names files =
     (case files of
        Array sig names \<Rightarrow> sig = ''ay'' \<and> list_all plain_name names
      | _ \<Rightarrow> False)"

text \<open>\<open>if let Some(x) = args.get_mut(i) { f(x) }\<close>.\<close>

definition update_arg :: "nat \<Rightarrow> (dvalue \<Rightarrow> dvalue) \<Rightarrow> dvalue list \<Rightarrow> dvalue list" where
  "update_arg i f args = (case nth_opt args i of None \<Rightarrow> args | Some x \<Rightarrow> args[i := f x])"

definition dict_removes :: "string list \<Rightarrow> dvalue \<Rightarrow> dvalue" where
  "dict_removes keys d = fold (\<lambda>k d. dict_remove d k) keys d"

text \<open>Sets a flag in the options at \<open>i\<close>, which must be a dictionary of the signature given.\<close>

definition force_option ::
  "nat \<Rightarrow> string \<Rightarrow> string \<Rightarrow> file_request option \<Rightarrow> message \<Rightarrow> dvalue list \<Rightarrow> verdict" where
  "force_option i sig key req msg args =
     (case nth_opt args i of
        Some (Dict k v es) \<Rightarrow>
          if msg_signature msg = sig then
            Forward (Some (args[i := dict_set (Dict k v es) key (Bool True)])) req
          else deny ''malformed arguments''
      | _ \<Rightarrow> deny ''malformed arguments'')"

definition uri_scheme :: "dvalue list \<Rightarrow> string" where
  "uri_scheme args =
     (let uri = (case Option.bind (nth_opt args 1) as_str of Some s \<Rightarrow> s | None \<Rightarrow> '''')
      in case split_once (CHR '':'') uri of Some (s, _) \<Rightarrow> to_ascii_lowercase s | None \<Rightarrow> '''')"

definition check_args :: "policy \<Rightarrow> message \<Rightarrow> string \<Rightarrow> string \<Rightarrow> dvalue list \<Rightarrow> verdict" where
  "check_args policy msg iface member args =
     (if (iface, member) = (''org.freedesktop.portal.OpenURI'', ''OpenURI'') then
        (let scheme = uri_scheme args
         in if scheme \<in> set (uri_schemes policy) then forward else Deny (Uri_scheme scheme))
      else if (iface, member) = (''org.freedesktop.portal.Screenshot'', ''Screenshot'') then
        force_option 1 ''sa{sv}'' ''interactive'' (Some Screenshot) msg args
      else if (iface, member) = (''org.freedesktop.portal.OpenURI'', ''OpenFile'') then
        force_option 2 ''sha{sv}'' ''ask'' None msg args
      else if (iface, member) = (''org.freedesktop.portal.ScreenCast'', ''SelectSources'') then
        Forward (Some (update_arg 1 (dict_removes [''persist_mode'', ''restore_token'']) args)) None
      else if iface = ''org.freedesktop.portal.Realtime'' then
        (if member = ''MakeThreadRealtimeWithPID'' \<and> msg_signature msg = ''ttu'' then forward
         else if member = ''MakeThreadHighPriorityWithPID'' \<and> msg_signature msg = ''tti'' then forward
         else deny ''malformed arguments'')
      else if iface = ''org.freedesktop.portal.FileChooser''
          \<and> member \<in> {''OpenFile'', ''SaveFile'', ''SaveFiles''} then
        (let args = update_arg 2 (dict_removes [''current_folder'', ''current_file'']) args
         in if (case Option.bind (nth_opt args 2) (\<lambda>opts. dict_get opts ''files'') of
                  Some f \<Rightarrow> \<not> plain_file_names f | None \<Rightarrow> False)
            then deny ''SaveFiles takes plain file names''
            else Forward (Some args) (Some (if member = ''OpenFile'' then Open else Save)))
      else forward)"

definition first_arg_str :: "message \<Rightarrow> string option" where
  "first_arg_str msg =
     (case msg_args msg of Inr (v # _) \<Rightarrow> as_str v | _ \<Rightarrow> None)"

definition check_portal :: "policy \<Rightarrow> bool \<Rightarrow> message \<Rightarrow> string \<Rightarrow> string \<Rightarrow> verdict" where
  "check_portal policy identified msg iface member =
     (if iface = ''org.freedesktop.DBus.Introspectable'' \<and> \<not> identified then Introspect
      else if introspection iface then forward
      else if iface = ''org.freedesktop.DBus.Properties'' then
        (case first_arg_str msg of
           Some t \<Rightarrow>
             if member \<in> {''Get'', ''GetAll''} \<and> portal_methods policy identified t \<noteq> None then forward
             else if member \<in> {''Get'', ''GetAll''} \<and> \<not> identified then Missing (''no interface '' @ t)
             else deny ''property access not allowed''
         | None \<Rightarrow> deny ''property access not allowed'')
      else case portal_methods policy identified iface of
        None \<Rightarrow>
          if \<not> identified then Missing (''no interface '' @ iface)
          else deny (iface @ '' is not forwarded'')
      | Some methods \<Rightarrow>
          if member \<notin> set methods then deny (iface @ ''.'' @ member @ '' is not forwarded'')
          else case msg_args msg of
            Inl _ \<Rightarrow> deny ''malformed arguments''
          | Inr args \<Rightarrow> check_args policy msg iface member args)"

definition strip_notify_paths :: "message \<Rightarrow> verdict" where
  "strip_notify_paths msg =
     (case msg_args msg of
        Inl _ \<Rightarrow> deny ''malformed arguments''
      | Inr args \<Rightarrow>
          Forward (Some (update_arg 6 (dict_removes [''image-path'', ''image_path'', ''sound-file'']) args)) None)"

definition or_default :: "string option \<Rightarrow> string" where
  "or_default x = (case x of None \<Rightarrow> '''' | Some s \<Rightarrow> s)"

definition check :: "policy \<Rightarrow> bool \<Rightarrow> message \<Rightarrow> verdict" where
  "check policy identified msg =
     (let dest = or_default (msg_destination msg);
          path = or_default (msg_path msg);
          iface = or_default (msg_interface msg);
          member = or_default (msg_member msg)
      in if dest = PORTAL_NAME \<and> path = PORTAL_PATH then
           check_portal policy identified msg iface member
         else if dest = PORTAL_NAME \<and> starts_with path REQUEST_PREFIX then
           (if (iface, member) = (''org.freedesktop.portal.Request'', ''Close'') then forward
            else deny ''only org.freedesktop.portal.Request.Close on request objects'')
         else if dest = PORTAL_NAME \<and> starts_with path SESSION_PREFIX then
           (if (iface, member) = (''org.freedesktop.portal.Session'', ''Close'') then forward
            else if iface = ''org.freedesktop.DBus.Properties'' \<and> member \<in> {''Get'', ''GetAll''} then forward
            else deny ''only org.freedesktop.portal.Session.Close on session objects'')
         else if dest = NOTIFICATIONS_NAME \<and> path = NOTIFICATIONS_PATH then
           (if iface = ''org.freedesktop.Notifications'' \<and> member = ''Notify'' then strip_notify_paths msg
            else if iface = ''org.freedesktop.Notifications'' \<and> member \<in> set NOTIFICATIONS_METHODS then forward
            else if iface = ''org.freedesktop.DBus.Properties'' \<and> (member = ''Get'' \<or> member = ''GetAll'') then forward
            else if introspection iface then forward
            else deny ''interface not allowed'')
         else deny ''object not allowed'')"

section \<open>Rewriting\<close>

text \<open>\<open>trim_start_matches(':')\<close> and \<open>replace('.', "_")\<close>.\<close>

definition escape_unique :: "string \<Rightarrow> string" where
  "escape_unique name =
     map (\<lambda>c. if c = CHR ''.'' then CHR ''_'' else c) (dropWhile (\<lambda>c. c = CHR '':'') name)"

fun swap_in :: "string list \<Rightarrow> string \<Rightarrow> string \<Rightarrow> string \<Rightarrow> string option" where
  "swap_in [] path from to = None"
| "swap_in (prefix # ps) path from to =
     (case strip_prefix prefix path of
        Some rest \<Rightarrow>
          (let (seg, tail) = (case split_once (CHR ''/'') rest of Some (s, t) \<Rightarrow> (s, t) | None \<Rightarrow> (rest, ''''))
           in if seg = from then
                Some (if tail = '''' then prefix @ to else prefix @ to @ ''/'' @ tail)
              else swap_in ps path from to)
      | None \<Rightarrow> swap_in ps path from to)"

definition swap_sender :: "string \<Rightarrow> string \<Rightarrow> string \<Rightarrow> string option" where
  "swap_sender path from to = swap_in [REQUEST_PREFIX, SESSION_PREFIX] path from to"

text \<open>The paths \<^const>\<open>map_paths\<close> visits: \<open>changed\<close> is set when one of them is swapped.\<close>

fun paths_of :: "dvalue \<Rightarrow> string list" where
  "paths_of (Path p) = [p]"
| "paths_of (Array _ items) = concat (map paths_of items)"
| "paths_of (Struct items) = concat (map paths_of items)"
| "paths_of (Dict _ _ entries) = concat (map (\<lambda>(a, b). paths_of a @ paths_of b) entries)"
| "paths_of (Variant v) = paths_of v"
| "paths_of _ = []"

definition rewrite_paths :: "message \<Rightarrow> string \<Rightarrow> string \<Rightarrow> message option" where
  "rewrite_paths msg from to =
     (let swap = (\<lambda>p. swap_sender p from to);
          msg = (case Option.bind (msg_path msg) swap of
                   Some p \<Rightarrow> msg\<lparr>msg_path := Some p\<rparr> | None \<Rightarrow> msg)
      in if CHR ''o'' \<notin> set (msg_signature msg) \<and> CHR ''v'' \<notin> set (msg_signature msg) then Some msg
         else case msg_args msg of
           Inl _ \<Rightarrow> Some msg
         | Inr args \<Rightarrow>
             if \<exists>a \<in> set args. \<exists>p \<in> set (paths_of a). swap p \<noteq> None
             then set_body (map (map_paths swap) args) msg
             else Some msg)"

section \<open>File URIs\<close>

text \<open>\<open>u8::from_str_radix(_, 16)\<close> on two characters: a leading \<open>+\<close> is accepted.\<close>

definition from_str_radix16 :: "char \<Rightarrow> char \<Rightarrow> byte option" where
  "from_str_radix16 h l =
     (if h = CHR ''+'' then map_option of_nat (hex_digit l)
      else case (hex_digit h, hex_digit l) of
        (Some a, Some b) \<Rightarrow> Some (of_nat (16 * a + b))
      | _ \<Rightarrow> None)"

fun uri_decode :: "string \<Rightarrow> byte list option" where
  "uri_decode [] = Some []"
| "uri_decode (c # cs) =
     (if c = CHR ''%'' then
        (case cs of
           h # l # rest \<Rightarrow>
             Option.bind (from_str_radix16 h l) (\<lambda>b. map_option ((#) b) (uri_decode rest))
         | _ \<Rightarrow> map_option ((#) (byte_of c)) (uri_decode cs))
      else map_option ((#) (byte_of c)) (uri_decode cs))"

definition uri_to_path :: "string \<Rightarrow> byte list option" where
  "uri_to_path uri =
     do {
       rest \<leftarrow> strip_prefix ''file://'' uri;
       let path = (case strip_prefix ''localhost'' rest of Some p \<Rightarrow> p | None \<Rightarrow> rest);
       if starts_with path ''/'' then uri_decode path else None
     }"

definition ascii_alphanumeric :: "byte \<Rightarrow> bool" where
  "ascii_alphanumeric b \<longleftrightarrow>
     (let n = unat b in 48 \<le> n \<and> n \<le> 57 \<or> 65 \<le> n \<and> n \<le> 90 \<or> 97 \<le> n \<and> n \<le> 122)"

definition path_to_uri :: "byte list \<Rightarrow> string" where
  "path_to_uri path =
     ''file://'' @
       concat (map (escape_byte (\<lambda>b. ascii_alphanumeric b \<or> b \<in> set (bytes_of ''/-_.~''))) path)"

section \<open>What is forwarded\<close>

text \<open>The call's destination, object, interface and member, as \<^const>\<open>check\<close> reads them.\<close>

definition call_to :: "message \<Rightarrow> string \<Rightarrow> string \<Rightarrow> bool" where
  "call_to msg dest path \<longleftrightarrow> or_default (msg_destination msg) = dest \<and> or_default (msg_path msg) = path"

definition call_is :: "message \<Rightarrow> string \<Rightarrow> string \<Rightarrow> bool" where
  "call_is msg iface member \<longleftrightarrow>
     or_default (msg_interface msg) = iface \<and> or_default (msg_member msg) = member"

definition portal_call :: "message \<Rightarrow> bool" where
  "portal_call msg \<longleftrightarrow> call_to msg PORTAL_NAME PORTAL_PATH"

text \<open>An interface on the connection's list whose device class, if it has one, is granted.\<close>

definition offered :: "policy \<Rightarrow> bool \<Rightarrow> string \<Rightarrow> string list \<Rightarrow> bool" where
  "offered policy identified iface methods \<longleftrightarrow>
     (iface, methods) \<in> set (if identified then METHODS else UNIDENTIFIED)
     \<and> (iface = ''org.freedesktop.portal.Camera'' \<longrightarrow> camera policy)
     \<and> (iface = ''org.freedesktop.portal.Realtime'' \<longrightarrow> realtime policy)"

lemma portal_methods_offered:
  assumes "portal_methods policy identified iface = Some methods"
  shows "offered policy identified iface methods"
proof -
  let ?l = "if identified then METHODS else UNIDENTIFIED"
  from assms obtain name where "find (\<lambda>(name, _). name = iface) ?l = Some (name, methods)"
    by (auto simp: portal_methods_def Let_def split: if_splits)
  then have "(name, methods) \<in> set ?l \<and> name = iface"
    by (auto dest: find_SomeD)
  moreover have "iface = ''org.freedesktop.portal.Camera'' \<longrightarrow> camera policy"
    "iface = ''org.freedesktop.portal.Realtime'' \<longrightarrow> realtime policy"
    using assms by (auto simp: portal_methods_def Let_def split: if_splits)
  ultimately show ?thesis by (auto simp: offered_def)
qed

lemma check_portal_forward:
  assumes "check_portal policy identified msg iface member = Forward args req"
  obtains (intro) "introspection iface" and "args = None" and "req = None"
      and "identified \<or> iface \<noteq> ''org.freedesktop.DBus.Introspectable''"
  | (props) t methods where "iface = ''org.freedesktop.DBus.Properties''" and "member \<in> {''Get'', ''GetAll''}"
      and "first_arg_str msg = Some t" and "offered policy identified t methods"
      and "args = None" and "req = None"
  | (meth) methods as where "offered policy identified iface methods" and "member \<in> set methods"
      and "msg_args msg = Inr as" and "check_args policy msg iface member as = Forward args req"
proof (cases "introspection iface \<or> iface = ''org.freedesktop.DBus.Introspectable'' \<and> \<not> identified")
  case True
  with assms show thesis by (intro intro) (auto simp: check_portal_def introspection_def split: if_splits)
next
  case nintro: False
  show thesis
  proof (cases "iface = ''org.freedesktop.DBus.Properties''")
    case True
    with assms nintro show thesis
      by (auto simp: check_portal_def introspection_def split: option.splits if_splits
          dest: portal_methods_offered intro!: props)
  next
    case False
    from nintro have "\<not> introspection iface"
      "\<not> (iface = ''org.freedesktop.DBus.Introspectable'' \<and> \<not> identified)" by simp_all
    with False assms obtain methods as where "portal_methods policy identified iface = Some methods"
      "member \<in> set methods" "msg_args msg = Inr as" "check_args policy msg iface member as = Forward args req"
      unfolding check_portal_def by (simp split: option.splits if_splits sum.splits)
    with portal_methods_offered show thesis by (intro meth)
  qed
qed

text \<open>
  C1. Nothing is forwarded that the tables do not list: a call the gateway forwards goes to
  the portal object (introspection where the connection may see it, reading the properties of
  an offered interface, or a listed method of an offered one), closes a request or a session
  or reads its properties, or is a listed call of the notification service.
\<close>

theorem check_forwards_only:
  assumes "check policy identified msg = Forward args req"
  shows "(portal_call msg \<and>
           (\<exists>iface member methods. call_is msg iface member \<and>
             (introspection iface \<and> (identified \<or> iface \<noteq> ''org.freedesktop.DBus.Introspectable'')
              \<or> iface = ''org.freedesktop.DBus.Properties'' \<and> member \<in> {''Get'', ''GetAll''}
                 \<and> (\<exists>t. first_arg_str msg = Some t \<and> offered policy identified t methods)
              \<or> offered policy identified iface methods \<and> member \<in> set methods)))
       \<or> (\<exists>path. call_to msg PORTAL_NAME path \<and>
            (starts_with path REQUEST_PREFIX \<and> call_is msg ''org.freedesktop.portal.Request'' ''Close''
             \<or> starts_with path SESSION_PREFIX
                \<and> (call_is msg ''org.freedesktop.portal.Session'' ''Close''
                   \<or> (\<exists>m \<in> {''Get'', ''GetAll''}. call_is msg ''org.freedesktop.DBus.Properties'' m))))
       \<or> (call_to msg NOTIFICATIONS_NAME NOTIFICATIONS_PATH \<and>
            (\<exists>iface member. call_is msg iface member \<and>
              (iface = ''org.freedesktop.Notifications'' \<and> member \<in> set NOTIFICATIONS_METHODS
               \<or> iface = ''org.freedesktop.DBus.Properties'' \<and> member \<in> {''Get'', ''GetAll''}
               \<or> introspection iface)))"
    (is "?portal \<or> ?objects \<or> ?notifications")
proof -
  let ?dest = "or_default (msg_destination msg)" and ?path = "or_default (msg_path msg)"
  let ?iface = "or_default (msg_interface msg)" and ?member = "or_default (msg_member msg)"
  have here: "call_to msg ?dest ?path" "call_is msg ?iface ?member"
    by (simp_all add: call_to_def call_is_def)
  consider (portal) "?dest = PORTAL_NAME" "?path = PORTAL_PATH"
    | (objects) "?dest = PORTAL_NAME" "?path \<noteq> PORTAL_PATH"
        "starts_with ?path REQUEST_PREFIX \<or> starts_with ?path SESSION_PREFIX"
    | (notifications) "?dest = NOTIFICATIONS_NAME" "?path = NOTIFICATIONS_PATH"
    using assms unfolding check_def Let_def by (auto split: if_splits)
  then show ?thesis
  proof cases
    case portal
    with assms have "check_portal policy identified msg ?iface ?member = Forward args req"
      by (simp add: check_def)
    then have ?portal
      by (cases rule: check_portal_forward)
        (use portal here in \<open>auto simp: portal_call_def call_to_def call_is_def\<close>)
    then show ?thesis ..
  next
    case objects
    with assms have ?objects
      unfolding check_def Let_def call_is_def call_to_def by (auto split: if_splits)
    then show ?thesis by blast
  next
    case notifications
    have "NOTIFICATIONS_NAME \<noteq> PORTAL_NAME" by (simp add: NOTIFICATIONS_NAME_def PORTAL_NAME_def)
    with assms notifications have ?notifications
      unfolding check_def Let_def call_is_def call_to_def
      by (auto simp: NOTIFICATIONS_METHODS_def split: if_splits)
    then show ?thesis by blast
  qed
qed

text \<open>A forwarded call of a portal method passed the check of its arguments.\<close>

lemma forwarded_method:
  assumes "check policy identified msg = Forward args req" and "portal_call msg"
    and "call_is msg iface member" and "\<not> introspection iface"
    and "iface \<noteq> ''org.freedesktop.DBus.Properties''"
  obtains methods as where "offered policy identified iface methods" and "member \<in> set methods"
    and "msg_args msg = Inr as" and "check_args policy msg iface member as = Forward args req"
proof -
  from assms(1-3) have "check_portal policy identified msg iface member = Forward args req"
    by (simp add: check_def portal_call_def call_to_def call_is_def)
  then show thesis by (cases rule: check_portal_forward) (use assms(4,5) that in auto)
qed

lemma not_introspection [simp]:
  "\<not> introspection (''org.freedesktop.portal.'' @ s)" "''org.freedesktop.portal.'' @ s \<noteq> ''org.freedesktop.DBus.Properties''"
  by (auto simp: introspection_def)

text \<open>An example call to the portal, with arguments that decode.\<close>

lemma example_call:
  assumes "list_all2 (wt 0) args ts" and "\<forall>t \<in> set ts. ty_ok 0 t"
    and "length (enc_seq enc args 0) < 2 ^ 32"
  obtains m where "portal_call m" and "call_is m iface member" and "msg_args m = Inr args"
    and "msg_signature m = show_tys ts"
proof -
  have "map signature args = map show_ty ts"
    using assms(1) by (induction args ts rule: list_all2_induct) (auto simp: wt_signature)
  with encode_body_wt [OF assms(1)] decode_body_enc [OF assms]
  obtain m where "method_call PORTAL_NAME PORTAL_PATH iface member args = Some m"
    and "msg_args m = Inr args" "msg_signature m = show_tys ts"
    by (auto simp: method_call_def set_body_def msg_args_def)
  then show thesis
    by (intro that [of m])
      (auto simp: portal_call_def call_to_def call_is_def or_default_def method_call_def set_body_def
        split: option.splits prod.splits bind_splits)
qed

text \<open>
  C16. A connection without a portal identity reaches, of the portals, only settings, opening
  links, realtime, inhibiting and the monitors (and the bus interfaces of the object itself,
  but not its introspection), and never a file dialog or a screenshot.
\<close>

theorem unidentified_reaches_only:
  assumes "check policy False msg = Forward args req" and "portal_call msg" and "call_is msg iface member"
  shows "req = None \<and>
    iface \<in> {''org.freedesktop.DBus.Peer'', ''org.freedesktop.DBus.Properties'',
      ''org.freedesktop.portal.Settings'', ''org.freedesktop.portal.OpenURI'',
      ''org.freedesktop.portal.Realtime'', ''org.freedesktop.portal.Inhibit'',
      ''org.freedesktop.portal.NetworkMonitor'', ''org.freedesktop.portal.MemoryMonitor'',
      ''org.freedesktop.portal.PowerProfileMonitor''}"
proof -
  from assms have "check_portal policy False msg iface member = Forward args req"
    by (simp add: check_def portal_call_def call_to_def call_is_def)
  then show ?thesis
  proof (cases rule: check_portal_forward)
    case (meth methods as)
    then have "(iface, methods) \<in> set UNIDENTIFIED" by (simp add: offered_def)
    with meth show ?thesis
      by (auto simp: UNIDENTIFIED_def check_args_def Let_def split: if_splits)
  qed (auto simp: introspection_def)
qed

lemma unidentified_reaches_only_witness:
  "\<exists>msg. check policy_default False msg = forward \<and> portal_call msg
     \<and> ''org.freedesktop.DBus.Peer'' \<in> {''org.freedesktop.DBus.Peer'', ''org.freedesktop.DBus.Properties'',
      ''org.freedesktop.portal.Settings'', ''org.freedesktop.portal.OpenURI'',
      ''org.freedesktop.portal.Realtime'', ''org.freedesktop.portal.Inhibit'',
      ''org.freedesktop.portal.NetworkMonitor'', ''org.freedesktop.portal.MemoryMonitor'',
      ''org.freedesktop.portal.PowerProfileMonitor''}"
proof -
  obtain m where m: "portal_call m" "call_is m ''org.freedesktop.DBus.Peer'' ''Ping''"
    using example_call [of "[]" "[]" "''org.freedesktop.DBus.Peer''" "''Ping''"] by auto
  then have "check policy_default False m = forward"
    by (simp add: check_def portal_call_def call_to_def call_is_def check_portal_def introspection_def)
  with m unidentified_reaches_only [OF this m] show ?thesis by blast
qed

lemma check_forwards_only_witness:
  "\<exists>msg. check policy_default True msg = forward
     \<and> (portal_call msg \<and>
           (\<exists>iface member methods. call_is msg iface member \<and>
             (introspection iface
              \<or> iface = ''org.freedesktop.DBus.Properties'' \<and> member \<in> {''Get'', ''GetAll''}
                 \<and> (\<exists>t. first_arg_str msg = Some t \<and> offered policy_default True t methods)
              \<or> offered policy_default True iface methods \<and> member \<in> set methods)))"
proof -
  obtain m where m: "portal_call m" "call_is m ''org.freedesktop.DBus.Peer'' ''Ping''"
    using example_call [of "[]" "[]" "''org.freedesktop.DBus.Peer''" "''Ping''"] by auto
  then have c: "check policy_default True m = forward"
    by (simp add: check_def portal_call_def call_to_def call_is_def check_portal_def introspection_def)
  have "\<not> call_to m NOTIFICATIONS_NAME NOTIFICATIONS_PATH"
    using m(1) by (auto simp: portal_call_def call_to_def PORTAL_NAME_def NOTIFICATIONS_NAME_def)
  moreover have "\<not> starts_with path REQUEST_PREFIX \<and> \<not> starts_with path SESSION_PREFIX"
    if "call_to m PORTAL_NAME path" for path
    using m(1) that by (auto simp: portal_call_def call_to_def starts_with_def PORTAL_PATH_def
        REQUEST_PREFIX_def SESSION_PREFIX_def)
  ultimately show ?thesis using check_forwards_only [OF c] m(1) c by (intro exI [of _ m]) auto
qed

section \<open>How forwarded arguments are changed\<close>

lemma dict_removes_wt: "wt d v t \<Longrightarrow> wt d (dict_removes keys v) t"
  unfolding dict_removes_def by (induction keys arbitrary: v) (auto intro: dict_remove_wt)

lemma update_arg_wt:
  assumes "list_all2 (wt 0) as ts" and "\<And>v t. wt 0 v t \<Longrightarrow> wt 0 (f v) t"
  shows "list_all2 (wt 0) (update_arg i f as) ts"
proof (cases "i < length as")
  case True
  with assms have "wt 0 (f (as ! i)) (ts ! i)" by (simp add: list_all2_nthD)
  with assms(1) have "list_all2 (wt 0) (as[i := f (as ! i)]) (ts[i := ts ! i])"
    by (intro list_all2_update_cong)
  with True show ?thesis by (simp add: update_arg_def nth_opt_def)
qed (use assms(1) in \<open>simp add: update_arg_def nth_opt_def\<close>)

definition options_ty :: ty where
  "options_ty = TArray (TEntry (TBasic (CHR ''s'')) (TBasic (CHR ''v'')))"

lemma show_tys_unique:
  "\<forall>t \<in> set ts. ty_ok 0 t \<Longrightarrow> \<forall>u \<in> set us. ty_ok 0 u \<Longrightarrow> show_tys ts = show_tys us \<Longrightarrow> ts = us"
  by (rule show_tys_inj) (auto intro: show_ty_inj)

lemma options_types:
  assumes "\<forall>t \<in> set ts. ty_ok 0 t"
  shows "show_tys ts = ''sa{sv}'' \<Longrightarrow> ts = [TBasic (CHR ''s''), options_ty]"
    and "show_tys ts = ''sha{sv}'' \<Longrightarrow> ts = [TBasic (CHR ''s''), TBasic (CHR ''h''), options_ty]"
  by (rule show_tys_unique [OF assms]; simp add: options_ty_def MAX_DEPTH_def basic_types_def)+

lemma force_option_wt:
  assumes "force_option i sig key req msg as = Forward (Some vs) req'"
    and "list_all2 (wt 0) as ts" and "msg_signature msg = show_tys ts"
    and "sig = show_tys ts \<Longrightarrow> i < length ts \<and> ts ! i = options_ty" and "utf8_valid (bytes_of key)"
  shows "list_all2 (wt 0) vs ts"
proof -
  from assms(1) obtain k v es where o: "i < length as" "as ! i = Dict k v es"
    and sig: "msg_signature msg = sig" and vs: "vs = as[i := dict_set (Dict k v es) key (Bool True)]"
    by (auto simp: force_option_def nth_opt_def split: option.splits dvalue.splits if_splits)
  with assms(3,4) have t: "i < length ts" "ts ! i = options_ty" by auto
  with assms(2) o have w: "wt 0 (Dict k v es) options_ty" by (metis list_all2_nthD)
  then have "k = ''s''" "v = ''v''" by (auto simp: options_ty_def wt_Dict)
  moreover have "wt (Suc 0) (Variant (Bool True)) (TBasic (CHR ''v''))"
    by (auto simp: MAX_DEPTH_def basic_types_def intro!: exI [of _ "TBasic (CHR ''b'')"])
  ultimately have "wt 0 (dict_set (Dict k v es) key (Bool True)) options_ty"
    using dict_set_wt [OF w _ _ assms(5)] by blast
  with assms(2) have "list_all2 (wt 0) vs (ts[i := options_ty])"
    unfolding vs by (intro list_all2_update_cong)
  with t show ?thesis by (metis list_update_id)
qed

lemma check_args_wt:
  assumes "check_args policy msg iface member as = Forward (Some vs) req"
    and "list_all2 (wt 0) as ts" and "msg_signature msg = show_tys ts" and "\<forall>t \<in> set ts. ty_ok 0 t"
  shows "list_all2 (wt 0) vs ts"
proof -
  from assms(1) consider
      "force_option 1 ''sa{sv}'' ''interactive'' (Some Screenshot) msg as = Forward (Some vs) req"
    | "force_option 2 ''sha{sv}'' ''ask'' None msg as = Forward (Some vs) req"
    | keys i where "vs = update_arg i (dict_removes keys) as"
    unfolding check_args_def by (auto simp: Let_def split: if_splits)
  then show ?thesis
  proof cases
    case 1
    then show ?thesis
      by (rule force_option_wt [OF _ assms(2,3)])
        (use options_types(1) [OF assms(4)] in \<open>auto intro!: utf8_valid_ascii simp: byte_of_def\<close>)
  next
    case 2
    then show ?thesis
      by (rule force_option_wt [OF _ assms(2,3)])
        (use options_types(2) [OF assms(4)] in \<open>auto intro!: utf8_valid_ascii simp: byte_of_def\<close>)
  next
    case 3
    then show ?thesis by (auto intro: update_arg_wt [OF assms(2)] dict_removes_wt)
  qed
qed

lemma check_forward_args:
  assumes "check policy identified msg = Forward (Some vs) req"
  obtains (portal_arm) as iface member where "call_is msg iface member" and "msg_args msg = Inr as"
      and "check_args policy msg iface member as = Forward (Some vs) req"
  | (notify) as where "msg_args msg = Inr as" and "req = None"
      and "vs = update_arg 6 (dict_removes [''image-path'', ''image_path'', ''sound-file'']) as"
proof -
  let ?iface = "or_default (msg_interface msg)" and ?member = "or_default (msg_member msg)"
  from assms consider "check_portal policy identified msg ?iface ?member = Forward (Some vs) req"
    | "strip_notify_paths msg = Forward (Some vs) req"
    unfolding check_def Let_def by (auto split: if_splits)
  then show thesis
  proof cases
    case 1
    then show thesis
    proof (cases rule: check_portal_forward)
      case (meth methods as)
      then show thesis by (intro portal_arm [of ?iface ?member as]) (simp_all add: call_is_def)
    qed auto
  next
    case 2
    then obtain as where "msg_args msg = Inr as" "req = None"
      "vs = update_arg 6 (dict_removes [''image-path'', ''image_path'', ''sound-file'']) as"
      by (auto simp: strip_notify_paths_def split: sum.splits)
    then show thesis by (intro notify)
  qed
qed

text \<open>The forwarded arguments are of the types of the caller's.\<close>

lemma forwarded_args_typed:
  assumes "check policy identified msg = Forward (Some vs) req"
  obtains ts where "\<forall>t \<in> set ts. ty_ok 0 t" and "msg_signature msg = show_tys ts" and "list_all2 (wt 0) vs ts"
proof -
  have args: "list_all2 (wt 0) vs ts" if "msg_args msg = Inr as" "msg_signature msg = show_tys ts"
    "\<forall>t \<in> set ts. ty_ok 0 t" "list_all2 (wt 0) as ts" for as ts
    using assms
  proof (cases rule: check_forward_args)
    case (portal_arm as2 iface member)
    with that check_args_wt [of policy msg iface member as vs req ts] show ?thesis by simp
  next
    case (notify as2)
    with that show ?thesis by (auto intro: update_arg_wt dict_removes_wt)
  qed
  obtain as where as: "msg_args msg = Inr as"
    using assms by (cases rule: check_forward_args)
  then obtain ts where ts: "\<forall>t \<in> set ts. ty_ok 0 t" "msg_signature msg = show_tys ts"
    "list_all2 (wt 0) as ts"
    unfolding msg_args_def by (rule decode_body_typed)
  with as args that show thesis by blast
qed

text \<open>
  C20. A changed call still has the signature it came with: the arguments the gateway forwards
  in place of the caller's encode, and under the caller's signature.
\<close>

theorem forwarded_args_encode:
  assumes "check policy identified msg = Forward (Some vs) req"
  shows "\<exists>body. encode_body vs = Some (msg_signature msg, body)"
proof -
  from assms obtain ts where "msg_signature msg = show_tys ts" "list_all2 (wt 0) vs ts"
    by (rule forwarded_args_typed)
  then show ?thesis using encode_body_wt by simp
qed

definition empty_options :: dvalue where
  "empty_options = Dict ''s'' ''v'' []"

lemma screenshot_call:
  obtains msg where "portal_call msg"
    and "call_is msg ''org.freedesktop.portal.Screenshot'' ''Screenshot''"
    and "msg_args msg = Inr [Str '''', empty_options]" and "msg_signature msg = ''sa{sv}''"
    and "check policy_default True msg
      = Forward (Some [Str '''', dict_set empty_options ''interactive'' (Bool True)]) (Some Screenshot)"
proof -
  have wt: "list_all2 (wt 0) [Str '''', empty_options] [TBasic (CHR ''s''), options_ty]"
    and ok: "\<forall>t \<in> set [TBasic (CHR ''s''), options_ty]. ty_ok 0 t"
    by (simp_all add: empty_options_def options_ty_def wt_Dict MAX_DEPTH_def basic_types_def)
  have len: "length (enc_seq enc [Str '''', empty_options] 0) < 2 ^ 32"
    by (simp add: empty_options_def length_enc length_enc_array pad_to_def Let_def)
  obtain m where m: "portal_call m" "call_is m ''org.freedesktop.portal.Screenshot'' ''Screenshot''"
    "msg_args m = Inr [Str '''', empty_options]" "msg_signature m = show_tys [TBasic (CHR ''s''), options_ty]"
    by (rule example_call [OF wt ok len])
  have p: "portal_methods policy_default True ''org.freedesktop.portal.Screenshot''
      = Some [''Screenshot'', ''PickColor'']"
    by (simp add: portal_methods_def METHODS_def)
  from m have "check policy_default True m
      = Forward (Some [Str '''', dict_set empty_options ''interactive'' (Bool True)]) (Some Screenshot)"
    by (simp add: check_def portal_call_def call_to_def call_is_def check_portal_def p introspection_def
        check_args_def force_option_def nth_opt_def empty_options_def options_ty_def)
  with m show thesis by (intro that) (simp_all add: options_ty_def)
qed

lemma forwarded_args_encode_witness:
  "\<exists>msg vs req body. check policy_default True msg = Forward (Some vs) req
     \<and> encode_body vs = Some (''sa{sv}'', body)"
proof -
  obtain msg where "msg_signature msg = ''sa{sv}''" and c: "check policy_default True msg
      = Forward (Some [Str '''', dict_set empty_options ''interactive'' (Bool True)]) (Some Screenshot)"
    by (rule screenshot_call)
  with forwarded_args_encode [OF c] show ?thesis by metis
qed

text \<open>The option a call must carry for the host to ask the user, and where.\<close>

definition consent_option :: "string \<Rightarrow> string \<Rightarrow> (nat \<times> string) option" where
  "consent_option iface member =
     (if iface = ''org.freedesktop.portal.Screenshot'' \<and> member = ''Screenshot''
      then Some (1, ''interactive'')
      else if iface = ''org.freedesktop.portal.OpenURI'' \<and> member = ''OpenFile''
      then Some (2, ''ask'')
      else None)"

text \<open>
  C9. A screenshot is only ever taken, and a file only ever opened with a host application,
  after asking the user: the forwarded call has the option set, and every other option and
  argument as the caller gave it.
\<close>

theorem consent_forced:
  assumes "check policy identified msg = Forward args req" and "portal_call msg"
    and "call_is msg iface member" and "consent_option iface member = Some (i, key)"
  shows "\<exists>as vs. msg_args msg = Inr as \<and> args = Some vs \<and> i < length as \<and> length vs = length as
     \<and> dict_get (vs ! i) key = Some (Bool True)
     \<and> (\<forall>k. k \<noteq> key \<longrightarrow> dict_get (vs ! i) k = dict_get (as ! i) k)
     \<and> (\<forall>j. j \<noteq> i \<longrightarrow> vs ! j = as ! j)"
proof -
  from assms(4) have "\<not> introspection iface" "iface \<noteq> ''org.freedesktop.DBus.Properties''"
    by (auto simp: consent_option_def introspection_def split: if_splits)
  from forwarded_method [OF assms(1-3) this] obtain as where as: "msg_args msg = Inr as"
    "check_args policy msg iface member as = Forward args req" by blast
  from assms(4) obtain sig where "check_args policy msg iface member as = force_option i sig key req msg as"
    using as(2) by (auto simp: consent_option_def check_args_def force_option_def
        split: if_splits option.splits dvalue.splits)
  with as(2) have "force_option i sig key req msg as = Forward args req" by simp
  then obtain k v es where i: "i < length as" "as ! i = Dict k v es"
    and vs: "args = Some (as[i := dict_set (Dict k v es) key (Bool True)])"
    by (auto simp: force_option_def nth_opt_def split: option.splits dvalue.splits if_splits)
  have d: "is_dict (Dict k v es)" by simp
  note dict.get_put [OF d, of key "Bool True"]
  with i vs as(1) show ?thesis by (simp del: dict_set.simps dict_get.simps)
qed

lemma consent_forced_witness:
  "\<exists>msg vs. check policy_default True msg = Forward (Some vs) (Some Screenshot)
     \<and> dict_get (vs ! 1) ''interactive'' = Some (Bool True)"
proof -
  obtain msg where p: "portal_call msg" and i: "call_is msg ''org.freedesktop.portal.Screenshot'' ''Screenshot''"
    and c: "check policy_default True msg
      = Forward (Some [Str '''', dict_set empty_options ''interactive'' (Bool True)]) (Some Screenshot)"
    by (rule screenshot_call)
  have "consent_option ''org.freedesktop.portal.Screenshot'' ''Screenshot'' = Some (1, ''interactive'')"
    by (simp add: consent_option_def)
  from consent_forced [OF c p i this]
  have "dict_get ([Str '''', dict_set empty_options ''interactive'' (Bool True)] ! 1) ''interactive''
      = Some (Bool True)" by blast
  with c show ?thesis by blast
qed

text \<open>The options that name the sandbox's own files or skip asking, and where they are.\<close>

definition removed_options :: "string \<Rightarrow> string \<Rightarrow> (nat \<times> string list) option" where
  "removed_options iface member =
     (if iface = ''org.freedesktop.portal.ScreenCast'' \<and> member = ''SelectSources''
      then Some (1, [''persist_mode'', ''restore_token''])
      else if iface = ''org.freedesktop.portal.FileChooser'' \<and> member \<in> {''OpenFile'', ''SaveFile'', ''SaveFiles''}
      then Some (2, [''current_folder'', ''current_file''])
      else None)"

lemma dict_removes_is_dict [simp]: "is_dict (dict_removes keys d) = is_dict d"
  unfolding dict_removes_def by (induction keys arbitrary: d) simp_all

lemma dict_removes_get:
  "is_dict d \<Longrightarrow> dict_get (dict_removes keys d) k = (if k \<in> set keys then None else dict_get d k)"
  unfolding dict_removes_def by (rule dict.get_dels)

lemma dict_get_not_dict: "\<not> is_dict d \<Longrightarrow> dict_get d k = None"
  by (cases d) auto

lemma update_arg_nth [simp]:
  "length (update_arg i f as) = length as"
  "i < length as \<Longrightarrow> update_arg i f as ! j = (if j = i then f (as ! i) else as ! j)"
  by (auto simp: update_arg_def nth_opt_def nth_list_update split: option.split)

lemma check_args_removed:
  assumes "removed_options iface member = Some (i, keys)"
    and "check_args policy msg iface member as = Forward args req"
  shows "args = Some (update_arg i (dict_removes keys) as)
     \<and> (iface = ''org.freedesktop.portal.FileChooser'' \<longrightarrow>
          (\<forall>f. i < length as \<longrightarrow> dict_get (update_arg i (dict_removes keys) as ! i) ''files'' = Some f
             \<longrightarrow> plain_file_names f))"
proof (cases "iface = ''org.freedesktop.portal.FileChooser''")
  case True
  with assms(1) have i: "i = 2" "keys = [''current_folder'', ''current_file'']"
    and m: "member \<in> {''OpenFile'', ''SaveFile'', ''SaveFiles''}"
    by (simp_all add: removed_options_def split: if_splits)
  let ?as = "update_arg i (dict_removes keys) as"
  from assms(2) True m i have "args = Some ?as"
    and "(case Option.bind (nth_opt ?as 2) (\<lambda>opts. dict_get opts ''files'') of
                  Some f \<Rightarrow> \<not> plain_file_names f | None \<Rightarrow> False) = False"
    unfolding check_args_def by (simp_all add: Let_def split: if_splits)
  then show ?thesis
    by (cases "i < length as"; cases "dict_get (?as ! i) ''files''") (simp_all add: i nth_opt_def)
next
  case False
  with assms show ?thesis
    by (auto simp: removed_options_def check_args_def split: if_splits)
qed

text \<open>
  C10. The host is never given the sandbox's paths or a remembered permission: a forwarded
  file-chooser call names no current folder or file, and the names it asks to save are plain
  file names; a forwarded screen cast carries no restore token. All else in the options stays.
\<close>

theorem options_removed:
  assumes "check policy identified msg = Forward args req" and "portal_call msg"
    and "call_is msg iface member" and "removed_options iface member = Some (i, keys)"
  shows "\<exists>as vs. msg_args msg = Inr as \<and> args = Some vs \<and> length vs = length as
     \<and> (i < length as \<longrightarrow>
          (\<forall>k. dict_get (vs ! i) k = (if k \<in> set keys then None else dict_get (as ! i) k))
          \<and> (\<forall>f. iface = ''org.freedesktop.portal.FileChooser'' \<longrightarrow>
               dict_get (vs ! i) ''files'' = Some f \<longrightarrow> plain_file_names f)
          \<and> (\<forall>j. j \<noteq> i \<longrightarrow> vs ! j = as ! j))"
proof -
  from assms(4) have "\<not> introspection iface" "iface \<noteq> ''org.freedesktop.DBus.Properties''"
    by (auto simp: removed_options_def introspection_def split: if_splits)
  from forwarded_method [OF assms(1-3) this] obtain as where as: "msg_args msg = Inr as"
    "check_args policy msg iface member as = Forward args req" by blast
  note r = check_args_removed [OF assms(4) as(2)]
  have "dict_get (dict_removes keys d) k = (if k \<in> set keys then None else dict_get d k)" for d k
    by (cases "is_dict d") (simp_all add: dict_removes_get dict_get_not_dict)
  with as(1) r show ?thesis by simp
qed

text \<open>A file chooser told to start in a folder of the sandbox.\<close>

lemma options_removed_witness:
  "\<exists>msg vs. check policy_default True msg = Forward (Some vs) (Some Open)
     \<and> msg_args msg = Inr [Str '''', Str '''', Dict ''s'' ''v'' [(Str ''current_folder'', Variant (Bool True))]]
     \<and> dict_get (vs ! 2) ''current_folder'' = None"
proof -
  let ?o = "Dict ''s'' ''v'' [(Str ''current_folder'', Variant (Bool True))]"
  let ?args = "[Str '''', Str '''', ?o]"
  let ?ts = "[TBasic (CHR ''s''), TBasic (CHR ''s''), options_ty]"
  let ?i = "''org.freedesktop.portal.FileChooser''"
  have wt: "list_all2 (wt 0) ?args ?ts" and ok: "\<forall>t \<in> set ?ts. ty_ok 0 t"
    by (auto simp: options_ty_def wt_Dict MAX_DEPTH_def basic_types_def byte_of_def
        intro!: exI [of _ "TBasic (CHR ''b'')"])
  have len: "length (enc_seq enc ?args 0) < 2 ^ 32"
    unfolding length_enc_simps by (simp add: pad_to_def)
  obtain m where m: "portal_call m" "call_is m ?i ''OpenFile''" "msg_args m = Inr ?args"
    by (rule example_call [OF wt ok len])
  have "portal_methods policy_default True ?i = Some [''OpenFile'', ''SaveFile'', ''SaveFiles'']"
    by (simp add: portal_methods_def METHODS_def)
  with m have c: "check policy_default True m
      = Forward (Some (update_arg 2 (dict_removes [''current_folder'', ''current_file'']) ?args)) (Some Open)"
    by (simp add: check_def portal_call_def call_to_def call_is_def check_portal_def introspection_def
        check_args_def Let_def update_arg_def dict_removes_def nth_opt_def)
  have "removed_options ?i ''OpenFile'' = Some (2, [''current_folder'', ''current_file''])"
    by (simp add: removed_options_def)
  from options_removed [OF c m(1,2) this] m(3) c show ?thesis by (intro exI conjI) auto
qed

text \<open>
  C22. A link is opened on the host exactly when it has a scheme, the text before its first colon,
  that is in lower case one the policy lists (the empty scheme is none): it is then forwarded as it
  came, and any other call of \<open>OpenURI\<close> is not forwarded, whether the client is identified or not.
\<close>

theorem opened_scheme_allowed:
  assumes "portal_call msg" and "call_is msg ''org.freedesktop.portal.OpenURI'' ''OpenURI''"
    and "'''' \<notin> set (uri_schemes policy)"
  shows "(check policy identified msg = forward \<longleftrightarrow>
      (\<exists>as v scheme rest. msg_args msg = Inr as \<and> nth_opt as 1 = Some v
         \<and> as_str v = Some (scheme @ CHR '':'' # rest) \<and> CHR '':'' \<notin> set scheme
         \<and> to_ascii_lowercase scheme \<in> set (uri_schemes policy)))
    \<and> (\<forall>args req. check policy identified msg = Forward args req \<longrightarrow> args = None \<and> req = None)"
proof -
  let ?i = "''org.freedesktop.portal.OpenURI''"
  have pm: "\<exists>ms. portal_methods policy identified ?i = Some ms \<and> ''OpenURI'' \<in> set ms"
    by (cases identified) (simp_all add: portal_methods_def METHODS_def UNIDENTIFIED_def)
  have c: "check policy identified msg =
      (case msg_args msg of Inl _ \<Rightarrow> deny ''malformed arguments''
       | Inr as \<Rightarrow> if uri_scheme as \<in> set (uri_schemes policy) then forward else Deny (Uri_scheme (uri_scheme as)))"
    using assms(1,2) pm
    by (auto simp: check_def portal_call_def call_to_def call_is_def check_portal_def introspection_def
        check_args_def Let_def split: sum.split)
  have scheme: "uri_scheme as \<in> set (uri_schemes policy) \<longleftrightarrow>
      (\<exists>v scheme rest. nth_opt as 1 = Some v \<and> as_str v = Some (scheme @ CHR '':'' # rest)
         \<and> CHR '':'' \<notin> set scheme \<and> to_ascii_lowercase scheme \<in> set (uri_schemes policy))" for as
  proof (cases "Option.bind (nth_opt as 1) as_str")
    case None
    with assms(3) show ?thesis by (auto simp: uri_scheme_def)
  next
    case (Some uri)
    then obtain v where v: "nth_opt as 1 = Some v" "as_str v = Some uri" by (auto simp: bind_eq_Some_conv)
    show ?thesis
    proof (cases "split_once (CHR '':'') uri")
      case None
      with v have "uri_scheme as = ''''" by (simp add: uri_scheme_def)
      moreover from None have "CHR '':'' \<notin> set uri" by (simp add: split_once_None)
      ultimately show ?thesis using assms(3) v by auto
    next
      case (Some st)
      then obtain a b where "st = (a, b)" "uri = a @ CHR '':'' # b" "CHR '':'' \<notin> set a"
        by (cases st) (auto simp: split_once_Some)
      then have us: "uri_scheme as = to_ascii_lowercase a"
        using v by (simp add: uri_scheme_def)
      show ?thesis
      proof
        assume "uri_scheme as \<in> set (uri_schemes policy)"
        with us v \<open>uri = a @ CHR '':'' # b\<close> \<open>CHR '':'' \<notin> set a\<close> show "\<exists>v scheme rest. nth_opt as 1 = Some v
            \<and> as_str v = Some (scheme @ CHR '':'' # rest)
            \<and> CHR '':'' \<notin> set scheme \<and> to_ascii_lowercase scheme \<in> set (uri_schemes policy)" by auto
      next
        assume "\<exists>v scheme rest. nth_opt as 1 = Some v \<and> as_str v = Some (scheme @ CHR '':'' # rest)
            \<and> CHR '':'' \<notin> set scheme \<and> to_ascii_lowercase scheme \<in> set (uri_schemes policy)"
        then obtain a' b' where "uri = a' @ CHR '':'' # b'" "CHR '':'' \<notin> set a'"
          "to_ascii_lowercase a' \<in> set (uri_schemes policy)" using v by auto
        then show "uri_scheme as \<in> set (uri_schemes policy)" using v by (simp add: uri_scheme_def)
      qed
    qed
  qed
  have "check policy identified msg = forward \<longleftrightarrow>
      (\<exists>as v scheme rest. msg_args msg = Inr as \<and> nth_opt as 1 = Some v
         \<and> as_str v = Some (scheme @ CHR '':'' # rest) \<and> CHR '':'' \<notin> set scheme
         \<and> to_ascii_lowercase scheme \<in> set (uri_schemes policy))"
    by (cases "msg_args msg") (auto simp: c scheme)
  moreover have "args = None \<and> req = None" if "check policy identified msg = Forward args req" for args req
    using that by (auto simp: c split: sum.splits if_splits)
  ultimately show ?thesis by blast
qed

lemma opened_scheme_allowed_witness:
  "\<exists>msg. portal_call msg \<and> msg_args msg = Inr [Str '''', Str ''HTTPS://a'', empty_options]
     \<and> check policy_default False msg = forward"
proof -
  let ?args = "[Str '''', Str ''HTTPS://a'', empty_options]"
  let ?ts = "[TBasic (CHR ''s''), TBasic (CHR ''s''), options_ty]"
  let ?i = "''org.freedesktop.portal.OpenURI''"
  have wt: "list_all2 (wt 0) ?args ?ts" and ok: "\<forall>t \<in> set ?ts. ty_ok 0 t"
    by (auto simp: empty_options_def options_ty_def wt_Dict MAX_DEPTH_def basic_types_def byte_of_def)
  have len: "length (enc_seq enc ?args 0) < 2 ^ 32"
    unfolding empty_options_def length_enc_simps by (simp add: pad_to_def)
  obtain m where m: "portal_call m" "call_is m ?i ''OpenURI''" "msg_args m = Inr ?args"
    by (rule example_call [OF wt ok len])
  have "to_ascii_lowercase ''HTTPS'' = ''https''" by code_simp
  then have "to_ascii_lowercase ''HTTPS'' \<in> set (uri_schemes policy_default)"
    by (simp add: policy_default_def)
  moreover have "nth_opt ?args 1 = Some (Str ''HTTPS://a'')" by (simp add: nth_opt_def)
  ultimately have "\<exists>as v scheme rest. msg_args m = Inr as \<and> nth_opt as 1 = Some v
      \<and> as_str v = Some (scheme @ CHR '':'' # rest) \<and> CHR '':'' \<notin> set scheme
      \<and> to_ascii_lowercase scheme \<in> set (uri_schemes policy_default)"
    by (intro exI [of _ ?args] exI [of _ "Str ''HTTPS://a''"] exI [of _ "''HTTPS''"] exI [of _ "''//a''"])
      (simp only: m as_str.simps append.simps list.set, simp)
  moreover have "'''' \<notin> set (uri_schemes policy_default)" by (simp add: policy_default_def)
  note opened_scheme_allowed [OF m(1,2) this, of False]
  ultimately have "check policy_default False m = forward" by (simp only: simp_thms)
  with m show ?thesis by blast
qed

section \<open>Request paths\<close>

lemma swap_sender_prefixed:
  assumes "prefix \<in> {REQUEST_PREFIX, SESSION_PREFIX}" and "CHR ''/'' \<notin> set from"
  shows "swap_sender (prefix @ from) from to = Some (prefix @ to)"
    and "swap_sender (prefix @ from @ CHR ''/'' # tail) from to
      = Some (if tail = '''' then prefix @ to else prefix @ to @ ''/'' @ tail)"
proof -
  have "split_once (CHR ''/'') from = None" using assms(2) by (simp add: split_once_None)
  moreover have "strip_prefix REQUEST_PREFIX (SESSION_PREFIX @ r) = None" for r
    by (simp add: strip_prefix_def REQUEST_PREFIX_def SESSION_PREFIX_def)
  ultimately show "swap_sender (prefix @ from) from to = Some (prefix @ to)"
    "swap_sender (prefix @ from @ CHR ''/'' # tail) from to
      = Some (if tail = '''' then prefix @ to else prefix @ to @ ''/'' @ tail)"
    using assms by (auto simp: swap_sender_def)
qed

lemma swap_sender_Some:
  assumes "swap_sender p from to = Some q"
  obtains (alone) prefix where "prefix \<in> {REQUEST_PREFIX, SESSION_PREFIX}" and "p = prefix @ from"
      and "q = prefix @ to" and "CHR ''/'' \<notin> set from"
  | (more) prefix tail where "prefix \<in> {REQUEST_PREFIX, SESSION_PREFIX}"
      and "p = prefix @ from @ CHR ''/'' # tail" and "CHR ''/'' \<notin> set from"
      and "q = (if tail = '''' then prefix @ to else prefix @ to @ ''/'' @ tail)"
proof -
  have "\<exists>prefix \<in> {REQUEST_PREFIX, SESSION_PREFIX}. CHR ''/'' \<notin> set from
      \<and> (p = prefix @ from \<and> q = prefix @ to
         \<or> (\<exists>tail. p = prefix @ from @ CHR ''/'' # tail
              \<and> q = (if tail = '''' then prefix @ to else prefix @ to @ ''/'' @ tail)))"
    if "swap_in ps p from to = Some q" "set ps \<subseteq> {REQUEST_PREFIX, SESSION_PREFIX}" for ps
    using that
  proof (induction ps)
    case (Cons prefix ps)
    show ?case
    proof (cases "strip_prefix prefix p")
      case None
      with Cons show ?thesis by simp
    next
      case (Some rest)
      then have p: "p = prefix @ rest" by (simp add: strip_prefix_eq)
      show ?thesis
      proof (cases "split_once (CHR ''/'') rest")
        case None
        then have n: "CHR ''/'' \<notin> set rest" by (simp add: split_once_None)
        from None Some have step: "swap_in (prefix # ps) p from to
            = (if rest = from then Some (prefix @ to) else swap_in ps p from to)" by simp
        show ?thesis
        proof (cases "rest = from")
          case True
          with step Cons.prems p n show ?thesis
            by (intro bexI [of _ prefix]) simp_all
        next
          case False
          with step Cons.prems
          have "swap_in ps p from to = Some q" "set ps \<subseteq> {REQUEST_PREFIX, SESSION_PREFIX}" by simp_all
          then show ?thesis by (rule Cons.IH)
        qed
      next
        case s: (Some st)
        obtain seg tail where st: "st = (seg, tail)" by (cases st)
        with s have rest: "rest = seg @ CHR ''/'' # tail" "CHR ''/'' \<notin> set seg"
          by (simp_all add: split_once_Some)
        from Some s st have step: "swap_in (prefix # ps) p from to
            = (if seg = from
               then Some (if tail = '''' then prefix @ to else prefix @ to @ ''/'' @ tail)
               else swap_in ps p from to)" by simp
        show ?thesis
        proof (cases "seg = from")
          case True
          with step Cons.prems p rest show ?thesis by (intro bexI [of _ prefix]) auto
        next
          case False
          with step Cons.prems have "swap_in ps p from to = Some q"
            "set ps \<subseteq> {REQUEST_PREFIX, SESSION_PREFIX}" by simp_all
          then show ?thesis by (rule Cons.IH)
        qed
      qed
    qed
  qed simp
  from this [of "[REQUEST_PREFIX, SESSION_PREFIX]"] assms
  have "\<exists>prefix \<in> {REQUEST_PREFIX, SESSION_PREFIX}. CHR ''/'' \<notin> set from
      \<and> (p = prefix @ from \<and> q = prefix @ to
         \<or> (\<exists>tail. p = prefix @ from @ CHR ''/'' # tail
              \<and> q = (if tail = '''' then prefix @ to else prefix @ to @ ''/'' @ tail)))"
    by (simp add: swap_sender_def)
  with alone more show thesis by blast
qed

text \<open>
  Swapping the sender of a request path is undone by swapping back, so a reply on the
  rewritten path reaches the caller's own: for every path a D-Bus object may have (none ends
  in a slash) and every sender segment of one element.
\<close>

theorem swap_sender_back:
  assumes "swap_sender p from to = Some q" and "CHR ''/'' \<notin> set to" and "p = [] \<or> last p \<noteq> CHR ''/''"
  shows "swap_sender q to from = Some p"
  using assms(1)
proof (cases rule: swap_sender_Some)
  case (alone prefix)
  with swap_sender_prefixed(1) [OF alone(1) assms(2)] show ?thesis by simp
next
  case (more prefix tail)
  then have "tail \<noteq> ''''" using assms(3) by auto
  with more swap_sender_prefixed(2) [OF more(1) assms(2), of tail "from"] show ?thesis by simp
qed

lemma swap_sender_back_witness:
  "swap_sender ''/org/freedesktop/portal/desktop/request/1_7/token'' ''1_7'' ''1_42''
     = Some ''/org/freedesktop/portal/desktop/request/1_42/token''
   \<and> swap_sender ''/org/freedesktop/portal/desktop/request/1_42/token'' ''1_42'' ''1_7''
     = Some ''/org/freedesktop/portal/desktop/request/1_7/token''"
proof -
  have s: "swap_sender ''/org/freedesktop/portal/desktop/request/1_7/token'' ''1_7'' ''1_42''
     = Some ''/org/freedesktop/portal/desktop/request/1_42/token''"
    by (simp add: swap_sender_def REQUEST_PREFIX_def strip_prefix_def)
  from swap_sender_back [OF s] s show ?thesis by simp
qed

section \<open>Rewritten messages\<close>

lemma swap_sender_utf8:
  assumes "swap_sender p from to = Some q" and p: "utf8_str p" and to: "utf8_str to"
  shows "utf8_str q"
  using assms(1)
proof (cases rule: swap_sender_Some)
  case (alone prefix)
  then have "utf8_valid (bytes_of prefix)"
    by (auto simp: REQUEST_PREFIX_def SESSION_PREFIX_def byte_of_def)
  with alone to show ?thesis by (simp add: utf8_str_def utf8_append)
next
  case (more prefix tail)
  then have "utf8_valid (bytes_of prefix)"
    by (auto simp: REQUEST_PREFIX_def SESSION_PREFIX_def byte_of_def)
  moreover have slash: "unat (byte_of (CHR ''/'')) < 128" by (simp add: byte_of_def)
  have "utf8_valid (bytes_of tail)"
    using p more(2) utf8_ascii_middle [OF _ slash, of "bytes_of (prefix @ from)" "bytes_of tail"]
    by (simp add: utf8_str_def)
  then have "utf8_valid (bytes_of (''/'' @ tail))" using slash by simp
  ultimately show ?thesis using more(4) to by (auto simp: utf8_str_def intro!: utf8_append)
qed

lemma list_all2_inE:
  assumes "x \<in> set xs" and "list_all2 P xs ys"
  obtains y where "y \<in> set ys" and "P x y"
  using assms(2,1) that by (induction xs ys rule: list_all2_induct) auto

text \<open>Values whose type has no path and no variant have no path in them.\<close>

lemma concat_nil: "(\<And>x. x \<in> set xs \<Longrightarrow> f x = []) \<Longrightarrow> concat (map f xs) = []"
  by auto

lemma no_paths:
  "wt d v t \<Longrightarrow> CHR ''o'' \<notin> set (show_ty t) \<Longrightarrow> CHR ''v'' \<notin> set (show_ty t) \<Longrightarrow> paths_of v = []"
proof (induction v arbitrary: d t)
  case (Array e items)
  then obtain te where "t = TArray te" "\<forall>i \<in> set items. wt (Suc d) i te"
    by (auto simp: wt_Array)
  with Array show ?case by auto
next
  case (Dict k v es)
  then obtain tk tv where t: "t = TArray (TEntry tk tv)"
    "\<forall>(a, b) \<in> set es. wt (Suc d) a tk \<and> wt (Suc d) b tv"
    by (auto simp: wt_Dict)
  have "paths_of a = [] \<and> paths_of b = []" if e: "(a, b) \<in> set es" for a b
    using Dict.IH(1) [OF e, of a "Suc d" tk] Dict.IH(2) [OF e, of b "Suc d" tv] t e Dict.prems(2,3)
    by auto
  then show ?case by auto
next
  case (Struct vs)
  then obtain ts where t: "t = TStruct ts" "list_all2 (wt (Suc d)) vs ts"
    by (auto simp: wt_Struct)
  have "paths_of v = []" if v: "v \<in> set vs" for v
  proof -
    from v t(2) obtain u where u: "u \<in> set ts" "wt (Suc d) v u" by (rule list_all2_inE)
    with Struct.prems(2,3) t(1) have "CHR ''o'' \<notin> set (show_ty u)" "CHR ''v'' \<notin> set (show_ty u)"
      by simp_all
    with u(2) show ?thesis by (rule Struct.IH [OF v])
  qed
  then show ?case by auto
qed auto

lemma map_paths_id: "(\<And>p. p \<in> set (paths_of v) \<Longrightarrow> f p = None) \<Longrightarrow> map_paths f v = v"
proof (induction v)
  case (Dict k v es)
  have "(map_paths f a, map_paths f b) = (a, b)" if e: "(a, b) \<in> set es" for a b
    using Dict.IH(1) [OF e, of a] Dict.IH(2) [OF e, of b] Dict.prems e by fastforce
  then show ?case by (auto intro!: map_idI)
qed (auto intro!: map_idI)

lemma map_paths_list_wt:
  assumes "list_all2 (wt 0) as ts" and "\<And>p q. f p = Some q \<Longrightarrow> utf8_str p \<Longrightarrow> utf8_str q"
  shows "list_all2 (wt 0) (map (map_paths f) as) ts"
proof -
  have "wt 0 (map_paths f v) t" if "wt 0 v t" for v t
    using map_paths_wt [of f 0 v t] assms(2) that by (simp add: utf8_str_def)
  with assms(1) show ?thesis by (auto simp: list_all2_map1 intro: list_all2_mono)
qed

lemma rewrite_paths_swapped:
  assumes "msg_args msg = Inr as" and "utf8_str to"
    and "length (enc_seq enc (map (map_paths (\<lambda>p. swap_sender p from to)) as) 0) < 2 ^ 32"
  shows "\<exists>msg'. rewrite_paths msg from to = Some msg'
     \<and> msg_args msg' = Inr (map (map_paths (\<lambda>p. swap_sender p from to)) as)
     \<and> msg' = msg\<lparr>msg_path := (case Option.bind (msg_path msg) (\<lambda>p. swap_sender p from to) of
                                Some p \<Rightarrow> Some p | None \<Rightarrow> msg_path msg), msg_body := msg_body msg'\<rparr>"
proof -
  let ?swap = "\<lambda>p. swap_sender p from to"
  let ?path = "case Option.bind (msg_path msg) ?swap of Some p \<Rightarrow> Some p | None \<Rightarrow> msg_path msg"
  let ?m = "msg\<lparr>msg_path := ?path\<rparr>"
  have m: "(case Option.bind (msg_path msg) ?swap of
      Some p \<Rightarrow> msg\<lparr>msg_path := Some p\<rparr> | None \<Rightarrow> msg) = ?m"
    by (simp split: option.split)
  have args: "msg_args ?m = Inr as" using assms(1) by (simp add: msg_args_def)
  obtain ts where ts: "\<forall>t \<in> set ts. ty_ok 0 t" "msg_signature msg = show_tys ts" "list_all2 (wt 0) as ts"
    using assms(1) unfolding msg_args_def by (rule decode_body_typed)
  have same: "map (map_paths ?swap) as = as"
    if none: "\<not> (\<exists>a \<in> set as. \<exists>p \<in> set (paths_of a). ?swap p \<noteq> None)"
    using none by (auto intro!: map_idI map_paths_id)
  have rw: "rewrite_paths msg from to
      = (if CHR ''o'' \<notin> set (msg_signature msg) \<and> CHR ''v'' \<notin> set (msg_signature msg) then Some ?m
         else if \<exists>a \<in> set as. \<exists>p \<in> set (paths_of a). ?swap p \<noteq> None
              then set_body (map (map_paths ?swap) as) ?m else Some ?m)"
    using args by (simp add: rewrite_paths_def Let_def m)
  show ?thesis
  proof (cases "\<exists>a \<in> set as. \<exists>p \<in> set (paths_of a). ?swap p \<noteq> None")
    case False
    with rw same args show ?thesis by (intro exI [of _ ?m]) auto
  next
    case True
    have "CHR ''o'' \<in> set (msg_signature msg) \<or> CHR ''v'' \<in> set (msg_signature msg)"
    proof (rule ccontr)
      assume n: "\<not> ?thesis"
      from True obtain a where a: "a \<in> set as" "paths_of a \<noteq> []" by fastforce
      from a(1) ts(3) obtain t where t: "t \<in> set ts" "wt 0 a t" by (rule list_all2_inE)
      with n ts(2) have "CHR ''o'' \<notin> set (show_ty t)" "CHR ''v'' \<notin> set (show_ty t)" by simp_all
      with t(2) have "paths_of a = []" by (rule no_paths)
      with a show False by simp
    qed
    with True rw have "rewrite_paths msg from to = set_body (map (map_paths ?swap) as) ?m" by auto
    moreover have wt: "list_all2 (wt 0) (map (map_paths ?swap) as) ts"
    proof (rule map_paths_list_wt [OF ts(3)])
      show "utf8_str q" if "swap_sender p from to = Some q" "utf8_str p" for p q
        using that assms(2) by (rule swap_sender_utf8)
    qed
    note encode_body_wt [OF wt] decode_body_enc [OF wt ts(1) assms(3)]
    ultimately show ?thesis using ts(2) by (auto simp: set_body_def msg_args_def)
  qed
qed


definition example_path :: "string \<Rightarrow> string" where
  "example_path s = ''/org/freedesktop/portal/desktop/request/'' @ s @ ''/token''"


section \<open>File URIs round trip\<close>

lemma from_str_radix16_percent:
  "from_str_radix16 (hex_char (unat b div 16)) (hex_char (unat b mod 16)) = Some b"
  using nibbles_byte [of b] by (simp add: from_str_radix16_def unat_byte_nibbles)

lemma uri_decode_escaped:
  "\<not> safe (byte_of (CHR ''%'')) \<Longrightarrow> uri_decode (concat (map (escape_byte safe) bs)) = Some bs"
proof (induction bs)
  case (Cons b bs)
  show ?case
  proof (cases "safe b")
    case True
    with Cons have "char_of_byte b \<noteq> CHR ''%''" by (metis byte_of_char_of)
    with Cons True show ?thesis by (simp add: escape_byte_def)
  next
    case False
    with Cons show ?thesis by (simp add: escape_byte_def percent_def from_str_radix16_percent)
  qed
qed simp

text \<open>
  C23. A path shown to the host as a URI and read back from it is the same path, whatever bytes
  it has.
\<close>

theorem uri_path_roundtrip:
  "uri_to_path (path_to_uri (byte_of (CHR ''/'') # path)) = Some (byte_of (CHR ''/'') # path)"
proof -
  let ?safe = "\<lambda>b. ascii_alphanumeric b \<or> b \<in> set (bytes_of ''/-_.~'')"
  have ns: "\<not> ?safe (byte_of (CHR ''%''))"
    by (simp add: ascii_alphanumeric_def byte_of_def Let_def)
  have "escape_byte ?safe (byte_of (CHR ''/'')) = ''/''" by (simp add: escape_byte_def)
  then have e: "concat (map (escape_byte ?safe) (byte_of (CHR ''/'') # path))
      = ''/'' @ concat (map (escape_byte ?safe) path)" by simp
  have "strip_prefix ''localhost'' (''/'' @ s) = None" for s
    by (simp add: strip_prefix_def)
  with e show ?thesis
    using uri_decode_escaped [of ?safe "byte_of (CHR ''/'') # path", OF ns]
    unfolding uri_to_path_def path_to_uri_def
    by (simp only: e strip_prefix_append) (simp add: starts_with_def)
qed

text \<open>\<open>from_str_radix\<close> takes a sign, so an escape with a plus is decoded, not refused.\<close>

lemma uri_plus_escape: "uri_to_path ''file:///a%+1'' = Some (bytes_of ''/a'' @ [1])"
  by (simp add: uri_to_path_def strip_prefix_def starts_with_def from_str_radix16_def hex_digit_def)


end
