(* ===== verification/Btree.thy ===== *)
theory Btree
  imports Prelude "HOL-Library.List_Lexorder" "HOL-Library.Char_ord"
begin

text \<open>
  Rust's \<open>BTreeMap\<close>, and the objects of \<open>serde_json\<close> built on it: an
  association list in increasing key order, so that iterating it is iterating the list.
  Strings compare by their bytes, as \<open>str\<close> does.
\<close>

type_synonym ('k, 'v) btree = "('k \<times> 'v) list"

definition bt_ok :: "('k::linorder, 'v) btree \<Rightarrow> bool" where
  "bt_ok m \<longleftrightarrow> sorted_wrt (<) (map fst m)"

abbreviation bt_get :: "('k, 'v) btree \<Rightarrow> 'k \<Rightarrow> 'v option" where
  "bt_get m k \<equiv> map_of m k"

definition bt_has :: "('k, 'v) btree \<Rightarrow> 'k \<Rightarrow> bool" where
  "bt_has m k \<longleftrightarrow> bt_get m k \<noteq> None"

fun bt_insert :: "('k::linorder, 'v) btree \<Rightarrow> 'k \<Rightarrow> 'v \<Rightarrow> ('k, 'v) btree" where
  "bt_insert [] k v = [(k, v)]"
| "bt_insert ((k', v') # m) k v =
     (if k' < k then (k', v') # bt_insert m k v
      else if k' = k then (k, v) # m
      else (k, v) # (k', v') # m)"

definition bt_remove :: "('k, 'v) btree \<Rightarrow> 'k \<Rightarrow> ('k, 'v) btree" where
  "bt_remove m k = filter (\<lambda>e. fst e \<noteq> k) m"

text \<open>\<open>collect\<close> into a map: later entries win.\<close>

definition bt_collect :: "('k::linorder \<times> 'v) list \<Rightarrow> ('k, 'v) btree" where
  "bt_collect es = fold (\<lambda>e m. bt_insert m (fst e) (snd e)) es []"

section \<open>The map is ordered and behaves like a map\<close>

lemma keys_bt_insert: "fst ` set (bt_insert m k v) = insert k (fst ` set m)"
  by (induction m k v rule: bt_insert.induct) auto

lemma bt_ok_Nil [simp]: "bt_ok []"
  by (simp add: bt_ok_def)

lemma bt_ok_Cons [simp]:
  "bt_ok (e # m) \<longleftrightarrow> (\<forall>k \<in> fst ` set m. fst e < k) \<and> bt_ok m"
  by (auto simp: bt_ok_def)

lemma bt_ok_insert [simp]: "bt_ok m \<Longrightarrow> bt_ok (bt_insert m k v)"
proof (induction m k v rule: bt_insert.induct)
  case (2 k' v' m k v)
  then show ?case by (auto simp: keys_bt_insert)
qed simp

lemma bt_insert_twice [simp]: "bt_insert (bt_insert m k v) k v' = bt_insert m k v'"
  by (induction m k v rule: bt_insert.induct) auto

lemma bt_ok_distinct: "bt_ok m \<Longrightarrow> distinct (map fst m)"
  by (simp add: bt_ok_def strict_sorted_iff)

lemma bt_ok_remove [simp]: "bt_ok m \<Longrightarrow> bt_ok (bt_remove m k)"
  by (induction m) (auto simp: bt_remove_def)

lemma bt_get_insert:
  "bt_ok m \<Longrightarrow> bt_get (bt_insert m k v) k' = (if k' = k then Some v else bt_get m k')"
proof (induction m k v rule: bt_insert.induct)
  case (2 k1 v1 m k v)
  then show ?case by auto
qed simp

lemma bt_get_remove: "bt_get (bt_remove m k) k' = (if k' = k then None else bt_get m k')"
  by (induction m) (auto simp: bt_remove_def)

interpretation btree: keyed_store bt_ok bt_get bt_insert bt_remove
  by unfold_locales (simp_all add: bt_get_insert bt_get_remove)

section \<open>Building a map in key order\<close>

lemma bt_insert_last:
  "(\<And>k'. k' \<in> fst ` set m \<Longrightarrow> k' < k) \<Longrightarrow> bt_insert m k v = m @ [(k, v)]"
  by (induction m) auto

lemma bt_ok_append:
  "bt_ok (m @ m') \<longleftrightarrow> bt_ok m \<and> bt_ok m' \<and> (\<forall>a \<in> fst ` set m. \<forall>b \<in> fst ` set m'. a < b)"
  by (induction m) auto

lemma bt_insert_in_order: "bt_ok (m @ (k, v) # m') \<Longrightarrow> bt_insert m k v = m @ [(k, v)]"
  by (rule bt_insert_last) (auto simp: bt_ok_append)

lemma fold_bt_insert:
  "bt_ok (m @ es) \<Longrightarrow> fold (\<lambda>e m. bt_insert m (fst e) (snd e)) es m = m @ es"
proof (induction es arbitrary: m)
  case (Cons e es)
  obtain k v where e: "e = (k, v)" by (cases e)
  have "bt_insert m k v = m @ [e]" using Cons.prems bt_insert_in_order by (simp add: e)
  then show ?case using Cons.IH [of "m @ [e]"] Cons.prems by (simp add: e)
qed simp

lemma bt_collect_ok [simp]: "bt_ok es \<Longrightarrow> bt_collect es = es"
  by (simp add: bt_collect_def fold_bt_insert)

lemma bt_collect_sorted [simp]: "bt_ok (bt_collect es)"
proof -
  have "bt_ok m \<Longrightarrow> bt_ok (fold (\<lambda>e m. bt_insert m (fst e) (snd e)) es m)" for m
    by (induction es arbitrary: m) auto
  then show ?thesis by (simp add: bt_collect_def)
qed

lemma bt_get_mem: "bt_ok m \<Longrightarrow> bt_get m k = Some v \<longleftrightarrow> (k, v) \<in> set m"
  by (simp add: bt_ok_distinct)

lemma set_bt_insert:
  "bt_ok m \<Longrightarrow> set (bt_insert m k v) = insert (k, v) {e \<in> set m. fst e \<noteq> k}"
proof (induction m k v rule: bt_insert.induct)
  case (2 k' v' m k v)
  then show ?case by (auto dest: less_imp_neq)
qed simp

lemma bt_ok_map_values [simp]: "bt_ok (map (\<lambda>(k, v). (k, f k v)) m) \<longleftrightarrow> bt_ok m"
proof -
  have "fst \<circ> (\<lambda>(k, v). (k, f k v)) = fst" by auto
  then show ?thesis by (simp add: bt_ok_def)
qed

lemma bt_ok_filter [simp]: "bt_ok m \<Longrightarrow> bt_ok (filter P m)"
  by (induction m) auto

lemma map_of_map_values: "map_of (map (\<lambda>(k, v). (k, f k v)) m) k = map_option (f k) (map_of m k)"
  by (induction m) auto

end
