(* ===== verification/Checker.thy ===== *)
theory Checker
  imports Btree "HOL-Library.State_Monad"
begin

text \<open>
  The checked reading of a JSON document (\<open>src/src/spec.rs\<close>, \<open>Checker\<close>): the
  values of \<open>serde_json\<close>, the errors by key path, and the operations that take a
  value of one type out of an object and record an error where it has another. A checker
  threads the list of errors found so far and goes on after an error, so that one run reports
  every problem. \<open>checks m Q\<close> is the rule the proofs use: \<open>m\<close> only appends errors, and
  where no error has been recorded at its end its result satisfies \<open>Q\<close>.
\<close>

section \<open>JSON values\<close>

datatype number = Unsigned u64 | Negative int | Fractional string

datatype json =
    JNull
  | JBool bool
  | JNumber number
  | JString string
  | JArray "json list"
  | JObject "(string \<times> json) list"

type_synonym json_map = "(string, json) btree"

definition is_null :: "json \<Rightarrow> bool" where
  "is_null v \<longleftrightarrow> v = JNull"

fun as_u64 :: "json \<Rightarrow> u64 option" where
  "as_u64 (JNumber (Unsigned n)) = Some n"
| "as_u64 _ = None"

fun type_name :: "json \<Rightarrow> string" where
  "type_name JNull = ''null''"
| "type_name (JBool _) = ''a boolean''"
| "type_name (JNumber _) = ''a number''"
| "type_name (JString _) = ''a string''"
| "type_name (JArray _) = ''a list''"
| "type_name (JObject _) = ''an object''"

section \<open>Errors by key path\<close>

text \<open>
  A key path is kept as its segments, and a message as its format text with the values that
  fill it.
\<close>

datatype segment = Key string | Index nat | With_overrides

type_synonym key_path = "segment list"

datatype problem = Problem (format_text: string) (format_args: "string list")

type_synonym errors = "(key_path \<times> problem) list"
type_synonym 'a checker = "(errors, 'a) state"

definition at_key :: "key_path \<Rightarrow> string \<Rightarrow> key_path" where
  "at_key parent key = parent @ [Key key]"

definition at_index :: "key_path \<Rightarrow> nat \<Rightarrow> key_path" where
  "at_index parent i = parent @ [Index i]"

abbreviation message :: "string \<Rightarrow> problem" where
  "message s \<equiv> Problem s []"

definition expected :: "string \<Rightarrow> json \<Rightarrow> problem" where
  "expected what v = Problem (''expected '' @ what @ '', got {}'') [type_name v]"

section \<open>The checker\<close>

abbreviation ret :: "'a \<Rightarrow> ('s, 'a) state" where
  "ret \<equiv> State_Monad.return"

definition err :: "key_path \<Rightarrow> problem \<Rightarrow> unit checker" where
  "err p m = State (\<lambda>es. ((), es @ [(p, m)]))"

text \<open>A \<open>for\<close> loop, with what it accumulates.\<close>

fun for_fold :: "('x \<Rightarrow> 'a \<Rightarrow> ('s, 'a) state) \<Rightarrow> 'x list \<Rightarrow> 'a \<Rightarrow> ('s, 'a) state" where
  "for_fold f [] a = ret a"
| "for_fold f (x # xs) a = do { a' \<leftarrow> f x a; for_fold f xs a' }"

abbreviation for_each :: "('x \<Rightarrow> ('s, unit) state) \<Rightarrow> 'x list \<Rightarrow> ('s, unit) state" where
  "for_each f xs \<equiv> for_fold (\<lambda>x _. f x) xs ()"

definition chk_object :: "key_path \<Rightarrow> json \<Rightarrow> json_map option checker" where
  "chk_object p v = (case v of
      JObject m \<Rightarrow> ret (Some m)
    | _ \<Rightarrow> do { err p (expected ''an object'' v); ret None })"

definition chk_known :: "key_path \<Rightarrow> json_map \<Rightarrow> string list \<Rightarrow> unit checker" where
  "chk_known p m allowed =
     for_each (\<lambda>key. err (at_key p key) (message ''unknown key''))
       (filter (\<lambda>k. k \<notin> set allowed) (map fst m))"

definition chk_bool :: "key_path \<Rightarrow> json_map \<Rightarrow> string \<Rightarrow> bool \<Rightarrow> bool checker" where
  "chk_bool p m key dflt = (case bt_get m key of
      None \<Rightarrow> ret dflt
    | Some (JBool b) \<Rightarrow> ret b
    | Some v \<Rightarrow> do { err (at_key p key) (expected ''a boolean'' v); ret dflt })"

definition chk_string :: "key_path \<Rightarrow> json_map \<Rightarrow> string \<Rightarrow> string option checker" where
  "chk_string p m key = (case bt_get m key of
      None \<Rightarrow> ret None
    | Some (JString s) \<Rightarrow> ret (Some s)
    | Some v \<Rightarrow> do { err (at_key p key) (expected ''a string'' v); ret None })"

fun join :: "string \<Rightarrow> string list \<Rightarrow> string" where
  "join sep [] = []"
| "join sep [s] = s"
| "join sep (s # t # r) = s @ sep @ join sep (t # r)"

definition quoted :: "string \<Rightarrow> string" where
  "quoted s = [CHR 0x22] @ s @ [CHR 0x22]"

definition chk_choice ::
  "key_path \<Rightarrow> json_map \<Rightarrow> string \<Rightarrow> (string \<times> 'a) list \<Rightarrow> 'a \<Rightarrow> 'a checker" where
  "chk_choice p m key choices dflt = do {
     found \<leftarrow> chk_string p m key;
     case found of
       None \<Rightarrow> ret dflt
     | Some s \<Rightarrow> (case map_of choices s of
           Some v \<Rightarrow> ret v
         | None \<Rightarrow> do {
             err (at_key p key) (Problem ''expected {}, got {:?}''
               [join '' or '' (map (\<lambda>c. quoted (fst c)) choices), s]);
             ret dflt })
   }"

text \<open>The strings of a list, by position: other values are reported and left out.\<close>

definition chk_items :: "key_path \<Rightarrow> json list \<Rightarrow> string list checker" where
  "chk_items p items = for_fold
     (\<lambda>(i, v) out. case v of
         JString s \<Rightarrow> ret (out @ [s])
       | _ \<Rightarrow> do { err (at_index p i) (expected ''a string'' v); ret out })
     (enumerate 0 items) []"

definition chk_strings :: "key_path \<Rightarrow> json_map \<Rightarrow> string \<Rightarrow> string list checker" where
  "chk_strings p m key = (case bt_get m key of
      None \<Rightarrow> ret []
    | Some (JArray items) \<Rightarrow> chk_items (at_key p key) items
    | Some v \<Rightarrow> do { err (at_key p key) (expected ''a list'' v); ret [] })"

section \<open>Paths and environment variables\<close>

text \<open>
  \<open>Path::components\<close> of an absolute path, without the root: repeated slashes and
  \<open>.\<close> vanish. Collected again it is \<open>/\<close> and the components between slashes.
\<close>

definition components :: "string \<Rightarrow> string list" where
  "components s = filter (\<lambda>c. c \<noteq> [] \<and> c \<noteq> ''.'') (split_on (CHR ''/'') s)"

definition collect_path :: "string list \<Rightarrow> string" where
  "collect_path cs = ''/'' @ join ''/'' cs"

definition absolute :: "string \<Rightarrow> problem + string" where
  "absolute s =
     (if \<not> starts_with s ''/'' then
        Inl (Problem ''{:?} must be an absolute path (psbox.path builds one)'' [s])
      else if ''..'' \<in> set (components s) then
        Inl (Problem (''{:?} must not contain '' @ [CHR 0x27] @ ''..'' @ [CHR 0x27]) [s])
      else Inr (collect_path (components s)))"

definition chk_path :: "key_path \<Rightarrow> json_map \<Rightarrow> string \<Rightarrow> string option checker" where
  "chk_path p m key = do {
     found \<leftarrow> chk_string p m key;
     case found of
       None \<Rightarrow> ret None
     | Some s \<Rightarrow> (case absolute s of
           Inr q \<Rightarrow> ret (Some q)
         | Inl e \<Rightarrow> do { err (at_key p key) e; ret None })
   }"

definition chk_unused :: "key_path \<Rightarrow> json_map \<Rightarrow> string list \<Rightarrow> string \<Rightarrow> unit checker" where
  "chk_unused p m keys why =
     for_each (\<lambda>key. err (at_key p key) (Problem ''not used {}'' [why])) (filter (bt_has m) keys)"

definition is_alpha :: "char \<Rightarrow> bool" where
  "is_alpha c \<longleftrightarrow> (CHR ''a'' \<le> c \<and> c \<le> CHR ''z'') \<or> (CHR ''A'' \<le> c \<and> c \<le> CHR ''Z'')"

definition is_digit :: "char \<Rightarrow> bool" where
  "is_digit c \<longleftrightarrow> CHR ''0'' \<le> c \<and> c \<le> CHR ''9''"

definition is_lower :: "char \<Rightarrow> bool" where
  "is_lower c \<longleftrightarrow> CHR ''a'' \<le> c \<and> c \<le> CHR ''z''"

definition is_alnum :: "char \<Rightarrow> bool" where
  "is_alnum c \<longleftrightarrow> is_alpha c \<or> is_digit c"

definition env_key_ok :: "string \<Rightarrow> bool" where
  "env_key_ok key = (case key of
      [] \<Rightarrow> False
    | c # cs \<Rightarrow> (is_alpha c \<or> c = CHR ''_'') \<and> list_all (\<lambda>c. is_alnum c \<or> c = CHR ''_'') cs)"

definition validate_env_key :: "string \<Rightarrow> problem + unit" where
  "validate_env_key key =
     ensure (env_key_ok key) (Problem ''invalid environment variable name {:?}'' [key])"

text \<open>\<open>if let Err(e) = r { self.err(path, e) }\<close>.\<close>

definition report :: "key_path \<Rightarrow> problem + unit \<Rightarrow> unit checker" where
  "report p r = (case r of Inr _ \<Rightarrow> ret () | Inl e \<Rightarrow> err p e)"

definition env_entry ::
  "key_path \<Rightarrow> string \<times> json \<Rightarrow> (string, string) btree \<Rightarrow> (string, string) btree checker" where
  "env_entry p e out = do {
     report (at_key p (fst e)) (validate_env_key (fst e));
     case snd e of
       JNull \<Rightarrow> ret out
     | JString s \<Rightarrow> ret (bt_insert out (fst e) s)
     | v \<Rightarrow> do { err (at_key p (fst e)) (expected ''a string or null'' v); ret out }
   }"

definition chk_environment :: "key_path \<Rightarrow> json option \<Rightarrow> (string, string) btree checker" where
  "chk_environment p v = (case v of
      None \<Rightarrow> ret []
    | Some v \<Rightarrow> do {
        found \<leftarrow> chk_object p v;
        case found of None \<Rightarrow> ret [] | Some m \<Rightarrow> for_fold (env_entry p) m []
      })"

section \<open>What a checker establishes\<close>

definition checks :: "'a checker \<Rightarrow> ('a \<Rightarrow> bool) \<Rightarrow> bool" where
  "checks m Q \<longleftrightarrow> (\<forall>es. \<exists>new. snd (run_state m es) = es @ new \<and>
     (es @ new = [] \<longrightarrow> Q (fst (run_state m es))))"

abbreviation fails :: "'a checker \<Rightarrow> bool" where
  "fails m \<equiv> checks m (\<lambda>_. False)"

named_theorems checks_intro \<open>rules of the checker's operations\<close>

lemma checks_ret [simp]: "checks (ret x) Q \<longleftrightarrow> Q x"
  by (simp add: checks_def)

lemma checks_err [checks_intro]: "fails (err p e)"
  by (auto simp: checks_def err_def)

lemma checks_mono:
  assumes "checks m Q" and "\<And>x. Q x \<Longrightarrow> R x"
  shows "checks m R"
  unfolding checks_def
proof
  fix es
  from assms(1) obtain new where
    "snd (run_state m es) = es @ new" "es @ new = [] \<longrightarrow> Q (fst (run_state m es))"
    by (auto simp: checks_def)
  with assms(2) show "\<exists>new. snd (run_state m es) = es @ new \<and>
      (es @ new = [] \<longrightarrow> R (fst (run_state m es)))" by blast
qed

lemma checks_fails: "fails m \<Longrightarrow> checks m Q"
  by (erule checks_mono) simp

lemma checks_bind:
  assumes "checks m Q" and "\<And>x. checks (f x) (\<lambda>y. Q x \<longrightarrow> R y)"
  shows "checks (do { x \<leftarrow> m; f x }) R"
  unfolding checks_def
proof
  fix es
  obtain x es1 where m: "run_state m es = (x, es1)" by fastforce
  obtain y es2 where f: "run_state (f x) es1 = (y, es2)" by fastforce
  from assms(1) m obtain n1 where n1: "es1 = es @ n1" "es1 = [] \<longrightarrow> Q x"
    unfolding checks_def by (metis fst_conv snd_conv)
  from assms(2) [of x] f obtain n2 where n2: "es2 = es1 @ n2" "es2 = [] \<longrightarrow> Q x \<longrightarrow> R y"
    unfolding checks_def by (metis fst_conv snd_conv)
  have "es2 = es @ (n1 @ n2)" "es2 = [] \<longrightarrow> R y" using n1 n2 by auto
  with m f show "\<exists>new. snd (run_state (m \<bind> f) es) = es @ new \<and>
      (es @ new = [] \<longrightarrow> R (fst (run_state (m \<bind> f) es)))" by auto
qed

text \<open>Where the first part's result does not matter to the claim.\<close>

lemma checks_after:
  assumes "checks m Q" and "\<And>x. checks (f x) R"
  shows "checks (do { x \<leftarrow> m; f x }) R"
  using assms(1) by (rule checks_bind) (rule checks_mono [OF assms(2)], simp)

lemma checks_run: "checks m Q \<Longrightarrow> run_state m [] = (x, []) \<Longrightarrow> Q x"
  unfolding checks_def by (metis append_self_conv2 fst_conv snd_conv)

lemma fails_run: "fails m \<Longrightarrow> snd (run_state m []) \<noteq> []"
  unfolding checks_def by (metis append_self_conv2)

text \<open>An error of either part is an error of the sequence.\<close>

lemma fails_bind_left: "fails m \<Longrightarrow> (\<And>x. checks (f x) (\<lambda>_. True)) \<Longrightarrow> fails (do { x \<leftarrow> m; f x })"
  by (rule checks_bind, assumption) (rule checks_mono, auto)

lemma fails_bind_right: "checks m Q \<Longrightarrow> (\<And>x. checks (f x) (\<lambda>_. \<not> Q x)) \<Longrightarrow> fails (do { x \<leftarrow> m; f x })"
  by (rule checks_bind, assumption) (rule checks_mono, auto)

lemma checks_for_fold:
  assumes "\<And>x a. x \<in> set xs \<Longrightarrow> checks (f x a) (\<lambda>a'. I a \<longrightarrow> I a')"
  shows "checks (for_fold f xs a) (\<lambda>a'. I a \<longrightarrow> I a')"
  using assms
proof (induction xs arbitrary: a)
  case Nil
  then show ?case by (simp add: checks_ret)
next
  case (Cons x xs)
  have "checks (f x a) (\<lambda>a'. I a \<longrightarrow> I a')" by (rule Cons.prems) simp
  moreover have "checks (for_fold f xs a') (\<lambda>y. (I a \<longrightarrow> I a') \<longrightarrow> I a \<longrightarrow> I y)" for a'
    by (rule checks_mono [OF Cons.IH [of a']]) (use Cons.prems in auto)
  ultimately show ?case by (simp add: checks_bind)
qed

text \<open>The loop reports an error if some step does.\<close>

lemma fails_for_fold:
  assumes "\<And>y a. y \<in> set xs \<Longrightarrow> checks (f y a) (\<lambda>_. True)"
    and "x \<in> set xs" and "\<And>a. fails (f x a)"
  shows "fails (for_fold f xs a)"
  using assms
proof (induction xs arbitrary: a)
  case (Cons z zs)
  have rest: "checks (for_fold f zs b) (\<lambda>_. True)" for b
    using checks_for_fold [of zs f "\<lambda>_. True"] Cons.prems(1) by simp
  show ?case
  proof (cases "z = x")
    case True
    then show ?thesis using Cons.prems(3) rest by (auto intro!: fails_bind_left)
  next
    case False
    have "fails (for_fold f zs b)" for b using Cons False by simp
    then have "checks (for_fold f zs b) (\<lambda>_. \<not> True)" for b by simp
    moreover have "checks (f z a) (\<lambda>_. True)" using Cons.prems(1) by simp
    ultimately show ?thesis by (simp add: fails_bind_right)
  qed
qed simp

section \<open>The operations\<close>

lemma checks_case_option:
  "(v = None \<Longrightarrow> checks m Q) \<Longrightarrow> (\<And>x. v = Some x \<Longrightarrow> checks (f x) Q) \<Longrightarrow>
     checks (case v of None \<Rightarrow> m | Some x \<Rightarrow> f x) Q"
  by (cases v) auto

lemma checks_err_bind: "(\<And>x. checks (f x) (\<lambda>_. True)) \<Longrightarrow> checks (do { x \<leftarrow> err p e; f x }) Q"
  by (rule checks_mono [OF fails_bind_left [OF checks_err]]) auto

lemma checks_err_ret [simp]: "checks (do { err p e; ret x }) Q"
  by (rule checks_err_bind) (simp add: checks_ret)

lemma checks_object [checks_intro]: "checks (chk_object p v) (\<lambda>r. \<exists>m. v = JObject m \<and> r = Some m)"
  by (cases v) (auto simp: chk_object_def checks_ret)

lemma checks_for_each:
  "(\<And>x. x \<in> set xs \<Longrightarrow> checks (f x) (\<lambda>_. P x)) \<Longrightarrow> checks (for_each f xs) (\<lambda>_. \<forall>x \<in> set xs. P x)"
proof (induction xs)
  case Nil
  then show ?case by (simp add: checks_ret)
next
  case (Cons x xs)
  have "checks (f x) (\<lambda>_. P x)" by (rule Cons.prems) simp
  moreover have "checks (for_each f xs) (\<lambda>y. P x \<longrightarrow> (\<forall>z \<in> set (x # xs). P z))"
    by (rule checks_mono [OF Cons.IH]) (use Cons.prems in auto)
  ultimately show ?case by (simp add: checks_bind)
qed

lemma checks_known [checks_intro]:
  "checks (chk_known p m allowed) (\<lambda>_. fst ` set m \<subseteq> set allowed)"
proof -
  have "checks (chk_known p m allowed)
      (\<lambda>_. \<forall>k \<in> set (filter (\<lambda>k. k \<notin> set allowed) (map fst m)). False)"
    unfolding chk_known_def by (rule checks_for_each) (rule checks_err)
  then show ?thesis by (rule checks_mono) auto
qed

lemma checks_unused [checks_intro]:
  "checks (chk_unused p m keys why) (\<lambda>_. \<forall>k \<in> set keys. bt_get m k = None)"
proof -
  have "checks (chk_unused p m keys why) (\<lambda>_. \<forall>k \<in> set (filter (bt_has m) keys). False)"
    unfolding chk_unused_def by (rule checks_for_each) (rule checks_err)
  then show ?thesis by (rule checks_mono) (auto simp: bt_has_def)
qed

lemma checks_bool [checks_intro]:
  "checks (chk_bool p m key d) (\<lambda>b. b = (case bt_get m key of Some (JBool c) \<Rightarrow> c | _ \<Rightarrow> d))"
  by (auto simp: chk_bool_def checks_ret split: option.split json.split)

lemma checks_string [checks_intro]:
  "checks (chk_string p m key)
     (\<lambda>r. (bt_get m key = None \<and> r = None) \<or> (\<exists>s. bt_get m key = Some (JString s) \<and> r = Some s))"
  by (auto simp: chk_string_def checks_ret split: option.split json.split)

lemma checks_choice [checks_intro]:
  "checks (chk_choice p m key choices d)
     (\<lambda>x. (bt_get m key = None \<and> x = d) \<or>
          (\<exists>s. bt_get m key = Some (JString s) \<and> map_of choices s = Some x))"
  unfolding chk_choice_def
  by (rule checks_bind [OF checks_string], rule checks_case_option)
    (auto simp: checks_ret split: option.split)

lemma checks_items [checks_intro]: "checks (chk_items p items) (\<lambda>out. items = map JString out)"
proof -
  have *: "checks (for_fold (\<lambda>(i, v) out. case v of
         JString s \<Rightarrow> ret (out @ [s])
       | _ \<Rightarrow> do { err (at_index p i) (expected ''a string'' v); ret out })
     (enumerate n items) out) (\<lambda>out'. \<exists>new. out' = out @ new \<and> items = map JString new)" for n out
  proof (induction items arbitrary: n out)
    case Nil
    then show ?case by (simp add: checks_ret)
  next
    case (Cons v items)
    let ?f = "\<lambda>(i, v) out. case v of
         JString s \<Rightarrow> ret (out @ [s])
       | _ \<Rightarrow> do { err (at_index p i) (expected ''a string'' v); ret out }"
    have step: "checks (?f (n, v) out) (\<lambda>out1. \<exists>s. v = JString s \<and> out1 = out @ [s])"
      by (cases v) (simp_all add: checks_ret)
    have "checks (for_fold ?f (enumerate (Suc n) items) out1) (\<lambda>out'.
        (\<exists>s. v = JString s \<and> out1 = out @ [s]) \<longrightarrow>
        (\<exists>new. out' = out @ new \<and> v # items = map JString new))" for out1
      by (rule checks_mono [OF Cons.IH]) auto
    then show ?case unfolding enumerate_simps for_fold.simps by (rule checks_bind [OF step])
  qed
  show ?thesis unfolding chk_items_def by (rule checks_mono [OF *]) simp
qed

lemma checks_strings [checks_intro]:
  "checks (chk_strings p m key) (\<lambda>out. case bt_get m key of
      None \<Rightarrow> out = [] | Some v \<Rightarrow> v = JArray (map JString out))"
proof (cases "bt_get m key")
  case None
  then show ?thesis by (simp add: chk_strings_def checks_ret)
next
  case (Some v)
  then show ?thesis
    by (cases v) (auto simp: chk_strings_def intro: checks_mono [OF checks_items])
qed

lemma checks_path [checks_intro]:
  "checks (chk_path p m key) (\<lambda>r. (bt_get m key = None \<and> r = None) \<or>
     (\<exists>s q. bt_get m key = Some (JString s) \<and> absolute s = Inr q \<and> r = Some q))"
  unfolding chk_path_def
  by (rule checks_bind [OF checks_string], rule checks_case_option)
    (auto simp: checks_ret split: sum.split)

lemma checks_report [checks_intro]: "checks (report p r) (\<lambda>_. r = Inr ())"
  by (cases r) (auto simp: report_def checks_ret intro: checks_fails [OF checks_err])

section \<open>Environments\<close>

definition env_ok :: "(string, string) btree \<Rightarrow> bool" where
  "env_ok env \<longleftrightarrow> bt_ok env \<and> list_all (\<lambda>e. env_key_ok (fst e)) env"

lemma env_ok_Nil [simp]: "env_ok []"
  by (simp add: env_ok_def)

lemma env_ok_insert: "env_ok env \<Longrightarrow> env_key_ok k \<Longrightarrow> env_ok (bt_insert env k v)"
  by (auto simp: env_ok_def list_all_iff set_bt_insert)

lemma checks_env_entry:
  "checks (env_entry p e out) (\<lambda>out'. env_ok out \<longrightarrow> env_ok out')"
proof -
  have "checks (report (at_key p (fst e)) (validate_env_key (fst e))) (\<lambda>_. env_key_ok (fst e))"
    by (rule checks_mono [OF checks_report]) (simp add: validate_env_key_def)
  then show ?thesis unfolding env_entry_def
    by (rule checks_bind) (auto simp: env_ok_insert split: json.split)
qed

lemma checks_environment [checks_intro]: "checks (chk_environment p v) env_ok"
proof -
  have "checks (for_fold (env_entry p) m []) (\<lambda>out. env_ok [] \<longrightarrow> env_ok out)" for m
    by (rule checks_for_fold) (rule checks_env_entry)
  then have loop: "checks (for_fold (env_entry p) m []) env_ok" for m by simp
  show ?thesis unfolding chk_environment_def
    by (auto intro!: checks_bind [OF checks_object] checks_case_option checks_mono [OF loop])
qed

section \<open>Runs without errors\<close>

text \<open>A checker that finds nothing wrong is the return of its result.\<close>

named_theorems accepts \<open>operations on values of the expected shape\<close>

lemma chk_object_Object [simp, accepts]: "chk_object p (JObject m) = ret (Some m)"
  by (simp add: chk_object_def)

lemma chk_known_ok [accepts]: "fst ` set m \<subseteq> set allowed \<Longrightarrow> chk_known p m allowed = ret ()"
proof -
  assume "fst ` set m \<subseteq> set allowed"
  then have "filter (\<lambda>k. k \<notin> set allowed) (map fst m) = []" by (auto simp: filter_empty_conv)
  then show ?thesis unfolding chk_known_def by (simp only: for_fold.simps)
qed

lemma chk_bool_Bool [accepts]: "bt_get m key = Some (JBool b) \<Longrightarrow> chk_bool p m key d = ret b"
  by (simp add: chk_bool_def)

lemma chk_bool_None [accepts]: "bt_get m key = None \<Longrightarrow> chk_bool p m key d = ret d"
  by (simp add: chk_bool_def)

lemma chk_string_String [accepts]:
  "bt_get m key = Some (JString s) \<Longrightarrow> chk_string p m key = ret (Some s)"
  by (simp add: chk_string_def)

lemma chk_string_None [accepts]: "bt_get m key = None \<Longrightarrow> chk_string p m key = ret None"
  by (simp add: chk_string_def)

lemma chk_choice_String [accepts]:
  "bt_get m key = Some (JString s) \<Longrightarrow> map_of choices s = Some x \<Longrightarrow>
     chk_choice p m key choices d = ret x"
  by (simp add: chk_choice_def chk_string_String)

lemma chk_choice_None [accepts]:
  "bt_get m key = None \<Longrightarrow> chk_choice p m key choices d = ret d"
  by (simp add: chk_choice_def chk_string_None)

lemma chk_items_strings: "chk_items p (map JString ss) = ret ss"
proof -
  have "for_fold (\<lambda>(i, v) out. case v of
         JString s \<Rightarrow> ret (out @ [s])
       | _ \<Rightarrow> do { err (at_index p i) (expected ''a string'' v); ret out })
     (enumerate n (map JString ss)) out = ret (out @ ss)" for n out
    by (induction ss arbitrary: n out) simp_all
  then show ?thesis by (simp add: chk_items_def)
qed

lemma chk_strings_Array [accepts]:
  "bt_get m key = Some (JArray (map JString ss)) \<Longrightarrow> chk_strings p m key = ret ss"
  by (simp add: chk_strings_def chk_items_strings)

lemma chk_strings_None [accepts]: "bt_get m key = None \<Longrightarrow> chk_strings p m key = ret []"
  by (simp add: chk_strings_def)

lemma chk_unused_ok [accepts]:
  "list_all (\<lambda>k. bt_get m k = None) keys \<Longrightarrow> chk_unused p m keys why = ret ()"
proof -
  assume "list_all (\<lambda>k. bt_get m k = None) keys"
  then have "filter (bt_has m) keys = []" by (auto simp: filter_empty_conv bt_has_def list_all_iff)
  then show ?thesis unfolding chk_unused_def by (simp only: for_fold.simps)
qed

lemma chk_path_ok [accepts]:
  "bt_get m key = Some (JString s) \<Longrightarrow> absolute s = Inr q \<Longrightarrow> chk_path p m key = ret (Some q)"
  by (simp add: chk_path_def chk_string_String)

lemma chk_path_None [accepts]: "bt_get m key = None \<Longrightarrow> chk_path p m key = ret None"
  by (simp add: chk_path_def chk_string_None)

lemma report_ok [simp, accepts]: "report p (Inr ()) = ret ()"
  by (simp add: report_def)

definition env_json :: "(string, string) btree \<Rightarrow> json" where
  "env_json env = JObject (map (\<lambda>(k, s). (k, JString s)) env)"

lemma chk_environment_ok [accepts]:
  assumes "env_ok env"
  shows "chk_environment p (Some (env_json env)) = ret env"
proof -
  have "env_ok (out @ env) \<Longrightarrow>
      for_fold (env_entry p) (map (\<lambda>(k, s). (k, JString s)) env) out = ret (out @ env)" for out
  proof (induction env arbitrary: out)
    case (Cons e env)
    obtain k s where e: "e = (k, s)" by (cases e)
    have ins: "bt_insert out k s = out @ [(k, s)]"
      by (rule bt_insert_in_order [where m' = env]) (use Cons.prems in \<open>simp add: env_ok_def e\<close>)
    have "env_key_ok k" using Cons.prems by (simp add: env_ok_def e)
    then have "env_entry p (k, JString s) out = ret (bt_insert out k s)"
      by (simp add: env_entry_def validate_env_key_def)
    then show ?case using Cons.IH [of "out @ [(k, s)]"] Cons.prems by (simp add: e ins)
  qed simp
  from this [of "[]"] assms show ?thesis by (simp add: chk_environment_def env_json_def)
qed

section \<open>Absolute paths are normal forms\<close>

lemma split_on_no: "c \<notin> set s \<Longrightarrow> split_on c s = [s]"
  by (induction s) auto

lemma split_on_append: "c \<notin> set a \<Longrightarrow> split_on c (a @ c # s) = a # split_on c s"
  by (induction a) auto

lemma split_on_free: "x \<in> set (split_on c s) \<Longrightarrow> c \<notin> set x"
proof (induction s arbitrary: x)
  case (Cons y s)
  then show ?case by (auto split: list.splits if_splits)
qed simp

lemma split_on_join:
  "(\<And>x. x \<in> set xs \<Longrightarrow> c \<notin> set x) \<Longrightarrow> xs \<noteq> [] \<Longrightarrow> split_on c (join [c] xs) = xs"
proof (induction xs rule: induct_list012)
  case (3 x y xs)
  then show ?case by (simp add: split_on_append)
qed (simp_all add: split_on_no)

lemma components_collect:
  assumes "\<And>c. c \<in> set cs \<Longrightarrow> CHR ''/'' \<notin> set c \<and> c \<noteq> [] \<and> c \<noteq> ''.''"
  shows "components (collect_path cs) = cs"
proof (cases "cs = []")
  case True
  then show ?thesis by (simp add: components_def collect_path_def)
next
  case False
  have "split_on (CHR ''/'') (join ''/'' cs) = cs"
    by (rule split_on_join) (use assms False in auto)
  then have "components (collect_path cs) = filter (\<lambda>c. c \<noteq> [] \<and> c \<noteq> ''.'') cs"
    by (simp add: components_def collect_path_def)
  also have "\<dots> = cs" using assms by (simp add: filter_id_conv)
  finally show ?thesis .
qed

lemma components_parts: "c \<in> set (components s) \<Longrightarrow> CHR ''/'' \<notin> set c \<and> c \<noteq> [] \<and> c \<noteq> ''.''"
  by (auto simp: components_def split_on_free)

text \<open>Normal absolute paths: what \<open>absolute\<close> returns, and leaves as it is.\<close>

definition path_ok :: "string \<Rightarrow> bool" where
  "path_ok s \<longleftrightarrow> absolute s = Inr s"

lemma absolute_ok: "absolute s = Inr q \<Longrightarrow> path_ok q"
  by (auto simp: absolute_def path_ok_def components_collect [OF components_parts] split: if_splits)
    (simp add: collect_path_def starts_with_def)

end
