(* ===== verification/Numbers.thy ===== *)
theory Numbers
  imports Prelude
begin

text \<open>
  Numbers as text: \<open>from_str_radix\<close> and \<open>parse\<close> of an unsigned integer, and what
  \<open>{}\<close>, \<open>{:x}\<close> and \<open>{:04x}\<close> print. As the standard library does, the
  parser takes a leading plus sign, and reports a value above the type's maximum as an error.
\<close>

definition to_digit :: "nat \<Rightarrow> char \<Rightarrow> nat option" where
  "to_digit b c = (case hex_digit c of Some d \<Rightarrow> if d < b then Some d else None | None \<Rightarrow> None)"

fun digits_val :: "nat \<Rightarrow> nat \<Rightarrow> string \<Rightarrow> nat option" where
  "digits_val b acc [] = Some acc"
| "digits_val b acc (c # cs) =
     (case to_digit b c of Some d \<Rightarrow> digits_val b (acc * b + d) cs | None \<Rightarrow> None)"

definition parse_unsigned :: "nat \<Rightarrow> nat \<Rightarrow> string \<Rightarrow> nat option" where
  "parse_unsigned b bound s =
     (let ds = (case s of [] \<Rightarrow> [] | c # cs \<Rightarrow> if c = CHR ''+'' then cs else s)
      in if ds = [] then None
         else case digits_val b 0 ds of
           None \<Rightarrow> None
         | Some n \<Rightarrow> if n < bound then Some n else None)"

abbreviation parse_u16_hex :: "string \<Rightarrow> nat option" where
  "parse_u16_hex \<equiv> parse_unsigned 16 65536"

abbreviation parse_u32 :: "string \<Rightarrow> nat option" where
  "parse_u32 \<equiv> parse_unsigned 10 4294967296"

definition lower_hex_char :: "nat \<Rightarrow> char" where
  "lower_hex_char n = (if n < 10 then char_of (48 + n) else char_of (87 + n))"

fun dec :: "nat \<Rightarrow> string" where
  "dec n = (if n < 10 then [char_of (48 + n)] else dec (n div 10) @ [char_of (48 + n mod 10)])"

declare dec.simps [simp del]

definition hex4 :: "nat \<Rightarrow> string" where
  "hex4 n = [lower_hex_char (n div 4096 mod 16), lower_hex_char (n div 256 mod 16),
     lower_hex_char (n div 16 mod 16), lower_hex_char (n mod 16)]"

section \<open>Parsing undoes printing\<close>

lemma hex_digit_lower [simp]:
  assumes "n < 16"
  shows "hex_digit (lower_hex_char n) = Some n"
proof (cases "n < 10")
  case True
  then have "(of_char (char_of (48 + n)) :: nat) = 48 + n" by (intro of_char_of_small) simp
  with True show ?thesis
    unfolding hex_digit_def lower_hex_char_def Let_def by (simp del: of_char_of)
next
  case False
  with assms have "(of_char (char_of (87 + n)) :: nat) = 87 + n" by (intro of_char_of_small) simp
  with False assms show ?thesis
    unfolding hex_digit_def lower_hex_char_def Let_def by (simp del: of_char_of)
qed

lemma to_digit_lower [simp]: "n < b \<Longrightarrow> b \<le> 16 \<Longrightarrow> to_digit b (lower_hex_char n) = Some n"
  by (simp add: to_digit_def)

lemma to_digit_dec [simp]: "n < 10 \<Longrightarrow> to_digit 10 (char_of (48 + n)) = Some n"
  using to_digit_lower [of n 10] by (simp add: lower_hex_char_def)

lemma to_digit_plus: "to_digit b (CHR ''+'') = None"
  by (simp add: to_digit_def hex_digit_no)

lemma to_digit_less: "to_digit b c = Some d \<Longrightarrow> d < b"
  by (auto simp: to_digit_def split: option.splits if_splits)

lemma digits_val_append:
  "digits_val b acc (s @ t) = Option.bind (digits_val b acc s) (\<lambda>n. digits_val b n t)"
  by (induction s arbitrary: acc) (auto split: option.split)

lemma dec_nonempty [simp]: "dec n \<noteq> []"
  by (subst dec.simps) simp

lemma digits_val_dec: "digits_val 10 0 (dec n) = Some n"
proof (induction n rule: dec.induct)
  case (1 n)
  show ?case
  proof (cases "n < 10")
    case True
    then show ?thesis by (subst dec.simps) simp
  next
    case False
    then have ih: "digits_val 10 0 (dec (n div 10)) = Some (n div 10)" by (rule 1)
    from False have "dec n = dec (n div 10) @ [char_of (48 + n mod 10)]" by (subst dec.simps) simp
    then show ?thesis
      using to_digit_dec [of "n mod 10"] by (simp add: digits_val_append ih)
  qed
qed

lemma parse_unsigned_digits:
  assumes "s \<noteq> []" and "digits_val b 0 s = Some n" and "n < bound"
  shows "parse_unsigned b bound s = Some n"
proof -
  obtain c cs where s: "s = c # cs" using assms(1) by (cases s) auto
  have "c \<noteq> CHR ''+''"
    using assms(2) by (auto simp: s to_digit_plus)
  then show ?thesis using assms by (simp add: s parse_unsigned_def Let_def)
qed

lemma parse_dec: "n < bound \<Longrightarrow> parse_unsigned 10 bound (dec n) = Some n"
  by (rule parse_unsigned_digits) (simp_all add: digits_val_dec)

lemma dec_inject [simp]: "dec m = dec n \<longleftrightarrow> m = n"
  by (metis digits_val_dec option.inject)

lemma digits_val_digits: "digits_val b acc s = Some n \<Longrightarrow> c \<in> set s \<Longrightarrow> to_digit b c \<noteq> None"
  by (induction s arbitrary: acc) (auto split: option.splits)

lemma dec_no_digit: "to_digit 10 c = None \<Longrightarrow> c \<notin> set (dec n)"
  using digits_val_digits [OF digits_val_dec] by metis

lemma hex4_value:
  assumes "n < 65536"
  shows "digits_val 16 0 (hex4 n) = Some n"
proof -
  define q1 where "q1 = n div 16"
  define q2 where "q2 = q1 div 16"
  define q3 where "q3 = q2 div 16"
  have "q3 < 16" using assms by (simp add: q3_def q2_def q1_def)
  then have q3: "q3 mod 16 = q3" by simp
  have "hex4 n = [lower_hex_char q3, lower_hex_char (q2 mod 16), lower_hex_char (q1 mod 16),
      lower_hex_char (n mod 16)]"
    using q3 by (simp add: hex4_def q3_def q2_def q1_def flip: div_mult2_eq)
  moreover have "q3 * 16 + q2 mod 16 = q2" "q2 * 16 + q1 mod 16 = q1" "q1 * 16 + n mod 16 = n"
    unfolding q3_def q2_def q1_def by (rule div_mult_mod_eq)+
  ultimately show ?thesis using \<open>q3 < 16\<close> by simp
qed

lemma parse_hex4: "n < 65536 \<Longrightarrow> parse_u16_hex (hex4 n) = Some n"
  by (rule parse_unsigned_digits) (simp_all add: hex4_value, simp add: hex4_def)

lemma parse_unsigned_less: "parse_unsigned b bound s = Some n \<Longrightarrow> n < bound"
  by (auto simp: parse_unsigned_def Let_def split: option.splits if_splits)

lemma length_hex4 [simp]: "length (hex4 n) = 4"
  by (simp add: hex4_def)

lemma lower_hex_neq: "n < 16 \<Longrightarrow> hex_digit c = None \<Longrightarrow> lower_hex_char n \<noteq> c"
  using hex_digit_lower by force

lemma dec_digits: "c \<in> set (dec n) \<Longrightarrow> (\<exists>d < 10. c = char_of (48 + d :: nat))"
proof (induction n rule: dec.induct)
  case (1 n)
  show ?case
  proof (cases "n < 10")
    case True
    then show ?thesis using "1.prems" dec.simps [of n] by auto
  next
    case False
    then have "c \<in> set (dec (n div 10)) \<or> c = char_of (48 + n mod 10)"
      using "1.prems" dec.simps [of n] by auto
    moreover have "n mod 10 < 10" by simp
    ultimately show ?thesis using "1.IH" [OF False] by blast
  qed
qed

end
