(* ===== verification/Spec_Config.thy ===== *)
theory Spec_Config
  imports Checker Numbers Portal Dbus_Conn
begin

text \<open>
  Sandbox configs (\<open>src/src/spec.rs\<close>): the settings a config means, how they are named in
  the config, and the checks on names. A \<open>PathBuf\<close> is the string of its bytes, a
  \<open>BTreeMap\<close> an ordered association list. A task keeps a whole config whose own task map
  is empty, so the record of the settings has the type of the map's values as a parameter.
\<close>

section \<open>The settings\<close>

datatype cache = Cache_Temporary | Cache_Persistent

datatype home = Home_Path string cache | Home_Temporary

datatype dbus_mode = Dbus_Portal | Dbus_Host

record dbus_setting =
  mode_of_dbus :: dbus_mode
  talk :: "string list"

datatype network_setting = Net_Automatic | Net_Isolated | Net_Host | Net_Loopback

datatype network = Host_Network | Isolated_Network | Loopback_Network

datatype xwayland_mode = Builtin | Satellite

datatype xwayland_scale = Native | Round_Up | Compositor

record xwayland_setting =
  mode_of_xwayland :: xwayland_mode
  scale_of_xwayland :: xwayland_scale

datatype open_in = Open_Host | Open_Sandbox

record links_setting =
  link_http :: open_in
  link_https :: open_in
  link_mailto :: open_in

datatype mount_mode = Read_Write | Read_Only | Overlay | Empty_Mount

record mount_spec =
  mount_source :: "string option"
  mount_destination :: string
  mode_of_mount :: mount_mode
  mount_optional :: bool
  mount_create :: bool

datatype entry_kind = Application_Kind | Autostart_Kind

datatype key_value =
    Remove_Key
  | Bool_Value bool
  | Str_Value string
  | List_Value "string list"
  | Localized string "(string, string) btree"

record action =
  action_arguments :: "string list"
  action_keys :: "(string, key_value) btree"

record application =
  app_run :: "string list"
  app_environment :: "(string, string) btree"
  app_id :: string
  app_source_id :: "string option"
  app_remove_arguments :: "string list"
  app_keys :: "(string, key_value) btree"
  app_actions :: "(string, action option) btree"
  app_no_display :: "bool option"
  app_implicit :: bool

record autostart =
  start_app :: string
  start_id :: string
  start_source_id :: "string option"
  start_remove_arguments :: "string list"
  start_keys :: "(string, key_value) btree"

datatype app_spec =
    Application application
  | Autostart autostart
  | Suppress entry_kind string

datatype device_class =
    Gpu | Camera | Gamepad | Alsa | Security_Key | Usb (usb_vendor: u16) (usb_product: u16) | Audio

record 'task spec_of =
  idle_timeout :: u64
  allow_32bit :: bool
  home_of :: "home option"
  devices :: "device_class list"
  dbus_of :: "dbus_setting option"
  network_of :: network_setting
  display :: bool
  xwayland :: "xwayland_setting option"
  links :: links_setting
  environment :: "(string, string) btree"
  mount :: "(string, mount_spec) btree"
  app :: "(string, app_spec) btree"
  tasks :: "(string, 'task) btree"

record task_spec =
  task_command :: "string list"
  task_app :: "string option"
  task_config :: "unit spec_of"

type_synonym spec = "task_spec spec_of"

section \<open>How the settings are named\<close>

fun network_name :: "network \<Rightarrow> string" where
  "network_name Host_Network = ''host''"
| "network_name Isolated_Network = ''isolated''"
| "network_name Loopback_Network = ''loopback''"

fun xwayland_mode_name :: "xwayland_mode \<Rightarrow> string" where
  "xwayland_mode_name Builtin = ''builtin''"
| "xwayland_mode_name Satellite = ''xwayland-satellite''"

fun scale_name :: "xwayland_scale \<Rightarrow> string" where
  "scale_name Native = ''native''"
| "scale_name Round_Up = ''round-up''"
| "scale_name Compositor = ''compositor''"

definition scale_from_str :: "string \<Rightarrow> problem + xwayland_scale" where
  "scale_from_str s =
     (if s = ''native'' then Inr Native
      else if s = ''round-up'' then Inr Round_Up
      else if s = ''compositor'' then Inr Compositor
      else Inl (message ''expected native, round-up, or compositor''))"

fun mount_mode_name :: "mount_mode \<Rightarrow> string" where
  "mount_mode_name Read_Write = ''read-write''"
| "mount_mode_name Read_Only = ''read-only''"
| "mount_mode_name Overlay = ''overlay''"
| "mount_mode_name Empty_Mount = ''empty''"

fun kind_name :: "entry_kind \<Rightarrow> string" where
  "kind_name Application_Kind = ''application''"
| "kind_name Autostart_Kind = ''autostart''"

definition usb_name :: "u16 \<Rightarrow> u16 \<Rightarrow> string" where
  "usb_name v p = hex4 (unat v) @ '':'' @ hex4 (unat p)"

fun device_name :: "device_class \<Rightarrow> string" where
  "device_name Gpu = ''gpu''"
| "device_name Camera = ''camera''"
| "device_name Gamepad = ''gamepad''"
| "device_name Alsa = ''alsa''"
| "device_name Security_Key = ''security-key''"
| "device_name (Usb v p) = ''usb:'' @ usb_name v p"
| "device_name Audio = ''audio''"

definition host_schemes :: "links_setting \<Rightarrow> string list" where
  "host_schemes l = map fst (filter (\<lambda>(_, place). place = Open_Host)
     [(''http'', link_http l), (''https'', link_https l), (''mailto'', link_mailto l)])"

fun app_kind :: "app_spec \<Rightarrow> entry_kind" where
  "app_kind (Application _) = Application_Kind"
| "app_kind (Autostart _) = Autostart_Kind"
| "app_kind (Suppress kind _) = kind"

fun entry_id :: "app_spec \<Rightarrow> string" where
  "entry_id (Application a) = app_id a"
| "entry_id (Autostart a) = start_id a"
| "entry_id (Suppress _ i) = i"

definition has_entry :: "application \<Rightarrow> bool" where
  "has_entry a \<longleftrightarrow> \<not> app_implicit a \<or> app_source_id a \<noteq> None"

definition is_node :: "device_class \<Rightarrow> bool" where
  "is_node d \<longleftrightarrow> d \<noteq> Audio"

section \<open>USB devices\<close>

definition usb_hex :: "string \<Rightarrow> problem + u16" where
  "usb_hex x =
     (if length x \<noteq> 4 then Inl (Problem ''USB ids are four hex digits, got {:?}'' [x])
      else case parse_u16_hex x of
        None \<Rightarrow> Inl (Problem ''invalid USB id {:?}'' [x])
      | Some n \<Rightarrow> Inr (of_nat n))"

definition usb_device :: "string \<Rightarrow> problem + device_class" where
  "usb_device s = (case split_once (CHR '':'') s of
      None \<Rightarrow> Inl (Problem ''expected <vendor>:<product>, got {:?}'' [s])
    | Some (v, p) \<Rightarrow>
        and_then (usb_hex v) (\<lambda>vendor. and_then (usb_hex p) (\<lambda>prod. Inr (Usb vendor prod))))"

section \<open>Names\<close>

definition UNNAMED_SANDBOX :: string where "UNNAMED_SANDBOX = ''sandbox''"

definition word_char :: "char \<Rightarrow> bool" where
  "word_char c \<longleftrightarrow> is_alnum c \<or> c = CHR ''_'' \<or> c = CHR ''-''"

definition valid_word :: "string \<Rightarrow> bool" where
  "valid_word s \<longleftrightarrow> s \<noteq> [] \<and> list_all word_char s"

definition validate_sandbox_name :: "string \<Rightarrow> problem + unit" where
  "validate_sandbox_name name =
     (if \<not> valid_word name \<or> starts_with name ''-'' then
        Inl (Problem ''invalid sandbox name {:?}: use letters, digits, _, -'' [name])
      else if name = UNNAMED_SANDBOX then
        Inl (Problem ''{:?} is reserved for unnamed sandboxes'' [name])
      else Inr ())"

definition name_ok :: "string \<Rightarrow> bool" where
  "name_ok name \<longleftrightarrow> name \<noteq> [] \<and> name \<noteq> ''.'' \<and> name \<noteq> ''..'' \<and> \<not> starts_with name ''-'' \<and>
     list_all (\<lambda>c. is_alnum c \<or> c = CHR ''.'' \<or> c = CHR ''_'' \<or> c = CHR ''-'') name"

definition validate_name :: "string \<Rightarrow> string \<Rightarrow> problem + unit" where
  "validate_name kind name = ensure (name_ok name)
     (Problem ''invalid {} name {:?}: use letters, digits, ., _, -'' [kind, name])"

definition id_element :: "string \<Rightarrow> bool" where
  "id_element e \<longleftrightarrow> e \<noteq> [] \<and> \<not> is_digit (hd e) \<and> list_all word_char e"

definition app_id_ok :: "string \<Rightarrow> bool" where
  "app_id_ok s \<longleftrightarrow> length s \<le> 255 \<and> list_all id_element (split_on (CHR ''.'') s)"

definition validate_app_id :: "string \<Rightarrow> problem + unit" where
  "validate_app_id s = ensure (app_id_ok s) (Problem ''invalid desktop file id {:?}'' [s])"

definition talk_name_ok :: "string \<Rightarrow> bool" where
  "talk_name_ok name \<longleftrightarrow> length name \<le> 255 \<and> 2 \<le> length (split_on (CHR ''.'') name) \<and>
     list_all id_element (split_on (CHR ''.'') name)"

definition validate_talk_name :: "string \<Rightarrow> problem + unit" where
  "validate_talk_name name =
     (if \<not> talk_name_ok name then Inl (Problem ''invalid bus name {:?}'' [name])
      else if name = BUS_NAME \<or> name \<in> set GATEWAY_NAMES then
        Inl (Problem ''{} is always handled by psbox and cannot be listed'' [name])
      else Inr ())"

definition locale_word :: "string \<Rightarrow> bool" where
  "locale_word w \<longleftrightarrow> w \<noteq> [] \<and> list_all (\<lambda>c. is_alnum c \<or> c = CHR ''-'') w"

definition split_or :: "char \<Rightarrow> string \<Rightarrow> string \<times> string" where
  "split_or c s = (case split_once c s of Some p \<Rightarrow> p | None \<Rightarrow> (s, []))"

definition valid_locale :: "string \<Rightarrow> bool" where
  "valid_locale s =
     (let (rest, modifier) = split_or (CHR ''@'') s;
          (rest, encoding) = split_or (CHR ''.'') rest;
          (lang, country) = split_or (CHR ''_'') rest
      in lang \<noteq> [] \<and> list_all is_lower lang
         \<and> (country = [] \<or> locale_word country)
         \<and> (encoding = [] \<or> locale_word encoding)
         \<and> (modifier = [] \<or> locale_word modifier))"

section \<open>What a sandbox can write\<close>

text \<open>The host paths the sandbox and its tasks can write.\<close>

definition spec_writable :: "'task spec_of \<Rightarrow> string list" where
  "spec_writable s =
     (case home_of s of Some (Home_Path p _) \<Rightarrow> [p] | _ \<Rightarrow> [])
     @ List.map_filter (\<lambda>e. if mode_of_mount (snd e) = Read_Write then mount_source (snd e) else None)
         (mount s)"

definition writable :: "spec \<Rightarrow> string list" where
  "writable s = spec_writable s @ concat (map (\<lambda>e. spec_writable (task_config (snd e))) (tasks s))"

end
