(* ===== verification/Spec_Parse.thy ===== *)
theory Spec_Parse
  imports Spec_Config
begin

text \<open>
  Checking and completing an evaluated config (\<open>src/src/spec.rs\<close>, \<open>parse_config\<close> and
  the sections it calls). Each section is a checker over the top-level object: it reports what
  is wrong in the section and returns the setting, with the defaults filled in.
\<close>

section \<open>The context, and sections that are objects\<close>

record config_context =
  ctx_name :: "string option"
  ctx_storage :: "string option"
  ctx_host_entry :: "string \<Rightarrow> bool"

definition SECTIONS :: "string list" where
  "SECTIONS = [''sandbox'', ''home'', ''devices'', ''dbus'', ''network'', ''display'', ''xwayland'',
     ''links'', ''environment'', ''mount'', ''app'', ''task'']"

text \<open>\<open>if let Some(v) = v && let Some(m) = c.object(path, v) { ... }\<close>, and what stands otherwise.\<close>

definition if_object :: "key_path \<Rightarrow> json option \<Rightarrow> 'a \<Rightarrow> (json_map \<Rightarrow> 'a checker) \<Rightarrow> 'a checker" where
  "if_object p v dflt f = (case v of
      None \<Rightarrow> ret dflt
    | Some v \<Rightarrow> do {
        found \<leftarrow> chk_object p v;
        case found of None \<Rightarrow> ret dflt | Some m \<Rightarrow> f m })"

text \<open>A section that is off when absent or null.\<close>

definition if_enabled :: "key_path \<Rightarrow> json option \<Rightarrow> (json_map \<Rightarrow> 'a option checker) \<Rightarrow> 'a option checker" where
  "if_enabled p v f = (case v of
      None \<Rightarrow> ret None
    | Some v \<Rightarrow> if is_null v then ret None else if_object p (Some v) None f)"

section \<open>sandbox and home\<close>

definition sandbox_object :: "json_map \<Rightarrow> (u64 \<times> bool) checker" where
  "sandbox_object m = do {
     chk_known [Key ''sandbox''] m [''idle-timeout'', ''32-bit''];
     b \<leftarrow> chk_bool [Key ''sandbox''] m ''32-bit'' False;
     case bt_get m ''idle-timeout'' of
       None \<Rightarrow> ret (60, b)
     | Some v \<Rightarrow> (case as_u64 v of
           Some n \<Rightarrow> ret (n, b)
         | None \<Rightarrow> do {
             err [Key ''sandbox'', Key ''idle-timeout''] (message ''expected a whole number of seconds'');
             ret (60, b) })
   }"

definition parse_sandbox :: "json_map \<Rightarrow> (u64 \<times> bool) checker" where
  "parse_sandbox t =
     if_object [Key ''sandbox''] (bt_get t ''sandbox'') (60, False) sandbox_object"

definition home_path :: "string option \<Rightarrow> json_map \<Rightarrow> string option checker" where
  "home_path storage m =
     (if bt_has m ''path'' then chk_path [Key ''home''] m ''path''
      else case storage of
        Some s \<Rightarrow> ret (Some s)
      | None \<Rightarrow> do {
          err [Key ''home'', Key ''path'']
            (Problem ''required with mode {:?} in an unnamed sandbox'' [''path'']);
          ret None })"

definition home_mode :: "string option \<Rightarrow> string option \<Rightarrow> string" where
  "home_mode storage found = (case found of
      Some s \<Rightarrow> s
    | None \<Rightarrow> if storage \<noteq> None then ''path'' else ''temporary'')"

definition home_in_mode :: "string option \<Rightarrow> json_map \<Rightarrow> string \<Rightarrow> home option checker" where
  "home_in_mode storage m mode =
     (if mode = ''temporary'' then do {
        chk_unused [Key ''home''] m [''path'', ''cache''] ''with mode temporary'';
        ret (Some Home_Temporary)
      }
      else if mode = ''path'' then do {
        p \<leftarrow> home_path storage m;
        c \<leftarrow> chk_choice [Key ''home''] m ''cache''
          [(''temporary'', Cache_Temporary), (''persistent'', Cache_Persistent)] Cache_Temporary;
        ret (map_option (\<lambda>p. Home_Path p c) p)
      }
      else do {
        err [Key ''home'', Key ''mode''] (Problem ''expected path or temporary, got {:?}'' [mode]);
        ret None
      })"

definition home_object :: "string option \<Rightarrow> json_map \<Rightarrow> home option checker" where
  "home_object storage m = do {
     chk_known [Key ''home''] m [''mode'', ''path'', ''cache''];
     found \<leftarrow> chk_string [Key ''home''] m ''mode'';
     home_in_mode storage m (home_mode storage found)
   }"

definition parse_home :: "string option \<Rightarrow> json_map \<Rightarrow> home option checker" where
  "parse_home storage t = if_enabled [Key ''home''] (bt_get t ''home'') (home_object storage)"

section \<open>devices\<close>

definition DEVICE_SWITCHES :: "(string \<times> device_class \<times> bool) list" where
  "DEVICE_SWITCHES = [(''gpu'', Gpu, True), (''audio'', Audio, True), (''camera'', Camera, False),
     (''gamepad'', Gamepad, False), (''security-key'', Security_Key, False), (''alsa'', Alsa, False)]"

definition device_switch ::
  "json_map \<Rightarrow> string \<times> device_class \<times> bool \<Rightarrow> device_class list \<Rightarrow> device_class list checker" where
  "device_switch m sw ds = (case sw of (key, cls, dflt) \<Rightarrow> do {
     b \<leftarrow> chk_bool [Key ''devices''] m key dflt;
     ret (if b then ds @ [cls] else ds) })"

definition usb_entry :: "nat \<times> string \<Rightarrow> device_class list \<Rightarrow> device_class list checker" where
  "usb_entry e ds = (case usb_device (snd e) of
      Inr d \<Rightarrow> ret (if d \<notin> set ds then ds @ [d] else ds)
    | Inl p \<Rightarrow> do { err [Key ''devices'', Key ''usb'', Index (fst e)] p; ret ds })"

definition devices_object :: "json_map \<Rightarrow> device_class list checker" where
  "devices_object m = do {
     chk_known [Key ''devices''] m
       [''gpu'', ''audio'', ''camera'', ''gamepad'', ''security-key'', ''alsa'', ''usb''];
     ds \<leftarrow> for_fold (device_switch m) DEVICE_SWITCHES [];
     ids \<leftarrow> chk_strings [Key ''devices''] m ''usb'';
     for_fold usb_entry (enumerate 0 ids) ds
   }"

definition parse_devices :: "json_map \<Rightarrow> device_class list checker" where
  "parse_devices t =
     if_object [Key ''devices''] (bt_get t ''devices'') [Gpu, Audio] devices_object"

section \<open>dbus and network\<close>

definition talk_entry :: "nat \<times> string \<Rightarrow> string list \<Rightarrow> string list checker" where
  "talk_entry e out = (case validate_talk_name (snd e) of
      Inr _ \<Rightarrow> ret (if snd e \<notin> set out then out @ [snd e] else out)
    | Inl p \<Rightarrow> do { err [Key ''dbus'', Key ''talk'', Index (fst e)] p; ret out })"

definition dbus_talk :: "json_map \<Rightarrow> dbus_mode \<Rightarrow> string list checker" where
  "dbus_talk m mode = (case mode of
      Dbus_Host \<Rightarrow> do {
        chk_unused [Key ''dbus''] m [''talk''] ''with mode host, which reaches every name'';
        ret [] }
    | Dbus_Portal \<Rightarrow> do {
        names \<leftarrow> chk_strings [Key ''dbus''] m ''talk'';
        for_fold talk_entry (enumerate 0 names) [] })"

definition dbus_object :: "json_map \<Rightarrow> dbus_setting option checker" where
  "dbus_object m = do {
     chk_known [Key ''dbus''] m [''mode'', ''talk''];
     mode \<leftarrow> chk_choice [Key ''dbus''] m ''mode''
       [(''portal'', Dbus_Portal), (''host'', Dbus_Host)] Dbus_Portal;
     names \<leftarrow> dbus_talk m mode;
     ret (Some \<lparr> mode_of_dbus = mode, talk = names \<rparr>)
   }"

definition parse_dbus :: "json_map \<Rightarrow> dbus_setting option checker" where
  "parse_dbus t = if_enabled [Key ''dbus''] (bt_get t ''dbus'') dbus_object"

definition network_object :: "json_map \<Rightarrow> network_setting checker" where
  "network_object m = do {
     chk_known [Key ''network''] m [''mode''];
     chk_choice [Key ''network''] m ''mode''
       [(''automatic'', Net_Automatic), (''isolated'', Net_Isolated), (''host'', Net_Host)]
       Net_Automatic
   }"

definition parse_network :: "json_map \<Rightarrow> network_setting checker" where
  "parse_network t = (case bt_get t ''network'' of
      None \<Rightarrow> ret Net_Automatic
    | Some v \<Rightarrow>
        if is_null v then ret Net_Loopback
        else if_object [Key ''network''] (Some v) Net_Automatic network_object)"

section \<open>display, xwayland and links\<close>

definition parse_display :: "json_map \<Rightarrow> bool checker" where
  "parse_display t = (case bt_get t ''display'' of
      None \<Rightarrow> ret True
    | Some v \<Rightarrow>
        if is_null v then ret False
        else if_object [Key ''display''] (Some v) True (\<lambda>m. do {
          chk_known [Key ''display''] m [];
          ret True }))"

definition xwayland_scale_of :: "json_map \<Rightarrow> xwayland_mode \<Rightarrow> xwayland_scale checker" where
  "xwayland_scale_of m mode = (case mode of
      Builtin \<Rightarrow> chk_choice [Key ''xwayland''] m ''scale''
        [(''native'', Native), (''round-up'', Round_Up), (''compositor'', Compositor)] Native
    | Satellite \<Rightarrow> do {
        chk_unused [Key ''xwayland''] m [''scale'']
          ''with mode xwayland-satellite (the title bar proxy of psbox scales)'';
        ret Native })"

definition xwayland_object :: "json_map \<Rightarrow> xwayland_setting option checker" where
  "xwayland_object m = do {
     chk_known [Key ''xwayland''] m [''mode'', ''scale''];
     mode \<leftarrow> chk_choice [Key ''xwayland''] m ''mode''
       [(''builtin'', Builtin), (''xwayland-satellite'', Satellite)] Builtin;
     scale \<leftarrow> xwayland_scale_of m mode;
     ret (Some \<lparr> mode_of_xwayland = mode, scale_of_xwayland = scale \<rparr>)
   }"

definition parse_xwayland :: "bool \<Rightarrow> json_map \<Rightarrow> xwayland_setting option checker" where
  "parse_xwayland shown t =
     if_enabled [Key ''xwayland''] (if shown then bt_get t ''xwayland'' else None) xwayland_object"

definition OPEN_CHOICES :: "(string \<times> open_in) list" where
  "OPEN_CHOICES = [(''host'', Open_Host), (''sandbox'', Open_Sandbox)]"

definition default_links :: links_setting where
  "default_links = \<lparr> link_http = Open_Host, link_https = Open_Host, link_mailto = Open_Host \<rparr>"

definition links_object :: "json_map \<Rightarrow> links_setting checker" where
  "links_object m = do {
     chk_known [Key ''links''] m [''http'', ''https'', ''mailto''];
     http \<leftarrow> chk_choice [Key ''links''] m ''http'' OPEN_CHOICES Open_Host;
     https \<leftarrow> chk_choice [Key ''links''] m ''https'' OPEN_CHOICES Open_Host;
     mailto \<leftarrow> chk_choice [Key ''links''] m ''mailto'' OPEN_CHOICES Open_Host;
     ret \<lparr> link_http = http, link_https = https, link_mailto = mailto \<rparr>
   }"

definition parse_links :: "json_map \<Rightarrow> links_setting checker" where
  "parse_links t = if_object [Key ''links''] (bt_get t ''links'') default_links links_object"

end
