(* ===== verification/Spec_Entries.thy ===== *)
theory Spec_Entries
  imports Spec_Parse
begin

text \<open>
  The named entries of a config (\<open>src/src/spec.rs\<close>): mounts, desktop keys and actions,
  applications, tasks, and the whole config on top of its sections. The entries of an object
  are visited in key order; an entry with an error is left out where the source says
  \<open>continue\<close>.
\<close>

section \<open>Mounts\<close>

definition mount_source_of :: "key_path \<Rightarrow> json_map \<Rightarrow> mount_mode \<Rightarrow> bool \<Rightarrow> string option \<Rightarrow> string option checker" where
  "mount_source_of p m mode create dest =
     (if mode = Empty_Mount then do {
        chk_unused p m [''source''] ''with mode empty'';
        (if create then err (at_key p ''create'') (message ''an empty mount has no source to create'')
         else ret ());
        (if dest = None \<and> \<not> bt_has m ''destination''
         then err (at_key p ''destination'') (message ''required with mode empty'') else ret ());
        ret None
      }
      else do {
        s \<leftarrow> chk_path p m ''source'';
        (if s = None \<and> \<not> bt_has m ''source'' then err (at_key p ''source'') (message ''required'')
         else ret ());
        ret s
      })"

definition mount_object :: "key_path \<Rightarrow> json_map \<Rightarrow> mount_spec option checker" where
  "mount_object p m = do {
     chk_known p m [''source'', ''destination'', ''mode'', ''optional'', ''create''];
     mode \<leftarrow> chk_choice p m ''mode'' [(''read-write'', Read_Write), (''read-only'', Read_Only),
       (''overlay'', Overlay), (''empty'', Empty_Mount)] Read_Write;
     optional \<leftarrow> chk_bool p m ''optional'' False;
     create \<leftarrow> chk_bool p m ''create'' False;
     dest \<leftarrow> (if bt_has m ''destination'' then chk_path p m ''destination'' else ret None);
     source \<leftarrow> mount_source_of p m mode create dest;
     (if create \<and> optional
      then err (at_key p ''create'') (message ''an optional mount is never created'') else ret ());
     ret (map_option (\<lambda>d. \<lparr> mount_source = source, mount_destination = d, mode_of_mount = mode,
         mount_optional = optional, mount_create = create \<rparr>)
       (case dest of Some d \<Rightarrow> Some d | None \<Rightarrow> source))
   }"

definition insert_found :: "('k::linorder, 'v) btree \<Rightarrow> 'k \<Rightarrow> 'v option \<Rightarrow> ('k, 'v) btree" where
  "insert_found out k found = (case found of None \<Rightarrow> out | Some v \<Rightarrow> bt_insert out k v)"

definition mount_entry ::
  "string \<times> json \<Rightarrow> (string, mount_spec) btree \<Rightarrow> (string, mount_spec) btree checker" where
  "mount_entry e out = (let p = [Key ''mount'', Key (fst e)] in do {
     report p (validate_name ''mount'' (fst e));
     found \<leftarrow> if_enabled p (Some (snd e)) (mount_object p);
     ret (insert_found out (fst e) found) })"

text \<open>Two mounts at one destination: the same mount twice merges, anything else is a conflict.\<close>

definition same_destination ::
  "string \<times> mount_spec \<Rightarrow> (string \<times> mount_spec) list \<times> string list \<Rightarrow>
     ((string \<times> mount_spec) list \<times> string list) checker" where
  "same_destination e st = (case st of (seen, dropped) \<Rightarrow>
     (case find (\<lambda>s. mount_destination (snd s) = mount_destination (snd e)) seen of
       None \<Rightarrow> ret (seen @ [e], dropped)
     | Some s \<Rightarrow>
         if snd s = snd e then ret (seen, dropped @ [fst e])
         else do {
           err [Key ''mount'', Key (fst e)] (Problem ''{} is also the destination of mount {}''
             [mount_destination (snd e), fst s]);
           ret (seen, dropped) }))"

definition parse_mounts :: "json option \<Rightarrow> (string, mount_spec) btree checker" where
  "parse_mounts v = if_object [Key ''mount''] v [] (\<lambda>entries. do {
     out \<leftarrow> for_fold mount_entry entries [];
     (seen, dropped) \<leftarrow> for_fold same_destination out ([], []);
     ret (fold (\<lambda>name m. bt_remove m name) dropped out)
   })"

section \<open>Desktop keys and actions\<close>

definition RESERVED_KEYS :: "string list" where
  "RESERVED_KEYS = [''Exec'', ''TryExec'', ''DBusActivatable'', ''Hidden'', ''Type'', ''Actions'',
     ''NoDisplay'']"

definition key_word :: "string \<Rightarrow> bool" where
  "key_word s \<longleftrightarrow> s \<noteq> [] \<and> list_all (\<lambda>c. is_alnum c \<or> c = CHR ''-'') s"

definition locale_entry ::
  "key_path \<Rightarrow> string \<times> json \<Rightarrow> string option \<times> (string, string) btree \<Rightarrow>
     (string option \<times> (string, string) btree) checker" where
  "locale_entry kp e st = (case st of (dflt, locales) \<Rightarrow>
     (case snd e of
       JString text \<Rightarrow>
         if fst e = ''default'' then ret (Some text, locales)
         else if valid_locale (fst e) then ret (dflt, bt_insert locales (fst e) text)
         else do {
           err (at_key kp (fst e)) (message ''not a locale (lang_COUNTRY.ENCODING@MODIFIER)'');
           ret st }
     | v \<Rightarrow> do { err (at_key kp (fst e)) (expected ''a string'' v); ret st }))"

definition key_value_of :: "key_path \<Rightarrow> json \<Rightarrow> key_value option checker" where
  "key_value_of kp v = (case v of
      JNull \<Rightarrow> ret (Some Remove_Key)
    | JBool b \<Rightarrow> ret (Some (Bool_Value b))
    | JString s \<Rightarrow> ret (Some (Str_Value s))
    | JArray items \<Rightarrow> do { ss \<leftarrow> chk_items kp items; ret (Some (List_Value ss)) }
    | JObject m \<Rightarrow> do {
        (dflt, locales) \<leftarrow> for_fold (locale_entry kp) m (None, []);
        case dflt of
          Some d \<Rightarrow> ret (Some (Localized d locales))
        | None \<Rightarrow> do { err (at_key kp ''default'') (message ''required''); ret None } }
    | JNumber _ \<Rightarrow> do {
        err kp (message ''expected a string, boolean, list, or translations''); ret None })"

definition key_entry ::
  "key_path \<Rightarrow> string list \<Rightarrow> string \<times> json \<Rightarrow> (string, key_value) btree \<Rightarrow>
     (string, key_value) btree checker" where
  "key_entry p extra e out = (let kp = at_key p (fst e) in
     if \<not> key_word (fst e) then do {
       err kp (message ''desktop keys are letters, digits, and - (translations go in an object)'');
       ret out }
     else if fst e \<in> set RESERVED_KEYS \<or> fst e \<in> set extra then do {
       err kp (message ''psbox sets this key itself'');
       ret out }
     else do {
       val \<leftarrow> key_value_of kp (snd e);
       case val of None \<Rightarrow> ret out | Some kv \<Rightarrow> ret (bt_insert out (fst e) kv) })"

definition parse_keys :: "key_path \<Rightarrow> json option \<Rightarrow> string list \<Rightarrow> (string, key_value) btree checker" where
  "parse_keys p v extra = if_object p v [] (\<lambda>m. for_fold (key_entry p extra) m [])"

definition action_entry ::
  "key_path \<Rightarrow> string \<times> json \<Rightarrow> (string, action option) btree \<Rightarrow>
     (string, action option) btree checker" where
  "action_entry p e out = (let ap = at_key p (fst e) in
     if \<not> key_word (fst e) then do {
       err ap (message ''action names are letters, digits, and -'');
       ret out }
     else if is_null (snd e) then ret (bt_insert out (fst e) None)
     else do {
       found \<leftarrow> chk_object ap (snd e);
       case found of
         None \<Rightarrow> ret out
       | Some a \<Rightarrow> do {
           arguments \<leftarrow> chk_strings ap a ''arguments'';
           ks \<leftarrow> parse_keys ap (Some (JObject (bt_remove a ''arguments''))) [];
           ret (bt_insert out (fst e)
             (Some \<lparr> action_arguments = arguments, action_keys = ks \<rparr>)) } })"

definition parse_actions :: "key_path \<Rightarrow> json option \<Rightarrow> (string, action option) btree checker" where
  "parse_actions p v = if_object p v [] (\<lambda>m. for_fold (action_entry p) m [])"

section \<open>Applications and autostart entries\<close>

definition source_id_of :: "key_path \<Rightarrow> json_map \<Rightarrow> string option checker" where
  "source_id_of p m = do {
     sid \<leftarrow> (case bt_get m ''source-id'' of
         None \<Rightarrow> ret None
       | Some v \<Rightarrow> if is_null v then ret None else chk_string p m ''source-id'');
     (case sid of None \<Rightarrow> ret () | Some s \<Rightarrow> report (at_key p ''source-id'') (validate_app_id s));
     ret sid
   }"

definition app_run_of :: "key_path \<Rightarrow> json_map \<Rightarrow> bool \<Rightarrow> string \<Rightarrow> string list checker" where
  "app_run_of p m dflt sandbox = do {
     run \<leftarrow> chk_strings p m ''run'';
     if \<not> bt_has m ''run'' then
       (if dflt then ret [sandbox]
        else do { err (at_key p ''run'') (message ''required''); ret run })
     else if run = [] then do { err (at_key p ''run'') (message ''is empty''); ret run }
     else ret run
   }"

definition application_entry ::
  "config_context \<Rightarrow> string \<Rightarrow> string \<Rightarrow> key_path \<Rightarrow> json_map \<Rightarrow> string \<Rightarrow> string option \<Rightarrow> string list \<Rightarrow>
     (string, key_value) btree \<Rightarrow> app_spec checker" where
  "application_entry ctx sandbox name p m i sid removed ks = do {
     chk_known p m [''kind'', ''id'', ''suppress'', ''run'', ''environment'', ''source-id'',
       ''remove-arguments'', ''keys'', ''actions'', ''no-display''];
     run \<leftarrow> app_run_of p m (name = sandbox) sandbox;
     let sid' = (if name = sandbox \<and> \<not> bt_has m ''source-id''
                 then (if ctx_host_entry ctx sandbox then Some sandbox else None) else sid)
     in do {
       env \<leftarrow> chk_environment (at_key p ''environment'') (bt_get m ''environment'');
       acts \<leftarrow> parse_actions (at_key p ''actions'') (bt_get m ''actions'');
       hidden \<leftarrow> (if bt_has m ''no-display''
         then do { b \<leftarrow> chk_bool p m ''no-display'' False; ret (Some b) } else ret None);
       ret (Application \<lparr> app_run = run, app_environment = env, app_id = i, app_source_id = sid',
         app_remove_arguments = removed, app_keys = ks, app_actions = acts,
         app_no_display = hidden, app_implicit = False \<rparr>)
     }
   }"

definition autostart_entry ::
  "string \<Rightarrow> key_path \<Rightarrow> json_map \<Rightarrow> string \<Rightarrow> string option \<Rightarrow> string list \<Rightarrow>
     (string, key_value) btree \<Rightarrow> app_spec checker" where
  "autostart_entry sandbox p m i sid removed ks = do {
     chk_known p m [''kind'', ''id'', ''suppress'', ''app'', ''source-id'', ''remove-arguments'',
       ''keys''];
     found \<leftarrow> chk_string p m ''app'';
     ret (Autostart \<lparr> start_app = (case found of Some a \<Rightarrow> a | None \<Rightarrow> sandbox), start_id = i,
       start_source_id = sid, start_remove_arguments = removed, start_keys = ks \<rparr>)
   }"

definition app_object ::
  "config_context \<Rightarrow> string \<Rightarrow> string \<Rightarrow> key_path \<Rightarrow> json_map \<Rightarrow> app_spec checker" where
  "app_object ctx sandbox name p m = do {
     kind \<leftarrow> chk_choice p m ''kind''
       [(''application'', Application_Kind), (''autostart'', Autostart_Kind)] Application_Kind;
     found \<leftarrow> chk_string p m ''id'';
     let i = (case found of Some s \<Rightarrow> s | None \<Rightarrow> name) in do {
       report (at_key p ''id'') (validate_app_id i);
       suppress \<leftarrow> chk_bool p m ''suppress'' False;
       if suppress then do {
         chk_known p m [''kind'', ''id'', ''suppress''];
         ret (Suppress kind i)
       }
       else do {
         sid \<leftarrow> source_id_of p m;
         removed \<leftarrow> chk_strings p m ''remove-arguments'';
         ks \<leftarrow> parse_keys (at_key p ''keys'') (bt_get m ''keys'') [];
         case kind of
           Application_Kind \<Rightarrow> application_entry ctx sandbox name p m i sid removed ks
         | Autostart_Kind \<Rightarrow> autostart_entry sandbox p m i sid removed ks
       }
     }
   }"

definition app_entry ::
  "config_context \<Rightarrow> string \<Rightarrow> string \<times> json \<Rightarrow> (string, app_spec) btree \<Rightarrow>
     (string, app_spec) btree checker" where
  "app_entry ctx sandbox e out = (let p = [Key ''app'', Key (fst e)] in
     case validate_name ''app'' (fst e) of
       Inl er \<Rightarrow> do { err p er; ret out }
     | Inr _ \<Rightarrow>
         if is_null (snd e) then ret out
         else do {
           found \<leftarrow> chk_object p (snd e);
           case found of
             None \<Rightarrow> ret out
           | Some m \<Rightarrow> do {
               a \<leftarrow> app_object ctx sandbox (fst e) p m;
               ret (bt_insert out (fst e) a) } })"

definition implicit_app :: "config_context \<Rightarrow> string \<Rightarrow> app_spec" where
  "implicit_app ctx sandbox = Application \<lparr> app_run = [sandbox], app_environment = [],
     app_id = sandbox, app_source_id = (if ctx_host_entry ctx sandbox then Some sandbox else None),
     app_remove_arguments = [], app_keys = [], app_actions = [], app_no_display = None,
     app_implicit = True \<rparr>"

text \<open>Autostart entries start an application of the config.\<close>

definition check_starts :: "string \<Rightarrow> (string, app_spec) btree \<Rightarrow> string \<times> app_spec \<Rightarrow> unit checker" where
  "check_starts sandbox out e = (case snd e of
      Autostart s \<Rightarrow> (let p = [Key ''app'', Key (fst e), Key ''app''] in
        case bt_get out (start_app s) of
          Some (Application _) \<Rightarrow> ret ()
        | Some _ \<Rightarrow> err p (Problem ''{} is not an application'' [start_app s])
        | None \<Rightarrow>
            if start_app s = sandbox
            then err p (message ''the default app was removed; name the application to start'')
            else err p (Problem ''no application named {}'' [start_app s]))
    | _ \<Rightarrow> ret ())"

definition writes_entry :: "app_spec \<Rightarrow> bool" where
  "writes_entry a = (case a of Application a \<Rightarrow> has_entry a | _ \<Rightarrow> True)"

definition id_entry ::
  "string \<Rightarrow> (string, app_spec) btree \<Rightarrow> string \<times> app_spec \<Rightarrow>
     ((entry_kind \<times> string) \<times> string) list \<Rightarrow> ((entry_kind \<times> string) \<times> string) list checker" where
  "id_entry sandbox out e ids = do {
     check_starts sandbox out e;
     if \<not> writes_entry (snd e) then ret ids
     else (let k = (app_kind (snd e), entry_id (snd e)) in
       case map_of ids k of
         Some first \<Rightarrow> do {
           err [Key ''app'', Key (fst e)] (Problem ''app {} also has the {} id {}''
             [first, kind_name (fst k), snd k]);
           ret ids }
       | None \<Rightarrow> ret ((k, fst e) # ids))
   }"

definition parse_apps ::
  "json option \<Rightarrow> string \<Rightarrow> config_context \<Rightarrow> (string, app_spec) btree checker" where
  "parse_apps v sandbox ctx = do {
     entries \<leftarrow> if_object [Key ''app''] v [] ret;
     out \<leftarrow> for_fold (app_entry ctx sandbox) entries [];
     let out = (if bt_has entries sandbox then out else bt_insert out sandbox (implicit_app ctx sandbox))
     in do {
       for_fold (id_entry sandbox out) out [];
       ret out
     }
   }"

end
