(* ===== verification/Spec_Check.thy ===== *)
theory Spec_Check
  imports Spec_Entries
begin

text \<open>
  Whole configs (\<open>src/src/spec.rs\<close>): the sections put together, tasks with their own
  composed configs, and \<open>Spec::from_json\<close>, which accepts a config exactly when no checker
  recorded an error. The lemmas show what every accepted config satisfies.
\<close>

section \<open>The sections together\<close>

definition parse_each :: "json_map \<Rightarrow> config_context \<Rightarrow> 'task spec_of checker" where
  "parse_each t ctx = do {
     (idle, b32) \<leftarrow> parse_sandbox t;
     h \<leftarrow> parse_home (ctx_storage ctx) t;
     ds \<leftarrow> parse_devices t;
     db \<leftarrow> parse_dbus t;
     net \<leftarrow> parse_network t;
     disp \<leftarrow> parse_display t;
     xw \<leftarrow> parse_xwayland disp t;
     ls \<leftarrow> parse_links t;
     env \<leftarrow> chk_environment [Key ''environment''] (bt_get t ''environment'');
     ms \<leftarrow> parse_mounts (bt_get t ''mount'');
     ret \<lparr> idle_timeout = idle, allow_32bit = b32, home_of = h, devices = ds, dbus_of = db,
       network_of = net, display = disp, xwayland = xw, links = ls, environment = env,
       mount = ms, app = [], tasks = [] \<rparr>
   }"

definition parse_sections :: "json \<Rightarrow> config_context \<Rightarrow> (json_map \<times> 'task spec_of) checker" where
  "parse_sections v ctx = do {
     t \<leftarrow> if_object [Key ''config''] (Some v) [] ret;
     chk_known [] t SECTIONS;
     s \<leftarrow> parse_each t ctx;
     ret (t, s)
   }"

text \<open>\<open>parse_config\<close> of a task's config: its own app and task sections are its sandbox's.\<close>

definition parse_task_config :: "json \<Rightarrow> config_context \<Rightarrow> unit spec_of checker" where
  "parse_task_config v ctx = do { (t, s) \<leftarrow> parse_sections v ctx; ret s }"

section \<open>Tasks\<close>

definition task_command_of :: "key_path \<Rightarrow> json_map \<Rightarrow> string list checker" where
  "task_command_of p m = (case (bt_get m ''run'', bt_get m ''script'') of
      (Some _, None) \<Rightarrow> do {
        run \<leftarrow> chk_strings p m ''run'';
        (if run = [] then err (at_key p ''run'') (message ''is empty'') else ret ());
        ret run }
    | (None, Some _) \<Rightarrow> do {
        found \<leftarrow> chk_string p m ''script'';
        ret (case found of Some s \<Rightarrow> [''bash'', ''-c'', s] | None \<Rightarrow> []) }
    | _ \<Rightarrow> do { err p (message ''use exactly one of run and script''); ret [] })"

definition task_app_of :: "key_path \<Rightarrow> json_map \<Rightarrow> (string, app_spec) btree \<Rightarrow> string option checker" where
  "task_app_of p m apps = do {
     found \<leftarrow> chk_string p m ''app'';
     (case found of
       None \<Rightarrow> ret ()
     | Some a \<Rightarrow> (case bt_get apps a of
           Some (Application _) \<Rightarrow> ret ()
         | _ \<Rightarrow> err (at_key p ''app'') (Problem ''no application named {}'' [a])));
     ret found
   }"

definition task_overrides :: "key_path \<Rightarrow> json_map \<Rightarrow> unit checker" where
  "task_overrides p m = if_object (at_key p ''overrides'') (bt_get m ''overrides'') () (\<lambda>ov.
     for_each (\<lambda>key. if bt_has ov key
         then err (at_key (at_key p ''overrides'') key) (message ''a task cannot override this'')
         else ret ())
       [''app'', ''task''])"

text \<open>
  Errors in the inherited config are reported once, at the sandbox's own keys; only the task's
  own are new.
\<close>

definition inherit_error :: "key_path \<Rightarrow> key_path \<times> problem \<Rightarrow> unit checker" where
  "inherit_error p e = do {
     es \<leftarrow> State_Monad.get;
     if e \<in> set es then ret () else err (p @ With_overrides # fst e) (snd e)
   }"

text \<open>The end of an entry: the task's own config, checked by a checker of its own.\<close>

definition task_finish ::
  "(string, json) btree \<Rightarrow> config_context \<Rightarrow> string \<Rightarrow> key_path \<Rightarrow> string list \<Rightarrow> string option \<Rightarrow>
     task_spec option checker" where
  "task_finish configs ctx name p command a = (case bt_get configs name of
      None \<Rightarrow> do { err p (message ''missing from the evaluation''); ret None }
    | Some config \<Rightarrow> (case run_state (parse_task_config config ctx) [] of (s, es) \<Rightarrow> do {
        for_each (inherit_error p) es;
        (if a \<noteq> None \<and> dbus_of s = None
         then err (at_key p ''app'')
           (message ''needs a session bus to use the portal identity of an app'')
         else ret ());
        ret (Some \<lparr> task_command = command, task_app = a,
          task_config = s \<lparr> idle_timeout := 0 \<rparr> \<rparr>) }))"

definition task_object ::
  "(string, json) btree \<Rightarrow> (string, app_spec) btree \<Rightarrow> config_context \<Rightarrow> string \<Rightarrow> key_path \<Rightarrow>
     json_map \<Rightarrow> task_spec option checker" where
  "task_object configs apps ctx name p m = do {
     chk_known p m [''run'', ''script'', ''app'', ''overrides''];
     command \<leftarrow> task_command_of p m;
     a \<leftarrow> task_app_of p m apps;
     task_overrides p m;
     task_finish configs ctx name p command a
   }"

definition task_entry ::
  "(string, json) btree \<Rightarrow> (string, app_spec) btree \<Rightarrow> config_context \<Rightarrow> string \<times> json \<Rightarrow>
     (string, task_spec) btree \<Rightarrow> (string, task_spec) btree checker" where
  "task_entry configs apps ctx e out = (let p = [Key ''task'', Key (fst e)] in
     if \<not> valid_word (fst e) then do {
       err p (message ''invalid task name: use letters, digits, _, -'');
       ret out }
     else do {
       found \<leftarrow> if_enabled p (Some (snd e)) (task_object configs apps ctx (fst e) p);
       ret (insert_found out (fst e) found) })"

definition parse_tasks ::
  "json option \<Rightarrow> (string, json) btree \<Rightarrow> (string, app_spec) btree \<Rightarrow> config_context \<Rightarrow>
     (string, task_spec) btree checker" where
  "parse_tasks v configs apps ctx =
     if_object [Key ''task''] v [] (\<lambda>entries. for_fold (task_entry configs apps ctx) entries [])"

section \<open>The config\<close>

definition parse_config :: "json \<Rightarrow> (string, json) btree \<Rightarrow> config_context \<Rightarrow> spec checker" where
  "parse_config v configs ctx = do {
     (t, s) \<leftarrow> parse_sections v ctx;
     case ctx_name ctx of
       None \<Rightarrow> ret s
     | Some name \<Rightarrow> do {
         apps \<leftarrow> parse_apps (bt_get t ''app'') name ctx;
         ts \<leftarrow> parse_tasks (bt_get t ''task'') configs apps ctx;
         ret (s \<lparr> app := apps, tasks := ts \<rparr>) }
   }"

definition from_json :: "json \<Rightarrow> (string, json) btree \<Rightarrow> config_context \<Rightarrow> errors + spec" where
  "from_json v configs ctx = (case run_state (parse_config v configs ctx) [] of
      (s, es) \<Rightarrow> if es = [] then Inr s else Inl es)"

section \<open>The rules of the combinators\<close>

lemma checks_if_object [checks_intro]:
  assumes "v = None \<Longrightarrow> Q dflt" and "\<And>m. v = Some (JObject m) \<Longrightarrow> checks (f m) Q"
  shows "checks (if_object p v dflt f) Q"
proof (cases v)
  case None
  then show ?thesis using assms(1) by (simp add: if_object_def)
next
  case (Some w)
  show ?thesis
  proof (cases "\<exists>m. w = JObject m")
    case True
    then show ?thesis using assms(2) Some by (auto simp: if_object_def)
  next
    case False
    then have "chk_object p w = do { err p (expected ''an object'' w); ret None }"
      by (cases w) (auto simp: chk_object_def)
    then show ?thesis by (simp add: Some if_object_def checks_err_bind)
  qed
qed

lemma checks_if_object_any: "(\<And>m. checks (f m) Q) \<Longrightarrow> Q dflt \<Longrightarrow> checks (if_object p v dflt f) Q"
  by (rule checks_if_object)

lemma checks_if_enabled [checks_intro]:
  assumes "Q None" and "\<And>m. v = Some (JObject m) \<Longrightarrow> checks (f m) Q"
  shows "checks (if_enabled p v f) Q"
proof (cases v)
  case None
  then show ?thesis using assms(1) by (simp add: if_enabled_def)
next
  case (Some w)
  then show ?thesis
    using assms by (auto simp: if_enabled_def is_null_def intro!: checks_if_object)
qed

lemma checks_True_bind:
  "checks m (\<lambda>_. True) \<Longrightarrow> (\<And>x. checks (f x) Q) \<Longrightarrow> checks (do { x \<leftarrow> m; f x }) Q"
  by (rule checks_bind [of _ "\<lambda>_. True"]) simp_all

section \<open>What an accepted config satisfies, section by section\<close>

definition home_ok :: "string option \<Rightarrow> home option \<Rightarrow> bool" where
  "home_ok storage h = (case h of
      Some (Home_Path p _) \<Rightarrow> path_ok p \<or> storage = Some p
    | _ \<Rightarrow> True)"

lemma checks_home_path [checks_intro]:
  "checks (home_path storage m) (\<lambda>r. \<exists>p. r = Some p \<and> (path_ok p \<or> storage = Some p))"
proof (cases "bt_has m ''path''")
  case True
  then show ?thesis unfolding home_path_def bt_has_def
    by (auto intro!: checks_mono [OF checks_path] simp: absolute_ok)
next
  case False
  then show ?thesis by (cases storage) (simp_all add: home_path_def)
qed

lemma checks_home_in_mode: "checks (home_in_mode storage m mode) (home_ok storage)"
proof -
  have "checks (do {
        p \<leftarrow> home_path storage m;
        c \<leftarrow> chk_choice [Key ''home''] m ''cache''
          [(''temporary'', Cache_Temporary), (''persistent'', Cache_Persistent)] Cache_Temporary;
        ret (map_option (\<lambda>p. Home_Path p c) p) }) (home_ok storage)"
    by (rule checks_bind [OF checks_home_path], rule checks_bind [OF checks_choice])
      (auto simp: home_ok_def)
  moreover have "checks (do {
        chk_unused [Key ''home''] m [''path'', ''cache''] ''with mode temporary'';
        ret (Some Home_Temporary) }) (home_ok storage)"
    by (rule checks_bind [OF checks_unused]) (simp add: home_ok_def)
  ultimately show ?thesis by (simp add: home_in_mode_def)
qed

lemma checks_home: "checks (parse_home storage t) (home_ok storage)"
  unfolding parse_home_def home_object_def
  by (rule checks_if_enabled)
    (simp add: home_ok_def, intro checks_after [OF checks_known] checks_after [OF checks_string]
      checks_home_in_mode)

text \<open>The device list: the classes that are on, in their fixed order, then the USB devices.\<close>

definition CLASSES :: "device_class list" where
  "CLASSES = map (fst \<circ> snd) DEVICE_SWITCHES"

definition is_usb :: "device_class \<Rightarrow> bool" where
  "is_usb d = (case d of Usb _ _ \<Rightarrow> True | _ \<Rightarrow> False)"

definition devices_ok :: "device_class list \<Rightarrow> bool" where
  "devices_ok ds \<longleftrightarrow> distinct ds \<and> ds = filter (\<lambda>d. d \<in> set ds) CLASSES @ filter is_usb ds"

definition switch_on :: "json_map \<Rightarrow> string \<times> device_class \<times> bool \<Rightarrow> bool" where
  "switch_on m sw = (case bt_get m (fst sw) of Some (JBool b) \<Rightarrow> b | _ \<Rightarrow> snd (snd sw))"

lemma checks_device_switches:
  "checks (for_fold (device_switch m) sws ds)
     (\<lambda>ds'. ds' = ds @ map (fst \<circ> snd) (filter (switch_on m) sws))"
proof (induction sws arbitrary: ds)
  case (Cons sw sws)
  obtain key cls dflt where sw: "sw = (key, cls, dflt)" by (cases sw)
  have "checks (device_switch m sw ds) (\<lambda>ds'. ds' = ds @ (if switch_on m sw then [cls] else []))"
    unfolding device_switch_def sw prod.case
    by (rule checks_bind [OF checks_bool])
      (auto simp: switch_on_def split: option.split json.split)
  then show ?case unfolding for_fold.simps
    by (rule checks_bind) (rule checks_mono [OF Cons.IH], simp add: sw)
qed simp

lemma map_filter_inj:
  "inj_on f (set xs) \<Longrightarrow> map f (filter P xs) = filter (\<lambda>y. y \<in> f ` {x \<in> set xs. P x}) (map f xs)"
  by (auto simp: filter_map comp_def inj_on_def intro!: arg_cong [of _ _ "map f"] filter_cong)

lemma classes_not_usb: "d \<in> set CLASSES \<Longrightarrow> \<not> is_usb d"
  by (auto simp: CLASSES_def DEVICE_SWITCHES_def is_usb_def)

lemma devices_okI:
  "distinct ds \<Longrightarrow> ds = filter (\<lambda>d. d \<in> set ds) CLASSES \<Longrightarrow> set ds \<subseteq> set CLASSES \<Longrightarrow> devices_ok ds"
proof -
  assume ds: "distinct ds" "ds = filter (\<lambda>d. d \<in> set ds) CLASSES" "set ds \<subseteq> set CLASSES"
  have "filter is_usb ds = []" using ds(3) classes_not_usb by (auto simp: filter_empty_conv)
  with ds(1,2) show ?thesis unfolding devices_ok_def by (metis append_Nil2)
qed

lemma switches_ok: "devices_ok (map (fst \<circ> snd) (filter (switch_on m) DEVICE_SWITCHES))"
  (is "devices_ok ?ds")
proof (rule devices_okI)
  have inj: "inj_on (fst \<circ> snd) (set DEVICE_SWITCHES)" and d: "distinct CLASSES"
    by (simp_all add: CLASSES_def DEVICE_SWITCHES_def)
  show eq: "?ds = filter (\<lambda>d. d \<in> set ?ds) CLASSES"
    unfolding CLASSES_def by (subst (1) map_filter_inj [OF inj]) simp
  have "distinct (filter (\<lambda>d. d \<in> set ?ds) CLASSES)" using d by simp
  then show "distinct ?ds" using eq by metis
  show "set ?ds \<subseteq> set CLASSES" by (auto simp: CLASSES_def)
qed

lemma usb_device_usb: "usb_device s = Inr d \<Longrightarrow> is_usb d"
  by (auto simp: usb_device_def is_usb_def split: option.splits)

lemma devices_ok_usb: "devices_ok ds \<Longrightarrow> is_usb d \<Longrightarrow> d \<notin> set ds \<Longrightarrow> devices_ok (ds @ [d])"
proof -
  assume ok: "devices_ok ds" and d: "is_usb d" "d \<notin> set ds"
  have "filter (\<lambda>e. e \<in> set (ds @ [d])) CLASSES = filter (\<lambda>e. e \<in> set ds) CLASSES"
    using classes_not_usb d(1) by (intro filter_cong) auto
  with ok d show ?thesis by (simp add: devices_ok_def)
qed

lemma checks_usb_entry: "checks (usb_entry e ds) (\<lambda>ds'. devices_ok ds \<longrightarrow> devices_ok ds')"
  unfolding usb_entry_def
  by (auto split: sum.split intro: devices_ok_usb usb_device_usb)

lemma checks_devices: "checks (parse_devices t) devices_ok"
  unfolding parse_devices_def
proof (rule checks_if_object)
  show "devices_ok [Gpu, Audio]"
    by (simp add: devices_ok_def CLASSES_def DEVICE_SWITCHES_def is_usb_def)
next
  fix m
  show "checks (devices_object m) devices_ok"
    unfolding devices_object_def
  proof (intro checks_after [OF checks_known], rule checks_bind [OF checks_device_switches])
    fix ds
    have "checks (for_fold usb_entry es ds) (\<lambda>ds'. devices_ok ds \<longrightarrow> devices_ok ds')" for es
      by (rule checks_for_fold) (rule checks_usb_entry)
    then have "checks (for_fold usb_entry es ds) (\<lambda>ds'.
        ds = [] @ map (fst \<circ> snd) (filter (switch_on m) DEVICE_SWITCHES) \<longrightarrow> devices_ok ds')" for es
      by (rule checks_mono) (use switches_ok in auto)
    then show "checks (do { ids \<leftarrow> chk_strings [Key ''devices''] m ''usb'';
        for_fold usb_entry (enumerate 0 ids) ds }) (\<lambda>ds'.
        ds = [] @ map (fst \<circ> snd) (filter (switch_on m) DEVICE_SWITCHES) \<longrightarrow> devices_ok ds')"
      by (intro checks_after [OF checks_strings])
  qed
qed

definition dbus_ok :: "dbus_setting option \<Rightarrow> bool" where
  "dbus_ok d = (case d of
      None \<Rightarrow> True
    | Some d \<Rightarrow> (mode_of_dbus d = Dbus_Host \<longrightarrow> talk d = []) \<and> distinct (talk d) \<and>
        list_all (\<lambda>n. validate_talk_name n = Inr ()) (talk d))"

definition talk_ok :: "string list \<Rightarrow> bool" where
  "talk_ok ns \<longleftrightarrow> distinct ns \<and> list_all (\<lambda>n. validate_talk_name n = Inr ()) ns"

lemma checks_talk_entry: "checks (talk_entry e out) (\<lambda>out'. talk_ok out \<longrightarrow> talk_ok out')"
  unfolding talk_entry_def by (auto simp: talk_ok_def split: sum.split)

lemma checks_dbus_talk:
  "checks (dbus_talk m mode) (\<lambda>ns. talk_ok ns \<and> (mode = Dbus_Host \<longrightarrow> ns = []))"
proof -
  have "checks (for_fold talk_entry es []) (\<lambda>ns. talk_ok [] \<longrightarrow> talk_ok ns)" for es
    by (rule checks_for_fold) (rule checks_talk_entry)
  then have "checks (for_fold talk_entry es []) talk_ok" for es
    by (rule checks_mono) (simp add: talk_ok_def)
  then show ?thesis
    by (cases mode) (auto simp: dbus_talk_def talk_ok_def [of "[]"]
        intro!: checks_after [OF checks_strings] checks_after [OF checks_unused])
qed

lemma checks_dbus: "checks (parse_dbus t) dbus_ok"
  unfolding parse_dbus_def dbus_object_def
proof (rule checks_if_enabled)
  show "dbus_ok None" by (simp add: dbus_ok_def)
next
  fix m
  show "checks (do {
     chk_known [Key ''dbus''] m [''mode'', ''talk''];
     mode \<leftarrow> chk_choice [Key ''dbus''] m ''mode''
       [(''portal'', Dbus_Portal), (''host'', Dbus_Host)] Dbus_Portal;
     names \<leftarrow> dbus_talk m mode;
     ret (Some \<lparr> mode_of_dbus = mode, talk = names \<rparr>) }) dbus_ok"
    by (intro checks_after [OF checks_known] checks_after [OF checks_choice]
        checks_bind [OF checks_dbus_talk]) (simp add: dbus_ok_def talk_ok_def)
qed

definition xwayland_ok :: "bool \<Rightarrow> xwayland_setting option \<Rightarrow> bool" where
  "xwayland_ok shown x = (case x of
      None \<Rightarrow> True
    | Some x \<Rightarrow> shown \<and> (mode_of_xwayland x = Satellite \<longrightarrow> scale_of_xwayland x = Native))"

lemma checks_scale_of: "checks (xwayland_scale_of m mode) (\<lambda>s. mode = Satellite \<longrightarrow> s = Native)"
  by (cases mode) (auto simp: xwayland_scale_of_def
      intro!: checks_after [OF checks_unused] checks_mono [OF checks_choice])

lemma checks_xwayland: "checks (parse_xwayland shown t) (xwayland_ok shown)"
  unfolding parse_xwayland_def xwayland_object_def
proof (rule checks_if_enabled)
  show "xwayland_ok shown None" by (simp add: xwayland_ok_def)
next
  fix m
  assume "(if shown then bt_get t ''xwayland'' else None) = Some (JObject m)"
  then have shown by (simp split: if_splits)
  then show "checks (do {
     chk_known [Key ''xwayland''] m [''mode'', ''scale''];
     mode \<leftarrow> chk_choice [Key ''xwayland''] m ''mode''
       [(''builtin'', Builtin), (''xwayland-satellite'', Satellite)] Builtin;
     scale \<leftarrow> xwayland_scale_of m mode;
     ret (Some \<lparr> mode_of_xwayland = mode, scale_of_xwayland = scale \<rparr>) }) (xwayland_ok shown)"
    by (intro checks_after [OF checks_known] checks_after [OF checks_choice]
        checks_bind [OF checks_scale_of]) (simp add: xwayland_ok_def)
qed

lemma checks_sandbox: "checks (parse_sandbox t) (\<lambda>_. True)"
  unfolding parse_sandbox_def sandbox_object_def
  by (intro checks_if_object checks_after [OF checks_known] checks_after [OF checks_bool])
    (auto split: option.split)

lemma checks_network: "checks (parse_network t) (\<lambda>_. True)"
  unfolding parse_network_def network_object_def
  by (auto split: option.split
      intro!: checks_if_object checks_after [OF checks_known] checks_mono [OF checks_choice])

lemma checks_display: "checks (parse_display t) (\<lambda>_. True)"
  unfolding parse_display_def
  by (auto split: option.split intro!: checks_if_object checks_after [OF checks_known])

lemma checks_links: "checks (parse_links t) (\<lambda>_. True)"
  unfolding parse_links_def links_object_def
  by (intro checks_if_object checks_after [OF checks_known] checks_after [OF checks_choice]) simp_all

section \<open>Mounts\<close>

definition mount_ok :: "mount_spec \<Rightarrow> bool" where
  "mount_ok m \<longleftrightarrow> path_ok (mount_destination m) \<and> \<not> (mount_create m \<and> mount_optional m) \<and>
     (if mode_of_mount m = Empty_Mount then mount_source m = None \<and> \<not> mount_create m
      else \<exists>s. mount_source m = Some s \<and> path_ok s)"

definition mounts_named :: "(string, mount_spec) btree \<Rightarrow> bool" where
  "mounts_named ms \<longleftrightarrow> bt_ok ms \<and> list_all (\<lambda>e. name_ok (fst e) \<and> mount_ok (snd e)) ms"

definition mounts_ok :: "(string, mount_spec) btree \<Rightarrow> bool" where
  "mounts_ok ms \<longleftrightarrow> mounts_named ms \<and> distinct (map (\<lambda>e. mount_destination (snd e)) ms)"

lemma checks_if_err: "(\<not> b \<Longrightarrow> Q ()) \<Longrightarrow> checks (if b then err p e else ret ()) Q"
  by (auto intro: checks_fails [OF checks_err])

lemma checks_mount_source_of:
  "checks (mount_source_of p m mode create dest) (\<lambda>r.
     (if mode = Empty_Mount then r = None \<and> \<not> create \<and> (dest = None \<longrightarrow> bt_has m ''destination'')
      else \<exists>s. r = Some s \<and> path_ok s))"
proof (cases "mode = Empty_Mount")
  case True
  have 1: "checks (if create then err (at_key p ''create'') e else ret ()) (\<lambda>_. \<not> create)" for e
    by (rule checks_if_err)
  have 2: "checks (if dest = None \<and> \<not> bt_has m ''destination'' then err p2 e else ret ())
      (\<lambda>_. dest = None \<longrightarrow> bt_has m ''destination'')" for p2 e
    by (rule checks_if_err) blast
  show ?thesis unfolding mount_source_of_def if_P [OF True]
    by (intro checks_after [OF checks_unused] checks_bind [OF 1] checks_bind [OF 2]) simp
next
  case False
  have 1: "checks (if s = None \<and> \<not> bt_has m ''source'' then err p2 e else ret ())
      (\<lambda>_. s = None \<longrightarrow> bt_has m ''source'')" for s :: "string option" and p2 e
    by (rule checks_if_err) blast
  show ?thesis unfolding mount_source_of_def if_not_P [OF False]
    by (rule checks_bind [OF checks_path], rule checks_bind [OF 1])
      (auto simp: bt_has_def absolute_ok)
qed

lemma checks_validate_name: "checks (report p (validate_name kind name)) (\<lambda>_. name_ok name)"
  by (rule checks_mono [OF checks_report]) (simp add: validate_name_def)

lemma checks_mount_object: "checks (mount_object p m) (\<lambda>r. \<forall>ms. r = Some ms \<longrightarrow> mount_ok ms)"
proof -
  have dest: "checks (if bt_has m ''destination'' then chk_path p m ''destination'' else ret None)
      (\<lambda>d. (d = None \<longrightarrow> \<not> bt_has m ''destination'') \<and> (\<forall>q. d = Some q \<longrightarrow> path_ok q))"
    by (auto simp: bt_has_def absolute_ok intro!: checks_mono [OF checks_path])
  have opt: "checks (if create \<and> optional then err q x else ret ()) (\<lambda>_. \<not> (create \<and> optional))"
    for create optional q x
    by (rule checks_if_err) simp
  show ?thesis unfolding mount_object_def
    by (intro checks_after [OF checks_known] checks_after [OF checks_choice]
        checks_after [OF checks_bool] checks_bind [OF dest] checks_bind [OF checks_mount_source_of]
        checks_bind [OF opt])
      (auto simp: mount_ok_def split: if_splits option.splits)
qed

lemma mounts_named_insert:
  "mounts_named out \<Longrightarrow> name_ok k \<Longrightarrow> (\<And>m. found = Some m \<Longrightarrow> mount_ok m) \<Longrightarrow>
     mounts_named (insert_found out k found)"
  by (cases found) (auto simp: insert_found_def mounts_named_def list_all_iff set_bt_insert)

lemma checks_mount_entry: "checks (mount_entry e out) (\<lambda>out'. mounts_named out \<longrightarrow> mounts_named out')"
proof -
  have "checks (if_enabled p v (mount_object q)) (\<lambda>r. \<forall>ms. r = Some ms \<longrightarrow> mount_ok ms)" for p v q
    by (rule checks_if_enabled) (simp_all add: checks_mount_object)
  then show ?thesis unfolding mount_entry_def Let_def
    by (intro checks_bind [OF checks_validate_name], rule checks_bind)
      (auto intro: mounts_named_insert)
qed

lemma fold_bt_remove:
  "fold (\<lambda>k m. bt_remove m k) ks m = filter (\<lambda>e. fst e \<notin> set ks) m"
  by (induction ks arbitrary: m) (auto simp: bt_remove_def intro: filter_cong)

abbreviation dests :: "(string \<times> mount_spec) list \<Rightarrow> string list" where
  "dests es \<equiv> map (\<lambda>e. mount_destination (snd e)) es"

lemma checks_same_destination_step:
  "checks (same_destination e (seen, dropped)) (\<lambda>(seen', dropped' :: string list).
     seen' = seen @ [e] \<and> dropped' = dropped \<and> mount_destination (snd e) \<notin> set (dests seen) \<or>
     seen' = seen \<and> dropped' = dropped @ [fst e])"
proof (cases "find (\<lambda>s. mount_destination (snd s) = mount_destination (snd e)) seen")
  case None
  then have "mount_destination (snd e) \<notin> set (dests seen)" by (force simp: find_None_iff)
  with None show ?thesis by (simp add: same_destination_def)
next
  case (Some s)
  then show ?thesis by (simp add: same_destination_def)
qed

lemma checks_same_destination:
  "checks (for_fold same_destination xs (seen, dropped)) (\<lambda>(seen', dropped').
     (distinct (dests seen) \<longrightarrow> distinct (dests seen')) \<and> set seen \<subseteq> set seen' \<and>
     set dropped \<subseteq> set dropped' \<and> (\<forall>e \<in> set xs. e \<in> set seen' \<or> fst e \<in> set dropped'))"
proof (induction xs arbitrary: seen dropped)
  case (Cons e xs)
  show ?case unfolding for_fold.simps
  proof (rule checks_bind [OF checks_same_destination_step])
    fix st :: "(string \<times> mount_spec) list \<times> string list"
    obtain s1 d1 where st: "st = (s1, d1)" by (cases st)
    show "checks (for_fold same_destination xs st) (\<lambda>r. (case st of (seen', dropped') \<Rightarrow>
         seen' = seen @ [e] \<and> dropped' = dropped \<and> mount_destination (snd e) \<notin> set (dests seen) \<or>
         seen' = seen \<and> dropped' = dropped @ [fst e]) \<longrightarrow>
       (case r of (seen', dropped') \<Rightarrow>
         (distinct (dests seen) \<longrightarrow> distinct (dests seen')) \<and> set seen \<subseteq> set seen' \<and>
         set dropped \<subseteq> set dropped' \<and>
         (\<forall>e \<in> set (e # xs). e \<in> set seen' \<or> fst e \<in> set dropped')))"
      unfolding st by (rule checks_mono [OF Cons.IH]) auto
  qed
qed simp

lemma checks_mounts: "checks (parse_mounts v) mounts_ok"
  unfolding parse_mounts_def
proof (rule checks_if_object)
  show "mounts_ok []" by (simp add: mounts_ok_def mounts_named_def)
next
  fix m
  have "checks (for_fold mount_entry es []) (\<lambda>out. mounts_named [] \<longrightarrow> mounts_named out)" for es
    by (rule checks_for_fold) (rule checks_mount_entry)
  then have loop: "checks (for_fold mount_entry es []) mounts_named" for es
    by (rule checks_mono) (simp add: mounts_named_def)
  have final: "mounts_ok (fold (\<lambda>name m. bt_remove m name) dropped out)"
    if "mounts_named out" "distinct (dests seen)"
      "\<forall>e \<in> set out. e \<in> set seen \<or> fst e \<in> set dropped" for out seen dropped
  proof -
    let ?k = "filter (\<lambda>e. fst e \<notin> set dropped) out"
    have "distinct out" using that(1) by (auto simp: mounts_named_def distinct_map dest: bt_ok_distinct)
    moreover have "inj_on (\<lambda>e. mount_destination (snd e)) (set ?k)"
      by (rule inj_on_subset [of _ "set seen"]) (use that(2,3) in \<open>auto simp: distinct_map\<close>)
    ultimately have "distinct (dests ?k)" by (simp add: distinct_map)
    moreover have "mounts_named ?k" using that(1) by (auto simp: mounts_named_def list_all_iff)
    ultimately show ?thesis by (simp add: mounts_ok_def fold_bt_remove)
  qed
  show "checks (do {
     out \<leftarrow> for_fold mount_entry m [];
     (seen, dropped) \<leftarrow> for_fold same_destination out ([], []);
     ret (fold (\<lambda>name m. bt_remove m name) dropped out) }) mounts_ok"
    by (rule checks_bind [OF loop], rule checks_bind [OF checks_same_destination])
      (auto intro: final)
qed

end
