(* ===== verification/Spec_Accepted.thy ===== *)
theory Spec_Accepted
  imports Spec_Check
begin

text \<open>
  What every accepted config satisfies (\<open>src/src/spec.rs\<close>): desktop keys and actions,
  applications and their ids, tasks, and with them the whole of \<open>Spec::from_json\<close>.
\<close>

section \<open>Desktop keys and actions\<close>

definition locales_ok :: "(string, string) btree \<Rightarrow> bool" where
  "locales_ok ls \<longleftrightarrow> bt_ok ls \<and> list_all (\<lambda>e. valid_locale (fst e) \<and> fst e \<noteq> ''default'') ls"

definition value_ok :: "key_value \<Rightarrow> bool" where
  "value_ok v = (case v of Localized _ ls \<Rightarrow> locales_ok ls | _ \<Rightarrow> True)"

definition keys_ok :: "(string, key_value) btree \<Rightarrow> bool" where
  "keys_ok ks \<longleftrightarrow> bt_ok ks \<and>
     list_all (\<lambda>e. key_word (fst e) \<and> fst e \<notin> set RESERVED_KEYS \<and> value_ok (snd e)) ks"

definition actions_ok :: "(string, action option) btree \<Rightarrow> bool" where
  "actions_ok acts \<longleftrightarrow> bt_ok acts \<and>
     list_all (\<lambda>e. key_word (fst e) \<and>
       (case snd e of None \<Rightarrow> True | Some a \<Rightarrow> keys_ok (action_keys a) )) acts"

lemma bt_insert_all:
  "bt_ok m \<Longrightarrow> list_all P m \<Longrightarrow> P (k, v) \<Longrightarrow> bt_ok (bt_insert m k v) \<and> list_all P (bt_insert m k v)"
  by (auto simp: list_all_iff set_bt_insert)

lemma checks_locale_entry:
  "checks (locale_entry kp e st) (\<lambda>st'. locales_ok (snd st) \<longrightarrow> locales_ok (snd st'))"
proof (cases st)
  case (Pair dflt ls)
  have "locales_ok ls \<Longrightarrow> valid_locale (fst e) \<Longrightarrow> fst e \<noteq> ''default'' \<Longrightarrow>
      locales_ok (bt_insert ls (fst e) t)" for t
    using bt_insert_all [of ls _ "fst e" t] by (simp add: locales_ok_def)
  then show ?thesis by (cases "snd e") (auto simp: locale_entry_def Pair)
qed

lemma checks_key_value:
  "checks (key_value_of kp v) (\<lambda>r. \<forall>kv. r = Some kv \<longrightarrow> value_ok kv)"
proof (cases v)
  case (JArray items)
  then show ?thesis
    by (auto simp: key_value_of_def value_ok_def intro!: checks_after [OF checks_items])
next
  case (JObject m)
  have "checks (for_fold (locale_entry kp) m (None, []))
      (\<lambda>st. locales_ok (snd (None :: string option, [])) \<longrightarrow> locales_ok (snd st))"
    by (rule checks_for_fold) (rule checks_locale_entry)
  then have loop: "checks (for_fold (locale_entry kp) m (None, [])) (\<lambda>st. locales_ok (snd st))"
    by (rule checks_mono) (simp add: locales_ok_def)
  show ?thesis unfolding key_value_of_def JObject json.case
    by (rule checks_bind [OF loop]) (auto simp: value_ok_def split: option.split)
qed (simp_all add: key_value_of_def value_ok_def)

lemma checks_key_entry: "checks (key_entry p extra e out) (\<lambda>out'. keys_ok out \<longrightarrow> keys_ok out')"
proof -
  have ins: "keys_ok out \<Longrightarrow> key_word (fst e) \<Longrightarrow> fst e \<notin> set RESERVED_KEYS \<Longrightarrow> value_ok v \<Longrightarrow>
      keys_ok (bt_insert out (fst e) v)" for v
    using bt_insert_all [of out _ "fst e" v] by (simp add: keys_ok_def)
  have "checks (do { val \<leftarrow> key_value_of kp (snd e);
      case val of None \<Rightarrow> ret out | Some kv \<Rightarrow> ret (bt_insert out (fst e) kv) })
      (\<lambda>out'. key_word (fst e) \<and> fst e \<notin> set RESERVED_KEYS \<longrightarrow> keys_ok out \<longrightarrow> keys_ok out')" for kp
    by (rule checks_bind [OF checks_key_value]) (auto simp: ins split: option.split)
  then show ?thesis unfolding key_entry_def Let_def by (auto elim: checks_mono)
qed

lemma checks_keys: "checks (parse_keys p v extra) keys_ok"
proof -
  have "checks (for_fold (key_entry p extra) m []) (\<lambda>out. keys_ok [] \<longrightarrow> keys_ok out)" for m
    by (rule checks_for_fold) (rule checks_key_entry)
  then have "checks (for_fold (key_entry p extra) m []) keys_ok" for m
    by (rule checks_mono) (simp add: keys_ok_def)
  then show ?thesis unfolding parse_keys_def by (intro checks_if_object) (simp_all add: keys_ok_def)
qed

lemma checks_action_entry: "checks (action_entry p e out) (\<lambda>out'. actions_ok out \<longrightarrow> actions_ok out')"
proof -
  have ins: "actions_ok out \<Longrightarrow> key_word (fst e) \<Longrightarrow>
      (\<And>a. v = Some a \<Longrightarrow> keys_ok (action_keys a)) \<Longrightarrow> actions_ok (bt_insert out (fst e) v)" for v
    using bt_insert_all [of out _ "fst e" v] by (simp add: actions_ok_def split: option.split)
  have body: "checks (do {
           arguments \<leftarrow> chk_strings ap a ''arguments'';
           ks \<leftarrow> parse_keys ap (Some (JObject (bt_remove a ''arguments''))) [];
           ret (bt_insert out (fst e)
             (Some \<lparr> action_arguments = arguments, action_keys = ks \<rparr>)) })
      (\<lambda>out'. key_word (fst e) \<longrightarrow> actions_ok out \<longrightarrow> actions_ok out')" for ap a
    by (intro checks_after [OF checks_strings] checks_bind [OF checks_keys])
      (auto intro!: ins)
  have "checks (do { found \<leftarrow> chk_object ap (snd e);
       case found of None \<Rightarrow> ret out | Some a \<Rightarrow> do {
           arguments \<leftarrow> chk_strings ap a ''arguments'';
           ks \<leftarrow> parse_keys ap (Some (JObject (bt_remove a ''arguments''))) [];
           ret (bt_insert out (fst e)
             (Some \<lparr> action_arguments = arguments, action_keys = ks \<rparr>)) } })
      (\<lambda>out'. key_word (fst e) \<longrightarrow> actions_ok out \<longrightarrow> actions_ok out')" for ap
    by (rule checks_after [OF checks_object]) (simp add: body split: option.split)
  then show ?thesis unfolding action_entry_def Let_def by (auto intro!: ins elim: checks_mono)
qed

lemma checks_actions: "checks (parse_actions p v) actions_ok"
proof -
  have "checks (for_fold (action_entry p) m []) (\<lambda>out. actions_ok [] \<longrightarrow> actions_ok out)" for m
    by (rule checks_for_fold) (rule checks_action_entry)
  then have "checks (for_fold (action_entry p) m []) actions_ok" for m
    by (rule checks_mono) (simp add: actions_ok_def)
  then show ?thesis
    unfolding parse_actions_def by (intro checks_if_object) (simp_all add: actions_ok_def)
qed

section \<open>Applications\<close>

definition application_ok :: "string \<Rightarrow> string \<Rightarrow> application \<Rightarrow> bool" where
  "application_ok sandbox name a \<longleftrightarrow> app_run a \<noteq> [] \<and> env_ok (app_environment a) \<and>
     (\<forall>s. app_source_id a = Some s \<longrightarrow> app_id_ok s \<or> s = sandbox) \<and>
     keys_ok (app_keys a) \<and> actions_ok (app_actions a) \<and>
     (if app_implicit a then name = sandbox \<and> app_id a = sandbox else app_id_ok (app_id a))"

definition app_ok :: "string \<Rightarrow> string \<Rightarrow> app_spec \<Rightarrow> bool" where
  "app_ok sandbox name a = (case a of
      Application a \<Rightarrow> application_ok sandbox name a
    | Autostart s \<Rightarrow> app_id_ok (start_id s) \<and> keys_ok (start_keys s) \<and>
        (\<forall>i. start_source_id s = Some i \<longrightarrow> app_id_ok i)
    | Suppress _ i \<Rightarrow> app_id_ok i)"

definition starts_ok :: "(string, app_spec) btree \<Rightarrow> app_spec \<Rightarrow> bool" where
  "starts_ok apps a = (case a of
      Autostart s \<Rightarrow> \<exists>t. bt_get apps (start_app s) = Some (Application t)
    | _ \<Rightarrow> True)"

definition entry_key :: "string \<times> app_spec \<Rightarrow> entry_kind \<times> string" where
  "entry_key e = (app_kind (snd e), entry_id (snd e))"

definition written_ids :: "(string, app_spec) btree \<Rightarrow> (entry_kind \<times> string) list" where
  "written_ids apps = map entry_key (filter (\<lambda>e. writes_entry (snd e)) apps)"

definition apps_named :: "string \<Rightarrow> (string, app_spec) btree \<Rightarrow> bool" where
  "apps_named sandbox apps \<longleftrightarrow> bt_ok apps \<and> list_all (\<lambda>e. app_ok sandbox (fst e) (snd e)) apps"

definition apps_ok :: "string \<Rightarrow> (string, app_spec) btree \<Rightarrow> bool" where
  "apps_ok sandbox apps \<longleftrightarrow> apps_named sandbox apps \<and>
     list_all (\<lambda>e. starts_ok apps (snd e)) apps \<and> distinct (written_ids apps)"

lemma checks_source_id: "checks (source_id_of p m) (\<lambda>r. \<forall>s. r = Some s \<longrightarrow> app_id_ok s)"
proof -
  have a: "checks (case bt_get m ''source-id'' of None \<Rightarrow> ret None
       | Some v \<Rightarrow> if is_null v then ret None else chk_string p m ''source-id'') (\<lambda>_. True)"
    by (auto intro: checks_mono [OF checks_string] split: option.split)
  have b: "checks (case sid of None \<Rightarrow> ret () | Some s \<Rightarrow> report q (validate_app_id s))
      (\<lambda>_. \<forall>s. sid = Some s \<longrightarrow> app_id_ok s)" for sid :: "string option" and q
    by (cases sid) (auto simp: validate_app_id_def intro: checks_mono [OF checks_report])
  show ?thesis unfolding source_id_of_def
    by (rule checks_True_bind [OF a], rule checks_bind [OF b]) simp
qed

lemma checks_app_run: "checks (app_run_of p m dflt sandbox) (\<lambda>run. run \<noteq> [])"
  unfolding app_run_of_def by (intro checks_after [OF checks_strings]) auto

lemma checks_application:
  "checks (application_entry ctx sandbox name p m i sid removed ks)
     (\<lambda>a. keys_ok ks \<longrightarrow> app_id_ok i \<longrightarrow> (\<forall>s. sid = Some s \<longrightarrow> app_id_ok s) \<longrightarrow> app_ok sandbox name a)"
proof -
  have hidden: "checks (if b then do { b \<leftarrow> chk_bool p m ''no-display'' False; ret (Some b) }
      else ret None) (\<lambda>_. True)" for b
    by (auto intro!: checks_after [OF checks_bool])
  show ?thesis unfolding application_entry_def Let_def
    by (intro checks_after [OF checks_known] checks_bind [OF checks_app_run]
        checks_bind [OF checks_environment] checks_bind [OF checks_actions]
        checks_after [OF hidden]) (auto simp: app_ok_def application_ok_def split: if_splits)
qed

lemma checks_autostart:
  "checks (autostart_entry sandbox p m i sid removed ks)
     (\<lambda>a. keys_ok ks \<longrightarrow> app_id_ok i \<longrightarrow> (\<forall>s. sid = Some s \<longrightarrow> app_id_ok s) \<longrightarrow> app_ok sandbox name a)"
  unfolding autostart_entry_def
  by (intro checks_after [OF checks_known] checks_after [OF checks_string]) (simp add: app_ok_def)

lemma checks_app_object: "checks (app_object ctx sandbox name p m) (app_ok sandbox name)"
proof -
  have ident: "checks (report q (validate_app_id i)) (\<lambda>_. app_id_ok i)" for q i
    by (rule checks_mono [OF checks_report]) (simp add: validate_app_id_def)
  have kinds: "checks (case kind of
           Application_Kind \<Rightarrow> application_entry ctx sandbox name p m i sid removed ks
         | Autostart_Kind \<Rightarrow> autostart_entry sandbox p m i sid removed ks)
     (\<lambda>a. keys_ok ks \<longrightarrow> app_id_ok i \<longrightarrow> (\<forall>s. sid = Some s \<longrightarrow> app_id_ok s) \<longrightarrow> app_ok sandbox name a)"
    for kind i sid removed ks
    by (cases kind) (simp_all add: checks_application checks_autostart)
  have plain: "checks (do {
         sid \<leftarrow> source_id_of p m;
         removed \<leftarrow> chk_strings p m ''remove-arguments'';
         ks \<leftarrow> parse_keys (at_key p ''keys'') (bt_get m ''keys'') [];
         case kind of
           Application_Kind \<Rightarrow> application_entry ctx sandbox name p m i sid removed ks
         | Autostart_Kind \<Rightarrow> autostart_entry sandbox p m i sid removed ks })
      (\<lambda>a. app_id_ok i \<longrightarrow> app_ok sandbox name a)" for kind i
    by (intro checks_bind [OF checks_source_id] checks_after [OF checks_strings]
        checks_bind [OF checks_keys] checks_mono [OF kinds]) auto
  have suppressed: "checks (do { chk_known p m [''kind'', ''id'', ''suppress'']; ret (Suppress kind i) })
      (\<lambda>a. app_id_ok i \<longrightarrow> app_ok sandbox name a)" for kind i
    by (intro checks_after [OF checks_known]) (simp add: app_ok_def)
  show ?thesis unfolding app_object_def Let_def
    by (intro checks_after [OF checks_choice] checks_after [OF checks_string]
        checks_bind [OF ident] checks_after [OF checks_bool]) (auto simp: plain suppressed)
qed

lemma apps_named_insert:
  "apps_named sandbox out \<Longrightarrow> app_ok sandbox k a \<Longrightarrow> apps_named sandbox (bt_insert out k a)"
  using bt_insert_all [of out "\<lambda>e. app_ok sandbox (fst e) (snd e)" k a] by (simp add: apps_named_def)

lemma checks_app_entry:
  "checks (app_entry ctx sandbox e out) (\<lambda>out'. apps_named sandbox out \<longrightarrow> apps_named sandbox out')"
proof -
  have one: "checks (do { a \<leftarrow> app_object ctx sandbox (fst e) p m; ret (bt_insert out (fst e) a) })
      (\<lambda>out'. apps_named sandbox out \<longrightarrow> apps_named sandbox out')" for p m
    by (rule checks_bind [OF checks_app_object]) (simp add: apps_named_insert)
  have "checks (do { found \<leftarrow> chk_object p (snd e);
           case found of
             None \<Rightarrow> ret out
           | Some m \<Rightarrow> do { a \<leftarrow> app_object ctx sandbox (fst e) p m; ret (bt_insert out (fst e) a) } })
      (\<lambda>out'. apps_named sandbox out \<longrightarrow> apps_named sandbox out')" for p
    by (rule checks_after [OF checks_object]) (simp add: one split: option.split)
  then show ?thesis unfolding app_entry_def Let_def by (auto split: sum.split)
qed

lemma checks_starts: "checks (check_starts sandbox out e) (\<lambda>_. starts_ok out (snd e))"
proof (cases "snd e")
  case (Autostart s)
  then show ?thesis
    by (auto simp: check_starts_def starts_ok_def Let_def checks_fails [OF checks_err]
        split: option.split app_spec.split)
qed (simp_all add: check_starts_def starts_ok_def)

lemma checks_id_entry:
  "checks (id_entry sandbox out e ids) (\<lambda>ids'. starts_ok out (snd e) \<and>
     (if writes_entry (snd e) then
        entry_key e \<notin> set (map fst ids) \<and> ids' = (entry_key e, fst e) # ids
      else ids' = ids))"
  unfolding id_entry_def
  by (rule checks_bind [OF checks_starts])
    (auto simp: Let_def entry_key_def map_of_eq_None_iff split: option.split)

lemma checks_ids:
  "checks (for_fold (id_entry sandbox out) es ids)
     (\<lambda>ids'. list_all (\<lambda>e. starts_ok out (snd e)) es \<and>
        (distinct (map fst ids) \<longrightarrow> distinct (written_ids es @ map fst ids)))"
proof (induction es arbitrary: ids)
  case Nil
  then show ?case by (simp add: written_ids_def)
next
  case (Cons e es)
  show ?case unfolding for_fold.simps
  proof (rule checks_bind [OF checks_id_entry], rule checks_mono [OF Cons.IH], intro impI)
    fix ids1
    assume rest: "list_all (\<lambda>e. starts_ok out (snd e)) es \<and>
        (distinct (map fst ids1) \<longrightarrow> distinct (written_ids es @ map fst ids1))"
      and step: "starts_ok out (snd e) \<and> (if writes_entry (snd e)
        then entry_key e \<notin> set (map fst ids) \<and> ids1 = (entry_key e, fst e) # ids else ids1 = ids)"
    show "list_all (\<lambda>e. starts_ok out (snd e)) (e # es) \<and>
        (distinct (map fst ids) \<longrightarrow> distinct (written_ids (e # es) @ map fst ids))"
    proof (cases "writes_entry (snd e)")
      case True
      then have "written_ids (e # es) = entry_key e # written_ids es" by (simp add: written_ids_def)
      with True rest step show ?thesis by simp
    next
      case False
      then have "written_ids (e # es) = written_ids es" by (simp add: written_ids_def)
      with False rest step show ?thesis by simp
    qed
  qed
qed

lemma checks_apps: "checks (parse_apps v sandbox ctx) (apps_ok sandbox)"
proof -
  have "checks (for_fold (app_entry ctx sandbox) es [])
      (\<lambda>out. apps_named sandbox [] \<longrightarrow> apps_named sandbox out)" for es
    by (rule checks_for_fold) (rule checks_app_entry)
  then have loop: "checks (for_fold (app_entry ctx sandbox) es []) (apps_named sandbox)" for es
    by (rule checks_mono) (simp add: apps_named_def)
  have "app_ok sandbox sandbox (implicit_app ctx sandbox)"
    by (simp add: implicit_app_def app_ok_def application_ok_def keys_ok_def actions_ok_def)
  then have ins: "apps_named sandbox out \<Longrightarrow>
      apps_named sandbox (bt_insert out sandbox (implicit_app ctx sandbox))" for out
    by (rule apps_named_insert [rotated])
  show ?thesis unfolding parse_apps_def Let_def
    by (rule checks_after [OF checks_if_object], simp_all, rule checks_bind [OF loop],
        rule checks_bind [OF checks_ids])
      (auto simp: apps_ok_def ins)
qed

section \<open>Whole configs\<close>

definition sections_ok :: "config_context \<Rightarrow> 'task spec_of \<Rightarrow> bool" where
  "sections_ok ctx s \<longleftrightarrow> home_ok (ctx_storage ctx) (home_of s) \<and> devices_ok (devices s) \<and>
     dbus_ok (dbus_of s) \<and> xwayland_ok (display s) (xwayland s) \<and> env_ok (environment s) \<and>
     mounts_ok (mount s)"

definition task_ok :: "config_context \<Rightarrow> (string, app_spec) btree \<Rightarrow> string \<times> task_spec \<Rightarrow> bool" where
  "task_ok ctx apps e \<longleftrightarrow> valid_word (fst e) \<and> task_command (snd e) \<noteq> [] \<and>
     (\<forall>a. task_app (snd e) = Some a \<longrightarrow>
        (\<exists>t. bt_get apps a = Some (Application t)) \<and> dbus_of (task_config (snd e)) \<noteq> None) \<and>
     sections_ok ctx (task_config (snd e)) \<and> idle_timeout (task_config (snd e)) = 0 \<and>
     app (task_config (snd e)) = [] \<and> tasks (task_config (snd e)) = []"

definition spec_ok :: "config_context \<Rightarrow> spec \<Rightarrow> bool" where
  "spec_ok ctx s \<longleftrightarrow> sections_ok ctx s \<and> bt_ok (tasks s) \<and>
     list_all (task_ok ctx (app s)) (tasks s) \<and>
     (case ctx_name ctx of None \<Rightarrow> app s = [] \<and> tasks s = [] | Some name \<Rightarrow> apps_ok name (app s))"

lemma checks_case_prod:
  "(\<And>a b. x = (a, b) \<Longrightarrow> checks (f a b) Q) \<Longrightarrow> checks (case x of (a, b) \<Rightarrow> f a b) Q"
  by (cases x) simp

lemma checks_each: "checks (parse_each t ctx) (\<lambda>s. sections_ok ctx s \<and> app s = [] \<and> tasks s = [])"
  unfolding parse_each_def
  by (intro checks_True_bind [OF checks_sandbox] checks_case_prod checks_bind [OF checks_home]
      checks_bind [OF checks_devices] checks_bind [OF checks_dbus]
      checks_after [OF checks_network] checks_after [OF checks_display]
      checks_bind [OF checks_xwayland] checks_after [OF checks_links]
      checks_bind [OF checks_environment] checks_bind [OF checks_mounts])
    (simp add: sections_ok_def)

lemma checks_sections:
  "checks (parse_sections v ctx) (\<lambda>(t, s). sections_ok ctx s \<and> app s = [] \<and> tasks s = [])"
  unfolding parse_sections_def
  by (rule checks_after [OF checks_if_object], simp_all,
      intro checks_after [OF checks_known] checks_bind [OF checks_each]) simp

lemma checks_task_config:
  "checks (parse_task_config v ctx) (\<lambda>s. sections_ok ctx s \<and> app s = [] \<and> tasks s = [])"
  unfolding parse_task_config_def by (rule checks_bind [OF checks_sections]) auto

lemma checks_task_command: "checks (task_command_of p m) (\<lambda>run. run \<noteq> [])"
proof (cases "bt_get m ''run''")
  case None
  show ?thesis
  proof (cases "bt_get m ''script''")
    case None
    with \<open>bt_get m ''run'' = None\<close> show ?thesis by (simp add: task_command_of_def)
  next
    case (Some v)
    with None show ?thesis
      by (auto simp: task_command_of_def intro!: checks_bind [OF checks_string] split: option.split)
  qed
next
  case (Some v)
  have e: "checks (if run = [] then err q x else ret ()) (\<lambda>_. run \<noteq> [])" for run :: "string list" and q x
    by (rule checks_if_err)
  show ?thesis
  proof (cases "bt_get m ''script''")
    case None
    have "checks (do { run \<leftarrow> chk_strings p m ''run'';
        (if run = [] then err (at_key p ''run'') (message ''is empty'') else ret ());
        ret run }) (\<lambda>run. run \<noteq> [])"
      by (intro checks_after [OF checks_strings] checks_bind [OF e]) simp
    then show ?thesis by (simp add: task_command_of_def Some None)
  next
    case (Some w)
    with \<open>bt_get m ''run'' = Some v\<close> show ?thesis by (simp add: task_command_of_def)
  qed
qed

lemma checks_task_app:
  "checks (task_app_of p m apps) (\<lambda>r. \<forall>a. r = Some a \<longrightarrow> (\<exists>t. bt_get apps a = Some (Application t)))"
proof -
  have e: "checks (case found of None \<Rightarrow> ret ()
     | Some a \<Rightarrow> (case bt_get apps a of
           Some (Application _) \<Rightarrow> ret ()
         | _ \<Rightarrow> err (at_key p ''app'') (Problem ''no application named {}'' [a])))
     (\<lambda>_. \<forall>a. found = Some a \<longrightarrow> (\<exists>t. bt_get apps a = Some (Application t)))" for found
    by (auto simp: checks_fails [OF checks_err] split: option.split app_spec.split)
  show ?thesis unfolding task_app_of_def
    by (intro checks_after [OF checks_string] checks_bind [OF e]) simp
qed

lemma checks_overrides: "checks (task_overrides p m) (\<lambda>_. True)"
proof -
  have "checks (if b then err q x else ret ()) (\<lambda>_. True)" for b q x
    by (rule checks_if_err) simp
  then have "checks (for_each (\<lambda>key. if bt_has ov key then err (q key) x else ret ()) ks)
      (\<lambda>_. \<forall>k \<in> set ks. True)" for ov :: json_map and q x ks
    by (intro checks_for_each)
  then show ?thesis unfolding task_overrides_def
    by (intro checks_if_object) (auto simp del: for_fold.simps intro: checks_mono)
qed

lemma fails_inherit_error: "fails (inherit_error p e)"
  by (auto simp: checks_def inherit_error_def err_def)

lemma checks_inherit: "checks (for_each (inherit_error p) es) (\<lambda>_. es = [])"
proof -
  have "checks (for_each (inherit_error p) es) (\<lambda>_. \<forall>e \<in> set es. False)"
    by (rule checks_for_each) (rule fails_inherit_error)
  then show ?thesis by (rule checks_mono) (cases es, auto)
qed

definition tasks_ok :: "config_context \<Rightarrow> (string, app_spec) btree \<Rightarrow> (string, task_spec) btree \<Rightarrow> bool" where
  "tasks_ok ctx apps ts \<longleftrightarrow> bt_ok ts \<and> list_all (task_ok ctx apps) ts"

lemma tasks_ok_insert:
  "tasks_ok ctx apps out \<Longrightarrow> (\<And>t. found = Some t \<Longrightarrow> task_ok ctx apps (k, t)) \<Longrightarrow>
     tasks_ok ctx apps (insert_found out k found)"
  using bt_insert_all [of out "task_ok ctx apps" k]
  by (cases found) (simp_all add: tasks_ok_def insert_found_def)

lemma checks_task_finish:
  "checks (task_finish configs ctx name p command a) (\<lambda>r. \<forall>t. r = Some t \<longrightarrow>
     task_command t = command \<and> task_app t = a \<and> (a \<noteq> None \<longrightarrow> dbus_of (task_config t) \<noteq> None) \<and>
     sections_ok ctx (task_config t) \<and> idle_timeout (task_config t) = 0 \<and>
     app (task_config t) = [] \<and> tasks (task_config t) = [])" (is "checks _ ?Q")
proof (cases "bt_get configs name")
  case None
  then show ?thesis by (simp add: task_finish_def)
next
  case (Some config)
  obtain s es where run: "run_state (parse_task_config config ctx) [] = (s, es)" by fastforce
  have bus: "checks (if a \<noteq> None \<and> dbus_of s = None then err q x else ret ())
      (\<lambda>_. a \<noteq> None \<longrightarrow> dbus_of s \<noteq> None)" for q x
    by (rule checks_if_err) auto
  have "es = [] \<Longrightarrow> sections_ok ctx s \<and> app s = [] \<and> tasks s = []"
    using checks_run [OF checks_task_config] run by simp
  then have "es = [] \<Longrightarrow> sections_ok ctx (s \<lparr> idle_timeout := 0 \<rparr>) \<and> app s = [] \<and> tasks s = []"
    by (simp add: sections_ok_def)
  then show ?thesis
    unfolding task_finish_def Some run option.case prod.case
    by (intro checks_bind [OF checks_inherit] checks_bind [OF bus]) simp
qed

lemma checks_task_object:
  "checks (task_object configs apps ctx name p m)
     (\<lambda>r. \<forall>t. r = Some t \<longrightarrow> valid_word name \<longrightarrow> task_ok ctx apps (name, t))"
  unfolding task_object_def
  by (intro checks_after [OF checks_known] checks_bind [OF checks_task_command]
      checks_bind [OF checks_task_app] checks_after [OF checks_overrides]
      checks_mono [OF checks_task_finish]) (auto simp: task_ok_def)

lemma checks_task_entry:
  "checks (task_entry configs apps ctx e out) (\<lambda>out'. tasks_ok ctx apps out \<longrightarrow> tasks_ok ctx apps out')"
proof -
  have "checks (if_enabled p v (task_object configs apps ctx name p))
     (\<lambda>r. \<forall>t. r = Some t \<longrightarrow> valid_word name \<longrightarrow> task_ok ctx apps (name, t))" for p v name
    by (rule checks_if_enabled) (simp_all add: checks_task_object)
  then show ?thesis unfolding task_entry_def Let_def
    by (auto intro!: checks_bind tasks_ok_insert)
qed

lemma checks_tasks: "checks (parse_tasks v configs apps ctx) (tasks_ok ctx apps)"
proof -
  have "checks (for_fold (task_entry configs apps ctx) es [])
      (\<lambda>out. tasks_ok ctx apps [] \<longrightarrow> tasks_ok ctx apps out)" for es
    by (rule checks_for_fold) (rule checks_task_entry)
  then have "checks (for_fold (task_entry configs apps ctx) es []) (tasks_ok ctx apps)" for es
    by (rule checks_mono) (simp add: tasks_ok_def)
  then show ?thesis
    unfolding parse_tasks_def by (intro checks_if_object) (simp_all add: tasks_ok_def)
qed

lemma checks_config: "checks (parse_config v configs ctx) (spec_ok ctx)"
  unfolding parse_config_def
proof (rule checks_bind [OF checks_sections], rule checks_case_prod)
  fix ts and t :: json_map and s :: spec
  assume "ts = (t, s)"
  show "checks (case ctx_name ctx of
       None \<Rightarrow> ret s
     | Some name \<Rightarrow> do {
         apps \<leftarrow> parse_apps (bt_get t ''app'') name ctx;
         ts \<leftarrow> parse_tasks (bt_get t ''task'') configs apps ctx;
         ret (s \<lparr> app := apps, tasks := ts \<rparr>) })
     (\<lambda>y. (case ts of (t, s) \<Rightarrow> sections_ok ctx s \<and> app s = [] \<and> tasks s = []) \<longrightarrow> spec_ok ctx y)"
  proof (cases "ctx_name ctx")
    case None
    then show ?thesis using \<open>ts = (t, s)\<close> by (simp add: spec_ok_def)
  next
    case (Some name)
    then show ?thesis using \<open>ts = (t, s)\<close>
      by (auto intro!: checks_bind [OF checks_apps] checks_bind [OF checks_tasks]
          simp: spec_ok_def tasks_ok_def sections_ok_def)
  qed
qed

end
