(* ===== verification/Spec_Json.thy ===== *)
theory Spec_Json
  imports Spec_Accepted
begin

text \<open>
  \<open>Spec::to_json\<close> (\<open>src/src/spec.rs\<close>): a config as JSON with every default filled
  in, and that reading it again gives the settings back.
\<close>

section \<open>Writing a config\<close>

text \<open>\<open>json!({ ... })\<close>: an object of the given fields.\<close>

definition jobject :: "(string \<times> json) list \<Rightarrow> json" where
  "jobject fs = JObject (bt_collect fs)"

definition strings_json :: "string list \<Rightarrow> json" where
  "strings_json ss = JArray (map JString ss)"

definition option_json :: "string option \<Rightarrow> json" where
  "option_json s = (case s of None \<Rightarrow> JNull | Some s \<Rightarrow> JString s)"

definition map_json :: "('v \<Rightarrow> json) \<Rightarrow> (string, 'v) btree \<Rightarrow> json" where
  "map_json f m = JObject (map (\<lambda>(k, v). (k, f v)) m)"

fun cache_name :: "cache \<Rightarrow> string" where
  "cache_name Cache_Temporary = ''temporary''"
| "cache_name Cache_Persistent = ''persistent''"

definition home_json :: "home option \<Rightarrow> json" where
  "home_json h = (case h of
      None \<Rightarrow> JNull
    | Some Home_Temporary \<Rightarrow> jobject [(''mode'', JString ''temporary'')]
    | Some (Home_Path p c) \<Rightarrow> jobject [(''mode'', JString ''path''), (''path'', JString p),
        (''cache'', JString (cache_name c))])"

fun usb_ids :: "device_class list \<Rightarrow> string list" where
  "usb_ids [] = []"
| "usb_ids (Usb v p # ds) = usb_name v p # usb_ids ds"
| "usb_ids (_ # ds) = usb_ids ds"

definition devices_json :: "device_class list \<Rightarrow> json" where
  "devices_json ds = jobject
     (map (\<lambda>sw. (fst sw, JBool (fst (snd sw) \<in> set ds))) DEVICE_SWITCHES
      @ [(''usb'', strings_json (usb_ids ds))])"

fun dbus_mode_name :: "dbus_mode \<Rightarrow> string" where
  "dbus_mode_name Dbus_Portal = ''portal''"
| "dbus_mode_name Dbus_Host = ''host''"

definition dbus_json :: "dbus_setting option \<Rightarrow> json" where
  "dbus_json d = (case d of
      None \<Rightarrow> JNull
    | Some d \<Rightarrow> jobject [(''mode'', JString (dbus_mode_name (mode_of_dbus d))),
        (''talk'', strings_json (talk d))])"

fun network_json :: "network_setting \<Rightarrow> json" where
  "network_json Net_Loopback = JNull"
| "network_json Net_Automatic = jobject [(''mode'', JString ''automatic'')]"
| "network_json Net_Isolated = jobject [(''mode'', JString ''isolated'')]"
| "network_json Net_Host = jobject [(''mode'', JString ''host'')]"

definition xwayland_json :: "xwayland_setting option \<Rightarrow> json" where
  "xwayland_json x = (case x of
      None \<Rightarrow> JNull
    | Some x \<Rightarrow> (case mode_of_xwayland x of
        Builtin \<Rightarrow> jobject [(''mode'', JString (xwayland_mode_name Builtin)),
          (''scale'', JString (scale_name (scale_of_xwayland x)))]
      | Satellite \<Rightarrow> jobject [(''mode'', JString (xwayland_mode_name Satellite))]))"

fun open_in_name :: "open_in \<Rightarrow> string" where
  "open_in_name Open_Host = ''host''"
| "open_in_name Open_Sandbox = ''sandbox''"

definition links_json :: "links_setting \<Rightarrow> json" where
  "links_json l = jobject [(''http'', JString (open_in_name (link_http l))),
     (''https'', JString (open_in_name (link_https l))),
     (''mailto'', JString (open_in_name (link_mailto l)))]"

definition mount_json :: "mount_spec \<Rightarrow> json" where
  "mount_json m = jobject
     ([(''destination'', JString (mount_destination m)),
       (''mode'', JString (mount_mode_name (mode_of_mount m))),
       (''optional'', JBool (mount_optional m)), (''create'', JBool (mount_create m))]
      @ (case mount_source m of None \<Rightarrow> [] | Some s \<Rightarrow> [(''source'', JString s)]))"

definition key_json :: "key_value \<Rightarrow> json" where
  "key_json v = (case v of
      Remove_Key \<Rightarrow> JNull
    | Bool_Value b \<Rightarrow> JBool b
    | Str_Value s \<Rightarrow> JString s
    | List_Value l \<Rightarrow> strings_json l
    | Localized d ls \<Rightarrow> JObject (bt_insert (map (\<lambda>(l, t). (l, JString t)) ls) ''default'' (JString d)))"

definition action_json :: "action option \<Rightarrow> json" where
  "action_json a = (case a of
      None \<Rightarrow> JNull
    | Some a \<Rightarrow> JObject (bt_insert (map (\<lambda>(k, v). (k, key_json v)) (action_keys a))
        ''arguments'' (strings_json (action_arguments a))))"

definition app_json :: "app_spec \<Rightarrow> json" where
  "app_json a = (case a of
      Application a \<Rightarrow> jobject
        ([(''kind'', JString ''application''), (''run'', strings_json (app_run a)),
          (''environment'', env_json (app_environment a)), (''id'', JString (app_id a)),
          (''source-id'', option_json (app_source_id a)),
          (''remove-arguments'', strings_json (app_remove_arguments a)),
          (''keys'', map_json key_json (app_keys a)),
          (''actions'', map_json action_json (app_actions a))]
         @ (case app_no_display a of None \<Rightarrow> [] | Some b \<Rightarrow> [(''no-display'', JBool b)]))
    | Autostart a \<Rightarrow> jobject [(''kind'', JString ''autostart''), (''app'', JString (start_app a)),
        (''id'', JString (start_id a)), (''source-id'', option_json (start_source_id a)),
        (''remove-arguments'', strings_json (start_remove_arguments a)),
        (''keys'', map_json key_json (start_keys a))]
    | Suppress kind i \<Rightarrow> jobject [(''kind'', JString (kind_name kind)), (''id'', JString i),
        (''suppress'', JBool True)])"

definition task_json :: "task_spec \<Rightarrow> json" where
  "task_json t = jobject ((''run'', strings_json (task_command t)) #
     (case task_app t of None \<Rightarrow> [] | Some a \<Rightarrow> [(''app'', JString a)]))"

definition spec_fields :: "spec \<Rightarrow> (string \<times> json) list" where
  "spec_fields s =
     [(''sandbox'', jobject [(''idle-timeout'', JNumber (Unsigned (idle_timeout s))),
        (''32-bit'', JBool (allow_32bit s))]),
      (''home'', home_json (home_of s)),
      (''devices'', devices_json (devices s)),
      (''dbus'', dbus_json (dbus_of s)),
      (''network'', network_json (network_of s)),
      (''display'', if display s then JObject [] else JNull),
      (''xwayland'', xwayland_json (xwayland s)),
      (''links'', links_json (links s)),
      (''environment'', env_json (environment s)),
      (''mount'', map_json mount_json (mount s)),
      (''app'', map_json app_json (app s)),
      (''task'', map_json task_json (tasks s))]"

definition to_json :: "spec \<Rightarrow> json" where
  "to_json s = jobject (spec_fields s)"

section \<open>Reading the fields back\<close>

lemma bt_get_fold_insert:
  "bt_ok m \<Longrightarrow> bt_get (fold (\<lambda>e m. bt_insert m (fst e) (snd e)) es m) k =
     (case map_of (rev es) k of Some v \<Rightarrow> Some v | None \<Rightarrow> bt_get m k)"
  by (induction es arbitrary: m) (auto simp: bt_get_insert map_add_def split: option.split)

lemma bt_get_collect: "bt_get (bt_collect es) k = map_of (rev es) k"
  by (simp add: bt_collect_def bt_get_fold_insert split: option.split)

lemma keys_collect: "fst ` set (bt_collect es) = fst ` set es"
proof -
  have "fst ` set (fold (\<lambda>e m. bt_insert m (fst e) (snd e)) es m) = fst ` set es \<union> fst ` set m" for m
    by (induction es arbitrary: m) (auto simp: keys_bt_insert)
  then show ?thesis by (simp add: bt_collect_def)
qed

lemma if_object_jobject [simp]: "if_object p (Some (jobject fs)) d f = f (bt_collect fs)"
  by (simp add: if_object_def jobject_def)

lemma if_object_JObject [simp]: "if_object p (Some (JObject m)) d f = f m"
  by (simp add: if_object_def)

lemma if_object_None [simp]: "if_object p None d f = ret d"
  by (simp add: if_object_def)

lemma if_enabled_simps [simp]:
  "if_enabled p (Some (jobject fs)) f = f (bt_collect fs)"
  "if_enabled p (Some JNull) f = ret None"
  "if_enabled p None f = ret None"
  by (simp_all add: if_enabled_def is_null_def jobject_def)

lemma not_null [simp]: "\<not> is_null (jobject fs)" "\<not> is_null (JObject m)" "is_null JNull"
  by (simp_all add: is_null_def jobject_def)

lemmas field_simps = bt_get_collect keys_collect chk_known_ok

lemma parse_sandbox_json:
  "bt_get t ''sandbox'' = Some (jobject [(''idle-timeout'', JNumber (Unsigned n)), (''32-bit'', JBool b)]) \<Longrightarrow>
     parse_sandbox t = ret (n, b)"
  by (simp add: parse_sandbox_def sandbox_object_def field_simps chk_bool_Bool)

lemma parse_home_json:
  assumes "bt_get t ''home'' = Some (home_json h)"
    and "\<And>p c. h = Some (Home_Path p c) \<Longrightarrow> path_ok p"
  shows "parse_home storage t = ret h"
proof (cases h)
  case None
  with assms(1) show ?thesis by (simp add: parse_home_def home_json_def)
next
  case (Some hm)
  show ?thesis
  proof (cases hm)
    case (Home_Path p c)
    then have "absolute p = Inr p" using assms(2) Some by (simp add: path_ok_def)
    with assms(1) Some Home_Path show ?thesis
      by (cases c) (simp_all add: parse_home_def home_json_def home_object_def field_simps
          chk_string_String home_mode_def home_in_mode_def home_path_def bt_has_def
          chk_path_ok chk_choice_String)
  next
    case Home_Temporary
    with assms(1) Some show ?thesis
      by (simp add: parse_home_def home_json_def home_object_def field_simps chk_string_String
          home_mode_def home_in_mode_def chk_unused_ok)
  qed
qed

lemma parse_links_json: "bt_get t ''links'' = Some (links_json l) \<Longrightarrow> parse_links t = ret l"
proof -
  assume t: "bt_get t ''links'' = Some (links_json l)"
  have "map_of OPEN_CHOICES (open_in_name v) = Some v" for v
    by (cases v) (simp_all add: OPEN_CHOICES_def)
  with t show ?thesis
    by (cases l) (simp add: parse_links_def links_json_def links_object_def field_simps chk_choice_String)
qed

lemma parse_network_json:
  "bt_get t ''network'' = Some (network_json n) \<Longrightarrow> parse_network t = ret n"
  by (cases n) (simp_all add: parse_network_def network_object_def field_simps chk_choice_String)

lemma parse_display_json:
  "bt_get t ''display'' = Some (if b then JObject [] else JNull) \<Longrightarrow> parse_display t = ret b"
  by (simp add: parse_display_def chk_known_ok)

lemma parse_xwayland_json:
  assumes "bt_get t ''xwayland'' = Some (xwayland_json x)" and "xwayland_ok shown x"
  shows "parse_xwayland shown t = ret x"
proof (cases x)
  case None
  with assms(1) show ?thesis by (simp add: parse_xwayland_def xwayland_json_def)
next
  case (Some y)
  with assms(2) have shown by (simp add: xwayland_ok_def)
  obtain m s where y: "y = \<lparr> mode_of_xwayland = m, scale_of_xwayland = s \<rparr>" by (cases y) auto
  show ?thesis
  proof (cases m)
    case Builtin
    have "map_of [(''native'', Native), (''round-up'', Round_Up), (''compositor'', Compositor)]
        (scale_name s) = Some s" by (cases s) simp_all
    with assms(1) \<open>shown\<close> Some y Builtin show ?thesis
      by (simp add: parse_xwayland_def xwayland_json_def xwayland_object_def xwayland_scale_of_def
          field_simps chk_choice_String)
  next
    case Satellite
    with assms(2) Some y have "s = Native" by (simp add: xwayland_ok_def)
    with assms(1) \<open>shown\<close> Some y Satellite show ?thesis
      by (simp add: parse_xwayland_def xwayland_json_def xwayland_object_def xwayland_scale_of_def
          field_simps chk_choice_String chk_unused_ok)
  qed
qed

section \<open>Devices and names\<close>

lemma hex4_no_colon: "CHR '':'' \<notin> set (hex4 n)"
proof -
  have "lower_hex_char k \<noteq> CHR '':''" if "k < 16" for k
    by (rule lower_hex_neq [OF that]) (simp add: hex_digit_def)
  then show ?thesis by (simp add: hex4_def) (metis mod_less_divisor zero_less_numeral)
qed

lemma usb_hex_hex4: "usb_hex (hex4 (unat (v :: u16))) = Inr v"
proof -
  have "unat v < 65536" using unsigned_less [of v, where 'a = nat] by simp
  then show ?thesis by (simp add: usb_hex_def parse_hex4)
qed

lemma usb_device_name [simp]: "usb_device (usb_name v p) = Inr (Usb v p)"
  by (simp add: usb_device_def usb_name_def hex4_no_colon usb_hex_hex4)

lemma device_switches_eq:
  assumes "\<And>sw. sw \<in> set sws \<Longrightarrow> bt_get m (fst sw) = Some (JBool (on sw))"
  shows "for_fold (device_switch m) sws ds = ret (ds @ map (fst \<circ> snd) (filter on sws))"
  using assms
proof (induction sws arbitrary: ds)
  case (Cons sw sws)
  obtain key cls dflt where sw: "sw = (key, cls, dflt)" by (cases sw)
  have "bt_get m key = Some (JBool (on sw))" using Cons.prems [of sw] by (simp add: sw)
  then have "device_switch m sw ds = ret (if on sw then ds @ [cls] else ds)"
    by (simp add: device_switch_def sw chk_bool_Bool)
  moreover have "for_fold (device_switch m) sws ds' = ret (ds' @ map (fst \<circ> snd) (filter on sws))" for ds'
    by (rule Cons.IH) (use Cons.prems in simp)
  ultimately show ?case by (simp add: sw comp_def)
qed simp

lemma usb_entries_eq:
  "distinct (ds @ us) \<Longrightarrow> list_all is_usb us \<Longrightarrow>
     for_fold usb_entry (enumerate n (usb_ids us)) ds = ret (ds @ us)"
proof (induction us arbitrary: n ds)
  case Nil
  then show ?case by simp
next
  case (Cons u us)
  from Cons.prems obtain v p where u: "u = Usb v p" by (auto simp: is_usb_def split: device_class.splits)
  have "usb_ids (u # us) = usb_name v p # usb_ids us" by (simp add: u)
  then show ?case using Cons.IH [of "ds @ [u]"] Cons.prems by (simp add: usb_entry_def u)
qed

lemma usb_ids_filter: "usb_ids (filter is_usb ds) = usb_ids ds"
  by (induction ds rule: usb_ids.induct) (simp_all add: is_usb_def)

lemma filter_map_fst_snd:
  "map (fst \<circ> snd) (filter (\<lambda>sw. fst (snd sw) \<in> A) sws) = filter (\<lambda>d. d \<in> A) (map (fst \<circ> snd) sws)"
  by (induction sws) auto

lemma map_of_rev_distinct: "distinct (map fst fs) \<Longrightarrow> map_of (rev fs) = map_of fs"
  by (subst map_of_inject_set) (simp_all add: rev_map [symmetric])

lemma map_of_rev_field:
  assumes "distinct (map fst fs)" and "(k, v) \<in> set fs"
  shows "map_of (rev fs) k = Some v"
  by (rule map_of_is_SomeI) (use assms in \<open>simp_all add: rev_map [symmetric]\<close>)

lemma switch_value:
  assumes "sw \<in> set DEVICE_SWITCHES"
  shows "map_of (rev (map (\<lambda>sw. (fst sw, JBool (fst (snd sw) \<in> set ds))) DEVICE_SWITCHES @ [(''usb'', u)]))
       (fst sw) = Some (JBool (fst (snd sw) \<in> set ds))"
proof (rule map_of_rev_field)
  have "distinct (map fst DEVICE_SWITCHES)" "''usb'' \<notin> fst ` set DEVICE_SWITCHES"
    by (simp_all add: DEVICE_SWITCHES_def)
  then show "distinct (map fst (map (\<lambda>sw. (fst sw, JBool (fst (snd sw) \<in> set ds))) DEVICE_SWITCHES
      @ [(''usb'', u)]))" by (simp add: comp_def)
qed (use assms in auto)

lemma parse_devices_json:
  assumes "bt_get t ''devices'' = Some (devices_json ds)" and "devices_ok ds"
  shows "parse_devices t = ret ds"
proof -
  let ?m = "bt_collect (map (\<lambda>sw. (fst sw, JBool (fst (snd sw) \<in> set ds))) DEVICE_SWITCHES
      @ [(''usb'', strings_json (usb_ids ds))])"
  let ?on = "filter (\<lambda>d. d \<in> set ds) CLASSES"
  have ds: "?on @ filter is_usb ds = ds" "distinct ds" using assms(2) by (simp_all add: devices_ok_def)
  have known: "chk_known p ?m [''gpu'', ''audio'', ''camera'', ''gamepad'', ''security-key'', ''alsa'',
      ''usb''] = ret ()" for p
    by (rule chk_known_ok) (auto simp: keys_collect DEVICE_SWITCHES_def)
  have sw: "for_fold (device_switch ?m) DEVICE_SWITCHES [] = ret ?on"
    by (subst device_switches_eq [where on = "\<lambda>sw. fst (snd sw) \<in> set ds"])
      (simp_all only: bt_get_collect switch_value filter_map_fst_snd CLASSES_def append_Nil)
  have usb: "chk_strings p ?m ''usb'' = ret (usb_ids ds)" for p
    by (rule chk_strings_Array) (simp add: bt_get_collect strings_json_def)
  have "for_fold usb_entry (enumerate 0 (usb_ids (filter is_usb ds))) ?on = ret (?on @ filter is_usb ds)"
    by (rule usb_entries_eq) (simp_all add: ds list_all_iff)
  then have "for_fold usb_entry (enumerate 0 (usb_ids ds)) ?on = ret ds"
    by (simp only: ds usb_ids_filter)
  then show ?thesis
    by (simp add: parse_devices_def assms(1) devices_json_def devices_object_def known sw usb)
qed

lemma talk_entries_eq:
  "distinct (out @ ns) \<Longrightarrow> list_all (\<lambda>n. validate_talk_name n = Inr ()) ns \<Longrightarrow>
     for_fold talk_entry (enumerate i ns) out = ret (out @ ns)"
  by (induction ns arbitrary: i out) (simp_all add: talk_entry_def)

text \<open>The bus in host mode: its \<open>talk\<close> list, printed empty, is one the reader does not accept there.\<close>

definition host_bus :: "dbus_setting option \<Rightarrow> bool" where
  "host_bus d \<longleftrightarrow> (case d of None \<Rightarrow> False | Some x \<Rightarrow> mode_of_dbus x = Dbus_Host)"

abbreviation talk_refused :: "key_path \<times> problem" where
  "talk_refused \<equiv> ([Key ''dbus'', Key ''talk''], Problem ''not used {}'' [''with mode host, which reaches every name''])"

definition refuse_talk :: "dbus_setting option \<Rightarrow> unit checker" where
  "refuse_talk d = (if host_bus d then err (fst talk_refused) (snd talk_refused) else ret ())"

lemma parse_dbus_json:
  assumes "bt_get t ''dbus'' = Some (dbus_json d)" and "dbus_ok d"
  shows "parse_dbus t = do { refuse_talk d; ret d }"
proof (cases d)
  case None
  with assms(1) show ?thesis by (simp add: parse_dbus_def dbus_json_def refuse_talk_def host_bus_def)
next
  case (Some x)
  show ?thesis
  proof (cases "mode_of_dbus x")
    case Dbus_Host
    with assms(2) Some have "talk x = []" by (simp add: dbus_ok_def)
    moreover from this Dbus_Host have "\<lparr>mode_of_dbus = Dbus_Host, talk = []\<rparr> = x" by (cases x) simp
    ultimately show ?thesis
      using assms(1) Some Dbus_Host
      by (cases x) (simp add: parse_dbus_def dbus_json_def dbus_object_def dbus_talk_def field_simps
          chk_choice_String chk_unused_def bt_has_def at_key_def refuse_talk_def host_bus_def)
  next
    case x: Dbus_Portal
  have "for_fold talk_entry (enumerate 0 (talk x)) [] = ret ([] @ talk x)"
    by (rule talk_entries_eq) (use assms(2) Some in \<open>simp_all add: dbus_ok_def\<close>)
  moreover have "\<lparr>mode_of_dbus = Dbus_Portal, talk = talk x\<rparr> = x" using x by (cases x) simp
  ultimately show ?thesis
    using assms(1) Some x
    by (cases x) (simp add: parse_dbus_def dbus_json_def dbus_object_def dbus_talk_def field_simps
        chk_choice_String chk_strings_Array strings_json_def refuse_talk_def host_bus_def)
  qed
qed

section \<open>Mounts\<close>

lemma mount_mode_found:
  "map_of [(''read-write'', Read_Write), (''read-only'', Read_Only), (''overlay'', Overlay),
     (''empty'', Empty_Mount)] (mount_mode_name m) = Some m"
  by (cases m) simp_all

definition mount_fields :: "mount_spec \<Rightarrow> (string \<times> json) list" where
  "mount_fields m = [(''destination'', JString (mount_destination m)),
       (''mode'', JString (mount_mode_name (mode_of_mount m))),
       (''optional'', JBool (mount_optional m)), (''create'', JBool (mount_create m))]
      @ (case mount_source m of None \<Rightarrow> [] | Some s \<Rightarrow> [(''source'', JString s)])"

lemma mount_object_json:
  assumes "mount_ok m"
  shows "mount_object p (bt_collect (mount_fields m)) = ret (Some m)"
proof -
  obtain src d mode opt create where m: "m = \<lparr> mount_source = src, mount_destination = d,
      mode_of_mount = mode, mount_optional = opt, mount_create = create \<rparr>"
    by (cases m) auto
  let ?b = "bt_collect (mount_fields m)"
  have known: "chk_known p ?b [''source'', ''destination'', ''mode'', ''optional'', ''create''] = ret ()"
    by (rule chk_known_ok) (auto simp: keys_collect mount_fields_def split: option.splits)
  have get: "bt_get ?b ''destination'' = Some (JString d)"
    "bt_get ?b ''mode'' = Some (JString (mount_mode_name mode))"
    "bt_get ?b ''optional'' = Some (JBool opt)" "bt_get ?b ''create'' = Some (JBool create)"
    "bt_get ?b ''source'' = map_option JString src"
    by (auto simp: bt_get_collect mount_fields_def m split: option.split)
  have d: "absolute d = Inr d" using assms by (simp add: mount_ok_def path_ok_def m)
  have src: "mount_source_of p ?b mode create (Some d) = ret src"
  proof (cases "mode = Empty_Mount")
    case True
    then have "src = None" "\<not> create" using assms by (simp_all add: mount_ok_def m)
    then show ?thesis using True get(5) by (simp add: mount_source_of_def chk_unused_ok)
  next
    case False
    then obtain s where "src = Some s" "absolute s = Inr s"
      using assms by (auto simp: mount_ok_def m path_ok_def)
    then show ?thesis using False get(5) by (simp add: mount_source_of_def chk_path_ok)
  qed
  have "\<not> (create \<and> opt)" using assms by (simp add: mount_ok_def m)
  then have "mount_object p ?b = ret (Some \<lparr> mount_source = src, mount_destination = d,
      mode_of_mount = mode, mount_optional = opt, mount_create = create \<rparr>)"
    using get by (auto simp: mount_object_def known chk_choice_String [OF _ mount_mode_found]
        chk_bool_Bool bt_has_def chk_path_ok [OF _ d] src)
  then show ?thesis unfolding m [symmetric] .
qed

lemma mount_entries_eq:
  "mounts_named (out @ ms) \<Longrightarrow>
     for_fold mount_entry (map (\<lambda>(k, v). (k, mount_json v)) ms) out = ret (out @ ms)"
proof (induction ms arbitrary: out)
  case (Cons e ms)
  obtain k m where e: "e = (k, m)" by (cases e)
  have ok: "name_ok k" "mount_ok m" using Cons.prems by (simp_all add: mounts_named_def e)
  have "bt_insert out k m = out @ [(k, m)]"
    by (rule bt_insert_in_order [where m' = ms]) (use Cons.prems in \<open>simp add: mounts_named_def e\<close>)
  then have "mount_entry (k, mount_json m) out = ret (out @ [(k, m)])"
    using ok by (simp add: mount_entry_def mount_json_def Let_def validate_name_def insert_found_def
        mount_object_json [unfolded mount_fields_def, simplified])
  then show ?case using Cons.IH [of "out @ [(k, m)]"] Cons.prems by (simp add: e)
qed simp

lemma same_destination_eq:
  "distinct (dests (seen @ ms)) \<Longrightarrow> for_fold same_destination ms (seen, dropped) = ret (seen @ ms, dropped)"
proof (induction ms arbitrary: seen)
  case (Cons e ms)
  have "find (\<lambda>s. mount_destination (snd s) = mount_destination (snd e)) seen = None"
    unfolding find_None_iff
  proof (intro notI, elim exE conjE)
    fix s
    assume "s \<in> set seen" "mount_destination (snd s) = mount_destination (snd e)"
    then have "mount_destination (snd e) \<in> set (dests seen)" by (metis (no_types) image_eqI list.set_map)
    then show False using Cons.prems by simp
  qed
  then have "same_destination e (seen, dropped) = ret (seen @ [e], dropped)"
    by (simp add: same_destination_def)
  then show ?case using Cons.IH [of "seen @ [e]"] Cons.prems by simp
qed simp

lemma parse_mounts_json: "mounts_ok ms \<Longrightarrow> parse_mounts (Some (map_json mount_json ms)) = ret ms"
  using mount_entries_eq [of "[]" ms] same_destination_eq [of "[]" ms]
  by (simp add: parse_mounts_def map_json_def mounts_ok_def)

section \<open>The whole config\<close>

definition sections_of :: "'a spec_of \<Rightarrow> 'b spec_of" where
  "sections_of s = \<lparr> idle_timeout = idle_timeout s, allow_32bit = allow_32bit s, home_of = home_of s,
     devices = devices s, dbus_of = dbus_of s, network_of = network_of s, display = display s,
     xwayland = xwayland s, links = links s, environment = environment s, mount = mount s,
     app = [], tasks = [] \<rparr>"

lemma spec_field:
  "bt_get (bt_collect (spec_fields s)) k = map_of (spec_fields s) k"
  unfolding bt_get_collect by (subst map_of_rev_distinct) (simp_all add: spec_fields_def)

lemma parse_sections_json:
  assumes ok: "sections_ok ctx s" and home_path: "\<And>p. ctx_storage ctx = Some p \<Longrightarrow> path_ok p"
  shows "parse_sections (to_json s) ctx'
     = do { refuse_talk (dbus_of s); ret (bt_collect (spec_fields s), sections_of s) }"
proof -
  let ?t = "bt_collect (spec_fields s)"
  have get: "bt_get ?t ''sandbox'' = Some (jobject [(''idle-timeout'', JNumber (Unsigned (idle_timeout s))),
        (''32-bit'', JBool (allow_32bit s))])"
    "bt_get ?t ''home'' = Some (home_json (home_of s))"
    "bt_get ?t ''devices'' = Some (devices_json (devices s))"
    "bt_get ?t ''dbus'' = Some (dbus_json (dbus_of s))"
    "bt_get ?t ''network'' = Some (network_json (network_of s))"
    "bt_get ?t ''display'' = Some (if display s then JObject [] else JNull)"
    "bt_get ?t ''xwayland'' = Some (xwayland_json (xwayland s))"
    "bt_get ?t ''links'' = Some (links_json (links s))"
    "bt_get ?t ''environment'' = Some (env_json (environment s))"
    "bt_get ?t ''mount'' = Some (map_json mount_json (mount s))"
    by (simp_all add: spec_field) (simp_all add: spec_fields_def)
  have known: "chk_known [] ?t SECTIONS = ret ()"
    by (rule chk_known_ok) (simp add: keys_collect spec_fields_def SECTIONS_def)
  have home: "parse_home st ?t = ret (home_of s)" for st
    by (rule parse_home_json [OF get(2)]) (use ok home_path in \<open>auto simp: sections_ok_def home_ok_def\<close>)
  have devs: "parse_devices ?t = ret (devices s)"
    by (rule parse_devices_json [OF get(3)]) (use ok in \<open>simp add: sections_ok_def\<close>)
  have bus: "parse_dbus ?t = do { refuse_talk (dbus_of s); ret (dbus_of s) }"
    by (rule parse_dbus_json [OF get(4)]) (use ok in \<open>simp add: sections_ok_def\<close>)
  have xw: "parse_xwayland (display s) ?t = ret (xwayland s)"
    by (rule parse_xwayland_json [OF get(7)]) (use ok in \<open>simp add: sections_ok_def\<close>)
  have env: "chk_environment p (bt_get ?t ''environment'') = ret (environment s)" for p
    unfolding get(9) by (rule chk_environment_ok) (use ok in \<open>simp add: sections_ok_def\<close>)
  have ms: "parse_mounts (bt_get ?t ''mount'') = ret (mount s)"
    unfolding get(10) by (rule parse_mounts_json) (use ok in \<open>simp add: sections_ok_def\<close>)
  show ?thesis
    by (simp add: parse_sections_def parse_each_def to_json_def known parse_sandbox_json [OF get(1)] home devs bus
        parse_network_json [OF get(5)] parse_display_json [OF get(6)] xw parse_links_json [OF get(8)]
        env ms sections_of_def)
qed

lemma from_json_Inr: "from_json v configs ctx = Inr s \<longleftrightarrow> run_state (parse_config v configs ctx) [] = (s, [])"
  by (auto simp: from_json_def split: prod.splits)

lemma from_json_spec_ok: "from_json v configs ctx = Inr s \<Longrightarrow> spec_ok ctx s"
  unfolding from_json_Inr by (rule checks_run [OF checks_config])

section \<open>Properties\<close>

text \<open>
  C3. Every config \<open>Spec::from_json\<close> accepts is well formed: the home is a normal absolute path
  or the sandbox's storage; every device class is listed once; talk names are valid, listed
  once, never one psbox serves itself, and none in host mode; Xwayland is on only with a display and
  scales only in builtin mode; every mount has a normal absolute destination of its own,
  a source unless it is empty, and is not both created and optional; ids are valid and
  unique per kind; autostart entries start an application of the config; desktop keys are not
  reserved ones; tasks run something, under an existing application only with a session bus.
\<close>

theorem accepted_spec_ok:
  assumes "from_json v configs ctx = Inr s"
  shows "spec_ok ctx s"
  using assms by (rule from_json_spec_ok)

definition example_context :: config_context where
  "example_context = \<lparr> ctx_name = Some ''app'', ctx_storage = Some ''/s/app'',
     ctx_host_entry = (\<lambda>i. i = ''app'') \<rparr>"

definition example_config :: json where
  "example_config = jobject
     [(''home'', JObject []),
      (''devices'', jobject [(''camera'', JBool True)]),
      (''dbus'', jobject [(''talk'', strings_json [''org.example.Keys''])]),
      (''mount'', jobject
        [(''a'', jobject [(''source'', JString ''/srv//data/'')]),
         (''b'', jobject [(''source'', JString ''/srv/data'')])])]"

definition example_spec :: spec where
  "example_spec = \<lparr> idle_timeout = 60, allow_32bit = False,
     home_of = Some (Home_Path ''/s/app'' Cache_Temporary), devices = [Gpu, Audio, Camera],
     dbus_of = Some \<lparr> mode_of_dbus = Dbus_Portal, talk = [''org.example.Keys''] \<rparr>,
     network_of = Net_Automatic, display = True, xwayland = None, links = default_links,
     environment = [],
     mount = [(''a'', \<lparr> mount_source = Some ''/srv/data'', mount_destination = ''/srv/data'',
       mode_of_mount = Read_Write, mount_optional = False, mount_create = False \<rparr>)],
     app = [(''app'', implicit_app example_context ''app'')], tasks = [] \<rparr>"

lemma example_accepted: "from_json example_config [] example_context = Inr example_spec"
  by code_simp

theorem accepted_spec_ok_witness:
  "spec_ok example_context example_spec"
  by (rule accepted_spec_ok [OF example_accepted])


lemma example_storage: "\<forall>p. ctx_storage example_context = Some p \<longrightarrow> path_ok p"
proof -
  have "path_ok ''/s/app''" by code_simp
  then show ?thesis by (simp add: example_context_def)
qed


section \<open>Errors are reported, and stay reported\<close>

definition reports :: "'a checker \<Rightarrow> key_path \<times> problem \<Rightarrow> bool" where
  "reports m e \<longleftrightarrow> (\<forall>es. e \<in> set (snd (run_state m es)))"

lemma reports_err: "reports (err p x) (p, x)"
  by (simp add: reports_def err_def)

lemma reports_left:
  assumes "reports m e" and "\<And>x. checks (f x) (\<lambda>_. True)"
  shows "reports (do { x \<leftarrow> m; f x }) e"
  unfolding reports_def
proof
  fix es
  obtain x es1 where m: "run_state m es = (x, es1)" by fastforce
  obtain new where "snd (run_state (f x) es1) = es1 @ new"
    using assms(2) [of x] by (auto simp: checks_def)
  moreover have "e \<in> set es1" using assms(1) m by (metis reports_def snd_conv)
  ultimately show "e \<in> set (snd (run_state (do { x \<leftarrow> m; f x }) es))" by (simp add: m)
qed

lemma reports_right: "(\<And>x. reports (f x) e) \<Longrightarrow> reports (do { x \<leftarrow> m; f x }) e"
  by (auto simp: reports_def split: prod.split)

lemma reports_for_each:
  assumes "\<And>y. y \<in> set xs \<Longrightarrow> checks (f y) (\<lambda>_. True)" and "x \<in> set xs" and "reports (f x) e"
  shows "reports (for_each f xs) e"
  using assms
proof (induction xs)
  case (Cons y xs)
  have rest: "checks (for_each f xs) (\<lambda>_. True)"
    using checks_for_fold [of xs "\<lambda>x _. f x" "\<lambda>_. True"] Cons.prems(1) by simp
  show ?case
  proof (cases "y = x")
    case True
    then show ?thesis using Cons.prems(3) rest by (simp add: reports_left)
  next
    case False
    then have "reports (for_each f xs) e" using Cons by simp
    then show ?thesis by (simp add: reports_right)
  qed
qed simp

lemma reports_known:
  assumes "key \<in> fst ` set m" and "key \<notin> set allowed"
  shows "reports (chk_known p m allowed) (at_key p key, message ''unknown key'')"
  unfolding chk_known_def
  by (rule reports_for_each [of _ _ key]) (use assms in \<open>auto simp: reports_err intro: checks_fails [OF checks_err]\<close>)

lemma checks_anything: "checks m Q \<Longrightarrow> checks m (\<lambda>_. True)"
  by (erule checks_mono) simp

lemma reports_from_json:
  "reports (parse_config v configs ctx) e \<Longrightarrow> \<exists>es. from_json v configs ctx = Inl es \<and> e \<in> set es"
  unfolding reports_def from_json_def
  by (auto split: prod.splits) (metis all_not_in_conv empty_set snd_conv)+

text \<open>The checks that follow the one for unknown keys keep its errors.\<close>

lemma reports_config:
  assumes "reports (chk_known [] m SECTIONS) e"
  shows "reports (parse_config (JObject m) configs ctx) e"
  unfolding parse_config_def
proof (rule reports_left)
  show "reports (parse_sections (JObject m) ctx) e"
    unfolding parse_sections_def if_object_JObject bind_left_identity
    by (rule reports_left [OF assms], rule checks_after [OF checks_each]) simp
next
  fix ts :: "json_map \<times> spec"
  show "checks (case ts of (t, s) \<Rightarrow> (case ctx_name ctx of
       None \<Rightarrow> ret s
     | Some name \<Rightarrow> do {
         apps \<leftarrow> parse_apps (bt_get t ''app'') name ctx;
         ts \<leftarrow> parse_tasks (bt_get t ''task'') configs apps ctx;
         ret (s \<lparr> app := apps, tasks := ts \<rparr>) })) (\<lambda>_. True)"
    by (auto split: option.split
        intro!: checks_case_prod checks_after [OF checks_apps] checks_after [OF checks_tasks])
qed

text \<open>
  C24. A key that is no section of a config is never ignored: the config is rejected and the
  key reported by its path, whatever else is in the config.
\<close>

theorem unknown_section_reported:
  assumes "key \<in> fst ` set m" and "key \<notin> set SECTIONS"
  shows "\<exists>es. from_json (JObject m) configs ctx = Inl es \<and> ([Key key], message ''unknown key'') \<in> set es"
  using reports_from_json [OF reports_config [OF reports_known [OF assms, of "[]"]]]
  by (simp add: at_key_def)

theorem unknown_section_reported_witness:
  "\<exists>es. from_json (JObject [(''hme'', JObject [])]) [] example_context = Inl es \<and>
     ([Key ''hme''], message ''unknown key'') \<in> set es"
  by (rule unknown_section_reported) (simp_all add: SECTIONS_def)

end
