(* ===== verification/Paths.thy ===== *)
theory Paths
  imports Checker "HOL-Library.Sublist"
begin

text \<open>
  Paths as \<open>std::path::Path\<close> compares them: by their components, so that repeated and trailing
  slashes and inner dots do not count. \<open>starts_with\<close> is the prefix relation on components.
\<close>

datatype component = Root | Cur | Up | Normal string

type_synonym path = "component list"

definition part :: "string \<Rightarrow> component" where
  "part s = (if s = ''..'' then Up else Normal s)"

text \<open>\<open>Path::components\<close>: a leading dot of a relative path stays.\<close>

definition path_of :: "string \<Rightarrow> path" where
  "path_of s =
     (let parts = split_on (CHR ''/'') s;
          keep = map part (components s)
      in if starts_with s ''/'' then Root # keep
         else if hd parts = ''.'' then Cur # keep
         else keep)"

fun show_part :: "component \<Rightarrow> string" where
  "show_part Root = []"
| "show_part Cur = ''.''"
| "show_part Up = ''..''"
| "show_part (Normal s) = s"

definition show_path :: "path \<Rightarrow> string" where
  "show_path p = (if p = [Root] then ''/'' else join ''/'' (map show_part p))"

definition is_absolute :: "path \<Rightarrow> bool" where
  "is_absolute p \<longleftrightarrow> p \<noteq> [] \<and> hd p = Root"

definition path_join :: "path \<Rightarrow> path \<Rightarrow> path" where
  "path_join p q =
     (if is_absolute q then q
      else if p \<noteq> [] \<and> q \<noteq> [] \<and> hd q = Cur then p @ tl q
      else p @ q)"

abbreviation path_starts_with :: "path \<Rightarrow> path \<Rightarrow> bool" where
  "path_starts_with p q \<equiv> prefix q p"

definition strip_path :: "path \<Rightarrow> path \<Rightarrow> path option" where
  "strip_path p q = (if prefix q p then Some (drop (length q) p) else None)"

definition file_name :: "path \<Rightarrow> string option" where
  "file_name p = (case rev p of Normal s # _ \<Rightarrow> Some s | _ \<Rightarrow> None)"

definition parent_of :: "path \<Rightarrow> path option" where
  "parent_of p = (case rev p of [] \<Rightarrow> None | [Root] \<Rightarrow> None | _ \<Rightarrow> Some (butlast p))"

text \<open>\<open>PathBuf::pop\<close>, and a path with its dots resolved lexically, for showing.\<close>

definition pop_path :: "path \<Rightarrow> path" where
  "pop_path p = (case parent_of p of Some q \<Rightarrow> q | None \<Rightarrow> p)"

definition push_part :: "component \<Rightarrow> path \<Rightarrow> path" where
  "push_part c p = (case c of
      Up \<Rightarrow> pop_path p
    | Cur \<Rightarrow> p
    | Root \<Rightarrow> [Root]
    | Normal s \<Rightarrow> p @ [Normal s])"

definition lexical :: "path \<Rightarrow> path" where
  "lexical p = fold push_part p []"

lemma strip_path_Some: "strip_path p q = Some r \<longleftrightarrow> p = q @ r"
  by (auto simp: strip_path_def prefix_def)

lemma path_join_prefix: "\<not> is_absolute q \<Longrightarrow> prefix p (path_join p q)"
  by (auto simp: path_join_def prefix_def)

text \<open>
  \<open>Iterator::min_by_key\<close> returns the first of the least elements, and
  \<open>max_by_key\<close> the last of the greatest.
\<close>

fun min_by :: "('a \<Rightarrow> nat) \<Rightarrow> 'a list \<Rightarrow> 'a option" where
  "min_by f [] = None"
| "min_by f (x # xs) = (case min_by f xs of
      None \<Rightarrow> Some x
    | Some y \<Rightarrow> if f y < f x then Some y else Some x)"

fun max_by :: "('a \<Rightarrow> nat) \<Rightarrow> 'a list \<Rightarrow> 'a option" where
  "max_by f [] = None"
| "max_by f (x # xs) = (case max_by f xs of
      None \<Rightarrow> Some x
    | Some y \<Rightarrow> if f x \<le> f y then Some y else Some x)"

lemma min_by_None [simp]: "min_by f xs = None \<longleftrightarrow> xs = []"
  by (cases xs) (auto split: option.split)

lemma min_by_Some: "min_by f xs = Some y \<Longrightarrow> y \<in> set xs \<and> (\<forall>x \<in> set xs. f y \<le> f x)"
  by (induction xs arbitrary: y) (fastforce split: option.splits if_splits)+

lemma max_by_None [simp]: "max_by f xs = None \<longleftrightarrow> xs = []"
  by (cases xs) (auto split: option.split)

lemma max_by_Some: "max_by f xs = Some y \<Longrightarrow> y \<in> set xs \<and> (\<forall>x \<in> set xs. f x \<le> f y)"
  by (induction xs arbitrary: y) (fastforce split: option.splits if_splits)+

end
