(* ===== verification/Identity.thy ===== *)
theory Identity
  imports Spec_Config Paths
begin

text \<open>
  Which supervisor a command means (\<open>src/src/plan.rs\<close>, \<open>Identity\<close>): an instance of a
  sandbox, a task run, or an unnamed sandbox; the key that names its socket and unit, and the
  host environment the plan is built from.
\<close>

datatype identity =
    Instance string "string option"
  | Task string string
  | Unnamed string

fun describe :: "identity \<Rightarrow> string" where
  "describe (Instance sandbox None) = sandbox"
| "describe (Instance sandbox (Some i)) = sandbox @ '' (instance '' @ i @ '')''"
| "describe (Task sandbox task) = sandbox @ '' (task '' @ task @ '')''"
| "describe (Unnamed i) = ''unnamed sandbox '' @ i"

fun cli_args :: "identity \<Rightarrow> string" where
  "cli_args (Instance sandbox None) = sandbox"
| "cli_args (Instance sandbox (Some i)) = sandbox @ '' -i '' @ i"
| "cli_args (Task sandbox task) = sandbox @ '' '' @ task"
| "cli_args (Unnamed i) = ''sandbox.'' @ i"

fun sandbox_name :: "identity \<Rightarrow> string" where
  "sandbox_name (Instance sandbox _) = sandbox"
| "sandbox_name (Task sandbox _) = sandbox"
| "sandbox_name (Unnamed _) = UNNAMED_SANDBOX"

fun key_of :: "identity \<Rightarrow> string" where
  "key_of (Instance sandbox None) = sandbox"
| "key_of (Instance sandbox (Some i)) = sandbox @ ''.instance-'' @ i"
| "key_of (Task sandbox task) = sandbox @ ''.task-'' @ task"
| "key_of (Unnamed i) = UNNAMED_SANDBOX @ ''.'' @ i"

definition lower_hex :: "char \<Rightarrow> bool" where
  "lower_hex c \<longleftrightarrow> is_digit c \<or> (CHR ''a'' \<le> c \<and> c \<le> CHR ''f'')"

definition check_word :: "string \<Rightarrow> string \<Rightarrow> problem + unit" where
  "check_word kind v = ensure (valid_word v)
     (Problem ''invalid {} name {:?}: use letters, digits, _, -'' [kind, v])"

definition validate_identity :: "identity \<Rightarrow> problem + unit" where
  "validate_identity i = (case i of
      Instance sandbox inst \<Rightarrow> and_then (validate_sandbox_name sandbox) (\<lambda>_.
        case inst of None \<Rightarrow> Inr () | Some v \<Rightarrow> check_word ''instance'' v)
    | Task sandbox task \<Rightarrow> and_then (validate_sandbox_name sandbox) (\<lambda>_. check_word ''task'' task)
    | Unnamed n \<Rightarrow> ensure (length n = 16 \<and> list_all lower_hex n)
        (Problem ''invalid unnamed sandbox id {:?}'' [n]))"

definition from_key :: "string \<Rightarrow> problem + identity" where
  "from_key key = and_then
     (case split_once (CHR ''.'') key of
       None \<Rightarrow> Inr (Instance key None)
     | Some (sandbox, rest) \<Rightarrow> (case strip_prefix ''instance-'' rest of
           Some i \<Rightarrow> Inr (Instance sandbox (Some i))
         | None \<Rightarrow> (case strip_prefix ''task-'' rest of
               Some t \<Rightarrow> Inr (Task sandbox t)
             | None \<Rightarrow>
                 if sandbox = UNNAMED_SANDBOX then Inr (Unnamed rest)
                 else Inl (Problem ''invalid supervisor key {:?}'' [key]))))
     (\<lambda>i. and_then (validate_identity i) (\<lambda>_. Inr i))"

section \<open>The host environment\<close>

record host_env =
  env_uid :: nat
  env_gid :: nat
  env_user :: string
  env_home :: path
  env_runtime_dir :: path
  env_wayland_socket :: "path option"
  env_session_bus :: "path option"
  env_config_dir :: path
  env_root :: path
  env_pasta :: bool
  env_exe :: path

text \<open>The socket path of the first \<open>unix:path=\<close> entry in a D-Bus address.\<close>

definition unix_path :: "string \<Rightarrow> path option" where
  "unix_path address =
     map_option (\<lambda>v. path_of (string_of (unescape v)))
       (List.find (\<lambda>_. True) (List.map_filter (strip_prefix ''path='')
         (concat (map (split_on (CHR '',''))
           (List.map_filter (strip_prefix ''unix:'') (split_on (CHR '';'') address))))))"

text \<open>
  What the process finds: its ids, the environment (a variable is missing or not empty), which
  paths exist, the session bus address, whether \<open>pasta\<close> is installed and its own executable.
\<close>

record process =
  proc_uid :: nat
  proc_gid :: nat
  proc_var :: "string \<Rightarrow> string option"
  proc_exists :: "path \<Rightarrow> bool"
  proc_bus_address :: "string option"
  proc_pasta :: bool
  proc_exe :: "path option"

definition env_path :: "process \<Rightarrow> string \<Rightarrow> path option" where
  "env_path p k = (case proc_var p k of
      Some v \<Rightarrow> if v = [] then None else Some (path_of v)
    | None \<Rightarrow> None)"

definition wayland_socket_of :: "process \<Rightarrow> path \<Rightarrow> path option" where
  "wayland_socket_of p rt = (case proc_var p ''WAYLAND_DISPLAY'' of
      Some v \<Rightarrow>
        if starts_with v ''/'' then Some (path_of v)
        else if v \<noteq> [] then Some (path_join rt (path_of v))
        else (let d = path_join rt (path_of ''wayland-0'') in if proc_exists p d then Some d else None)
    | None \<Rightarrow> (let d = path_join rt (path_of ''wayland-0'') in if proc_exists p d then Some d else None))"

definition env_from_process :: "process \<Rightarrow> string + host_env" where
  "env_from_process p = (case env_path p ''HOME'' of
      None \<Rightarrow> Inl ''HOME is not set''
    | Some home \<Rightarrow> (case proc_exe p of
        None \<Rightarrow> Inl ''find the psbox executable''
      | Some exe \<Rightarrow>
          (let rt = (case env_path p ''XDG_RUNTIME_DIR'' of Some d \<Rightarrow> d
                     | None \<Rightarrow> path_of (''/run/user/'' @ dec (proc_uid p)))
           in Inr \<lparr> env_uid = proc_uid p, env_gid = proc_gid p,
             env_user = (case proc_var p ''USER'' of Some u \<Rightarrow> u | None \<Rightarrow> dec (proc_uid p)),
             env_home = home, env_runtime_dir = rt,
             env_wayland_socket = wayland_socket_of p rt,
             env_session_bus = Option.bind (proc_bus_address p) unix_path,
             env_config_dir = path_join (case env_path p ''XDG_CONFIG_HOME'' of Some d \<Rightarrow> d
               | None \<Rightarrow> path_join home (path_of ''.config'')) (path_of ''psbox''),
             env_root = (case env_path p ''PSBOX_ROOT'' of Some d \<Rightarrow> d
               | None \<Rightarrow> path_join home (path_of ''Sandbox'')),
             env_pasta = proc_pasta p, env_exe = exe \<rparr>)))"

definition socket_dir :: "host_env \<Rightarrow> path" where
  "socket_dir h = path_join (env_runtime_dir h) (path_of ''psbox'')"

definition socket_path :: "host_env \<Rightarrow> identity \<Rightarrow> path" where
  "socket_path h i = path_join (socket_dir h) (path_of (key_of i @ ''.sock''))"

definition settings_path :: "host_env \<Rightarrow> identity \<Rightarrow> path" where
  "settings_path h i = path_join (socket_dir h) (path_of (key_of i @ ''.json''))"

section \<open>Keys\<close>

lemma word_char_no_dot: "word_char c \<Longrightarrow> c \<noteq> CHR ''.'' \<and> c \<noteq> CHR ''/''"
  by (auto simp: word_char_def is_alnum_def is_alpha_def is_digit_def)

lemma valid_word_no_dot: "valid_word s \<Longrightarrow> CHR ''.'' \<notin> set s \<and> CHR ''/'' \<notin> set s"
  using word_char_no_dot by (auto simp: valid_word_def list_all_iff)

lemma sandbox_name_ok: "validate_sandbox_name s = Inr () \<Longrightarrow> valid_word s \<and> s \<noteq> UNNAMED_SANDBOX"
  by (auto simp: validate_sandbox_name_def split: if_splits)

lemma unnamed_word: "CHR ''.'' \<notin> set UNNAMED_SANDBOX"
  by (simp add: UNNAMED_SANDBOX_def)

lemma strip_prefix_hex:
  assumes "list_all lower_hex s"
  shows "strip_prefix ''instance-'' s = None" and "strip_prefix ''task-'' s = None"
proof -
  have "c \<notin> set s" if "\<not> lower_hex c" for c using assms that by (auto simp: list_all_iff)
  moreover have "\<not> lower_hex (CHR ''i'')" "\<not> lower_hex (CHR ''t'')"
    by (simp_all add: lower_hex_def is_digit_def)
  ultimately have "CHR ''i'' \<notin> set s" "CHR ''t'' \<notin> set s" by auto
  then have "strip_prefix ''instance-'' s \<noteq> Some r" "strip_prefix ''task-'' s \<noteq> Some r" for r
    by (auto simp: strip_prefix_eq)
  then show "strip_prefix ''instance-'' s = None" and "strip_prefix ''task-'' s = None"
    by auto
qed

lemma from_key_of:
  assumes "validate_identity i = Inr ()"
  shows "from_key (key_of i) = Inr i"
proof (cases i)
  case (Instance sandbox inst)
  then have nd: "CHR ''.'' \<notin> set sandbox"
    using assms valid_word_no_dot sandbox_name_ok by (auto simp: validate_identity_def)
  show ?thesis
  proof (cases inst)
    case None
    with nd have "split_once (CHR ''.'') sandbox = None" by (simp add: split_once_None)
    with assms Instance None show ?thesis by (simp add: from_key_def)
  next
    case (Some v)
    have "split_once (CHR ''.'') (sandbox @ CHR ''.'' # ''instance-'' @ v) =
        Some (sandbox, ''instance-'' @ v)" using nd by (rule split_once_append)
    with assms Instance Some show ?thesis by (simp add: from_key_def strip_prefix_def)
  qed
next
  case (Task sandbox task)
  then have nd: "CHR ''.'' \<notin> set sandbox"
    using assms valid_word_no_dot sandbox_name_ok by (auto simp: validate_identity_def)
  have "split_once (CHR ''.'') (sandbox @ CHR ''.'' # ''task-'' @ task) =
      Some (sandbox, ''task-'' @ task)" using nd by (rule split_once_append)
  moreover have "strip_prefix ''instance-'' (''task-'' @ task) = None"
    by (simp add: strip_prefix_def)
  ultimately show ?thesis using assms Task by (simp add: from_key_def strip_prefix_def)
next
  case (Unnamed n)
  then have "list_all lower_hex n" using assms by (simp add: validate_identity_def)
  then show ?thesis using assms Unnamed split_once_append [OF unnamed_word, of n]
    by (simp add: from_key_def strip_prefix_hex)
qed

text \<open>
  C26. Supervisor keys name one sandbox each: the key of a valid identity parses back to that
  identity, so two valid identities with the same socket, unit or log are the same.
\<close>

theorem key_roundtrip:
  assumes "validate_identity i = Inr ()"
  shows "from_key (key_of i) = Inr i \<and>
    (\<forall>j. validate_identity j = Inr () \<longrightarrow> key_of j = key_of i \<longrightarrow> j = i)"
  using from_key_of assms by (metis sum.inject(2))

theorem key_roundtrip_witness:
  "from_key ''app.instance-work'' = Inr (Instance ''app'' (Some ''work''))"
proof -
  have "validate_identity (Instance ''app'' (Some ''work'')) = Inr ()" by code_simp
  from key_roundtrip [OF this] show ?thesis by simp
qed

text \<open>Whatever key is accepted, the identity it gives is a valid one.\<close>

lemma from_key_valid: "from_key key = Inr i \<Longrightarrow> validate_identity i = Inr ()"
  by (auto simp: from_key_def)

text \<open>
  A supervisor key is one file name: it has no slash, and every key that is accepted is
  the key of the identity it gives, so no other spelling reaches a supervisor's socket.
\<close>

theorem accepted_key_canonical:
  assumes "from_key key = Inr i"
  shows "key_of i = key \<and> CHR ''/'' \<notin> set key"
proof -
  have v: "validate_identity i = Inr ()" by (rule from_key_valid [OF assms])
  have key: "key_of i = key"
  proof (cases "split_once (CHR ''.'') key")
    case None
    with assms show ?thesis by (auto simp: from_key_def)
  next
    case (Some p)
    obtain sandbox rest where p: "p = (sandbox, rest)" by (cases p)
    have key: "key = sandbox @ CHR ''.'' # rest" using Some p by (simp add: split_once_Some)
    show ?thesis
    proof (cases "strip_prefix ''instance-'' rest")
      case s: (Some x)
      then have "i = Instance sandbox (Some x)" using assms Some p by (auto simp: from_key_def)
      with s key show ?thesis by (simp add: strip_prefix_eq)
    next
      case n: None
      show ?thesis
      proof (cases "strip_prefix ''task-'' rest")
        case s: (Some x)
        then have "i = Task sandbox x" using assms Some p n by (auto simp: from_key_def)
        with s key show ?thesis by (simp add: strip_prefix_eq)
      next
        case n2: None
        then have "sandbox = UNNAMED_SANDBOX" "i = Unnamed rest"
          using assms Some p n by (auto simp: from_key_def split: if_splits)
        with key show ?thesis by simp
      qed
    qed
  qed
  have slash: "CHR ''/'' \<notin> set w" if "check_word k w = Inr ()" for k w
    using that valid_word_no_dot by (simp add: check_word_def)
  have hex: "CHR ''/'' \<notin> set n" if "list_all lower_hex n" for n
    using that by (auto simp: list_all_iff lower_hex_def is_digit_def)
  have name: "CHR ''/'' \<notin> set s" if "validate_sandbox_name s = Inr ()" for s
    using that valid_word_no_dot sandbox_name_ok by blast
  have "CHR ''/'' \<notin> set (key_of i)"
    using v slash hex name
    by (cases i rule: key_of.cases) (auto simp: validate_identity_def UNNAMED_SANDBOX_def)
  with key show ?thesis by simp
qed

theorem accepted_key_canonical_witness:
  "key_of (Task ''app'' ''t'') = ''app.task-t'' \<and> CHR ''/'' \<notin> set ''app.task-t''"
proof -
  have "from_key ''app.task-t'' = Inr (Task ''app'' ''t'')" by code_simp
  from accepted_key_canonical [OF this] show ?thesis .
qed

end
