(* ===== verification/Plan_Diff.thy ===== *)
theory Plan_Diff
  imports Identity
begin

text \<open>
  Sandbox plans and how a running sandbox gets from one to another (\<open>src/src/plan.rs\<close>): the
  mounts of the sandbox root, the plan, and \<open>diff\<close>, which says what changes live and what
  needs a restart. A reason for a restart is its text, since the source filters reasons by text.
\<close>

section \<open>Mounts\<close>

datatype plan_mount =
    Bind (bind_src: path) path (bind_ro: bool) (bind_optional: bool)
  | Tmpfs path nat
  | Overlay_Mount path path bool
  | Symlink string path
  | Dir path
  | Proc path
  | Dev path
  | File path string

fun dst :: "plan_mount \<Rightarrow> path" where
  "dst (Bind _ d _ _) = d"
| "dst (Tmpfs d _) = d"
| "dst (Overlay_Mount _ d _) = d"
| "dst (Symlink _ d) = d"
| "dst (Dir d) = d"
| "dst (Proc d) = d"
| "dst (Dev d) = d"
| "dst (File d _) = d"

section \<open>Plans\<close>

record plan_app =
  run_of_app :: "string list"
  env_of_app :: "(string, string) btree"
  id_of_app :: "string option"

record share_source =
  source_path :: path
  source_entry :: string
  source_dir :: bool

datatype plan_problem =
    Missing path string bool
  | Setting_Problem string string string
  | Broken_Link path path string bool
  | Mount_Point path path path
  | Config_Problem string string
  | System_Problem string

record bus_paths =
  bus_config :: path
  bus_socket :: path

record plan =
  plan_key :: string
  plan_host_home :: "path option"
  plan_home :: path
  plan_mounts :: "plan_mount list"
  plan_node_classes :: "device_class list"
  plan_audio :: bool
  plan_env :: "(string, string) btree"
  plan_apps :: "(string, plan_app) btree"
  plan_default_app :: "string option"
  plan_exec_identity :: "string option"
  plan_idle_timeout :: u64
  plan_32bit :: bool
  plan_dbus :: "dbus_mode option"
  plan_bus :: "bus_paths option"
  plan_dbus_talk :: "string list"
  plan_xwayland :: "xwayland_mode option"
  plan_xwayland_scale :: xwayland_scale
  plan_open_urls :: "string list"
  plan_network :: network
  plan_network_fallback :: bool
  plan_runtime_dir :: path
  plan_sources :: "share_source list"
  plan_sandbox_root :: path
  plan_problems :: "plan_problem list"

definition SOCKET_DIR :: string where "SOCKET_DIR = ''/tmp/.X11-unix''"
definition PSBOX_DIR :: string where "PSBOX_DIR = ''/run/psbox''"
definition PASTA_DNS :: string where "PASTA_DNS = ''169.254.1.1''"

section \<open>Changes\<close>

record change =
  restart :: "string list"
  detach :: "plan_mount list"
  attach :: "plan_mount list"

definition change_is_empty :: "change \<Rightarrow> bool" where
  "change_is_empty c \<longleftrightarrow> restart c = [] \<and> detach c = [] \<and> attach c = []"

definition live_mount :: "plan_mount \<Rightarrow> bool" where
  "live_mount m \<longleftrightarrow>
     (case m of Bind _ _ _ _ \<Rightarrow> True | Tmpfs _ _ \<Rightarrow> True | _ \<Rightarrow> False) \<and> dst m \<noteq> path_of SOCKET_DIR"

definition reason_if :: "bool \<Rightarrow> string \<Rightarrow> string list" where
  "reason_if b r = (if b then [r] else [])"

text \<open>What differs between the settings of two plans, in the order the source asks.\<close>

definition setting_reasons :: "plan \<Rightarrow> plan \<Rightarrow> string list" where
  "setting_reasons old new =
     reason_if (plan_host_home old \<noteq> plan_host_home new \<or> plan_home old \<noteq> plan_home new) ''home''
     @ reason_if (plan_dbus old \<noteq> plan_dbus new) ''dbus''
     @ reason_if (plan_dbus_talk old \<noteq> plan_dbus_talk new) ''dbus.talk''
     @ reason_if (plan_xwayland old \<noteq> plan_xwayland new) ''xwayland''
     @ reason_if (plan_xwayland_scale old \<noteq> plan_xwayland_scale new \<and>
         plan_xwayland old = plan_xwayland new) ''xwayland.scale''
     @ reason_if (plan_network old \<noteq> plan_network new) ''network''
     @ reason_if (plan_32bit old \<noteq> plan_32bit new) ''sandbox.32-bit''
     @ reason_if (plan_open_urls old \<noteq> plan_open_urls new \<and> plan_dbus old = plan_dbus new) ''links''"

definition cache_tmpfs :: "plan \<Rightarrow> bool" where
  "cache_tmpfs p \<longleftrightarrow> Tmpfs (path_join (plan_home p) (path_of ''.cache'')) 448 \<in> set (plan_mounts p)"

definition cache_reason :: "plan \<Rightarrow> plan \<Rightarrow> string list \<Rightarrow> string list" where
  "cache_reason old new rs = reason_if (''home'' \<notin> set rs \<and> cache_tmpfs old \<noteq> cache_tmpfs new) ''home.cache''"

definition changed_dsts :: "plan_mount list \<Rightarrow> plan_mount list \<Rightarrow> path list" where
  "changed_dsts old new = map dst (filter (\<lambda>m. m \<notin> set new) old @ filter (\<lambda>m. m \<notin> set old) new)"

definition beneath :: "path list \<Rightarrow> plan_mount \<Rightarrow> bool" where
  "beneath changed m \<longleftrightarrow> list_ex (\<lambda>d. dst m \<noteq> d \<and> path_starts_with (dst m) d) changed"

text \<open>The mounts of one plan to redo because of the other: the differing ones and all beneath.\<close>

definition redo :: "plan_mount list \<Rightarrow> path list \<Rightarrow> plan_mount list \<Rightarrow> plan_mount list" where
  "redo other changed ms = filter (\<lambda>m. m \<notin> set other \<or> beneath changed m) ms"

definition mount_reason :: "plan_mount \<Rightarrow> string" where
  "mount_reason m = ''mount at '' @ show_path (dst m)"

definition stuck :: "plan_mount list \<Rightarrow> string list" where
  "stuck ms = map mount_reason (filter (\<lambda>m. \<not> live_mount m) ms)"

text \<open>
  A change of a section shows up as mount changes too, which are reported once: the reasons
  kept when a section is among them.
\<close>

definition keep_if :: "string list \<Rightarrow> (string \<Rightarrow> bool) \<Rightarrow> string list \<Rightarrow> string list" where
  "keep_if sections P rs = (if list_ex (\<lambda>r. r \<in> set sections) rs then filter P rs else rs)"

definition fold_reasons :: "path \<Rightarrow> string list \<Rightarrow> string list" where
  "fold_reasons home rs =
     (let rs = keep_if [''xwayland'']
            (\<lambda>r. r \<noteq> ''mount at '' @ SOCKET_DIR \<and> \<not> starts_with r (''mount at '' @ PSBOX_DIR @ ''/bin/'')) rs;
          rs = keep_if [''links'', ''dbus'']
            (\<lambda>r. \<not> starts_with r (''mount at '' @ PSBOX_DIR @ ''/'')) rs;
          rs = keep_if [''network'']
            (\<lambda>r. r \<noteq> ''mount at /etc/resolv.conf'' \<and> r \<noteq> ''mount at /run/systemd/resolve'') rs;
          rs = keep_if [''home'']
            (\<lambda>r. \<not> starts_with r ''mount at '' \<or>
               \<not> path_starts_with (path_of (drop (length ''mount at '') r)) home) rs
      in rev (remdups (rev rs)))"

definition diff :: "plan \<Rightarrow> plan \<Rightarrow> change" where
  "diff old new =
     (let rs = setting_reasons old new;
          rs = rs @ cache_reason old new rs;
          changed = changed_dsts (plan_mounts old) (plan_mounts new);
          gone = rev (redo (plan_mounts new) changed (plan_mounts old));
          come = redo (plan_mounts old) changed (plan_mounts new);
          rs = fold_reasons (plan_home new) (rs @ stuck gone @ stuck come)
      in if rs \<noteq> [] then \<lparr> restart = rs, detach = [], attach = [] \<rparr>
         else \<lparr> restart = [], detach = filter live_mount gone, attach = filter live_mount come \<rparr>)"

section \<open>Reasons are folded, never dropped\<close>

lemma keep_if_nonempty:
  assumes "rs \<noteq> []" and "\<And>r. r \<in> set sections \<Longrightarrow> P r"
  shows "keep_if sections P rs \<noteq> []"
proof (cases "list_ex (\<lambda>r. r \<in> set sections) rs")
  case True
  then obtain r where "r \<in> set rs" "r \<in> set sections" by (auto simp: list_ex_iff)
  with assms(2) have "r \<in> set (filter P rs)" by simp
  moreover have "keep_if sections P rs = filter P rs" using True by (simp add: keep_if_def)
  ultimately show ?thesis by (metis empty_iff empty_set)
next
  case False
  with assms(1) show ?thesis by (simp add: keep_if_def)
qed

lemma fold_reasons_Nil: "fold_reasons home rs = [] \<longleftrightarrow> rs = []"
proof
  assume empty: "fold_reasons home rs = []"
  show "rs = []"
  proof (rule ccontr)
    assume "rs \<noteq> []"
    then have "fold_reasons home rs \<noteq> []"
      unfolding fold_reasons_def Let_def rev_is_Nil_conv remdups_eq_nil_iff
      by (intro keep_if_nonempty) (auto simp: starts_with_def SOCKET_DIR_def PSBOX_DIR_def)
    with empty show False by simp
  qed
qed (simp add: fold_reasons_def keep_if_def)

lemma stuck_Nil: "stuck ms = [] \<longleftrightarrow> (\<forall>m \<in> set ms. live_mount m)"
  by (auto simp: stuck_def filter_empty_conv)

lemma diff_live:
  assumes "restart (diff old new) = []"
  defines "changed \<equiv> changed_dsts (plan_mounts old) (plan_mounts new)"
  shows "setting_reasons old new = []"
    and "\<forall>m \<in> set (redo (plan_mounts new) changed (plan_mounts old)). live_mount m"
    and "\<forall>m \<in> set (redo (plan_mounts old) changed (plan_mounts new)). live_mount m"
    and "detach (diff old new) = rev (redo (plan_mounts new) changed (plan_mounts old))"
    and "attach (diff old new) = redo (plan_mounts old) changed (plan_mounts new)"
proof -
  have "fold_reasons (plan_home new) ((setting_reasons old new
      @ cache_reason old new (setting_reasons old new))
      @ stuck (rev (redo (plan_mounts new) changed (plan_mounts old)))
      @ stuck (redo (plan_mounts old) changed (plan_mounts new))) = []"
    using assms(1) unfolding diff_def Let_def changed_def by (simp split: if_splits)
  then have none: "setting_reasons old new = []"
    "stuck (rev (redo (plan_mounts new) changed (plan_mounts old))) = []"
    "stuck (redo (plan_mounts old) changed (plan_mounts new)) = []"
    unfolding fold_reasons_Nil by simp_all
  then show "setting_reasons old new = []"
    and live: "\<forall>m \<in> set (redo (plan_mounts new) changed (plan_mounts old)). live_mount m"
      "\<forall>m \<in> set (redo (plan_mounts old) changed (plan_mounts new)). live_mount m"
    by (simp_all add: stuck_Nil)
  have "detach (diff old new) = filter live_mount (rev (redo (plan_mounts new) changed (plan_mounts old)))"
    "attach (diff old new) = filter live_mount (redo (plan_mounts old) changed (plan_mounts new))"
    using assms(1) unfolding diff_def Let_def changed_def by (simp_all split: if_splits)
  then show "detach (diff old new) = rev (redo (plan_mounts new) changed (plan_mounts old))"
    and "attach (diff old new) = redo (plan_mounts old) changed (plan_mounts new)"
    using live by (simp_all add: filter_id_conv)
qed

section \<open>What applying a change does\<close>

text \<open>
  The kernel's side. The mounts of a namespace, in the order they were made; a path shows the latest
  mount at or above it. Detaching by path takes the mount on top at that place, when the path is one's
  place, and with it what was mounted beneath it since; an attached mount comes on top.
\<close>

definition under :: "plan_mount \<Rightarrow> plan_mount \<Rightarrow> bool" where
  "under n m \<longleftrightarrow> dst n \<noteq> dst m \<and> path_starts_with (dst n) (dst m)"

definition shown_at :: "plan_mount list \<Rightarrow> path \<Rightarrow> plan_mount option" where
  "shown_at ms p =
     (let above = filter (\<lambda>m. path_starts_with p (dst m)) ms in if above = [] then None else Some (last above))"

fun drop_top :: "path \<Rightarrow> plan_mount list \<Rightarrow> plan_mount list" where
  "drop_top d [] = []"
| "drop_top d (m # older) =
     (if dst m = d then older
      else if path_starts_with (dst m) d then drop_top d older
      else m # drop_top d older)"

definition detach_at :: "path \<Rightarrow> plan_mount list \<Rightarrow> plan_mount list" where
  "detach_at d ms =
     (case shown_at ms d of
        Some m \<Rightarrow> if dst m = d then rev (drop_top d (rev ms)) else ms
      | None \<Rightarrow> ms)"

definition apply_detach :: "change \<Rightarrow> plan_mount list \<Rightarrow> plan_mount list" where
  "apply_detach c ms = fold (\<lambda>m. detach_at (dst m)) (detach c) ms"

definition apply_change :: "change \<Rightarrow> plan_mount list \<Rightarrow> plan_mount list" where
  "apply_change c ms = apply_detach c ms @ attach c"

text \<open>No mount that the other plan has too is at or above the place of an earlier mount.\<close>

definition layered :: "plan_mount list \<Rightarrow> plan_mount list \<Rightarrow> bool" where
  "layered other ms \<longleftrightarrow>
     sorted_wrt (\<lambda>earlier m. m \<in> set other \<longrightarrow> \<not> path_starts_with (dst earlier) (dst m)) ms"

lemma shown_snoc:
  "shown_at (ms @ [m]) p = (if path_starts_with p (dst m) then Some m else shown_at ms p)"
  by (simp add: shown_at_def Let_def)

lemma detach_last: "detach_at (dst m) (ms @ [m]) = ms"
  by (simp add: detach_at_def shown_snoc)

lemma detach_keeps_last:
  assumes "\<not> path_starts_with d (dst m)" and "\<not> path_starts_with (dst m) d"
  shows "detach_at d (ms @ [m]) = detach_at d ms @ [m]"
proof -
  from assms have "dst m \<noteq> d" by auto
  with assms show ?thesis by (simp add: detach_at_def shown_snoc split: option.split)
qed

text \<open>
  Detaching the marked mounts of a list, the latest first, leaves the others, when no later unmarked
  mount is at, above or beneath the place of a marked one.
\<close>

lemma detach_marked:
  assumes "sorted_wrt (\<lambda>m k. G m \<and> \<not> G k \<longrightarrow>
    \<not> path_starts_with (dst m) (dst k) \<and> \<not> path_starts_with (dst k) (dst m)) ms"
  shows "fold (\<lambda>m. detach_at (dst m)) (rev (filter G ms)) ms = filter (\<lambda>m. \<not> G m) ms"
  using assms
proof (induction ms rule: rev_induct)
  case (snoc x xs)
  show ?case
  proof (cases "G x")
    case True
    with snoc show ?thesis by (simp add: detach_last sorted_wrt_append)
  next
    case False
    have apart: "\<forall>m \<in> set (rev (filter G xs)). \<not> path_starts_with (dst m) (dst x) \<and> \<not> path_starts_with (dst x) (dst m)"
      using snoc.prems False by (auto simp: sorted_wrt_append)
    have "fold (\<lambda>m. detach_at (dst m)) gs (ys @ [x]) = fold (\<lambda>m. detach_at (dst m)) gs ys @ [x]"
      if "\<forall>m \<in> set gs. \<not> path_starts_with (dst m) (dst x) \<and> \<not> path_starts_with (dst x) (dst m)" for gs ys
      using that by (induction gs arbitrary: ys) (auto simp: detach_keeps_last)
    with apart False snoc show ?thesis by (simp add: sorted_wrt_append)
  qed
qed simp

lemma beneath_trans: "beneath changed m \<Longrightarrow> under n m \<Longrightarrow> beneath changed n"
  unfolding beneath_def under_def list_ex_iff
  by (metis prefix_order.antisym prefix_order.trans)

lemma under_changed:
  "under n m \<Longrightarrow> m \<in> set old \<and> m \<notin> set new \<or> m \<in> set new \<and> m \<notin> set old
     \<Longrightarrow> beneath (changed_dsts old new) n"
  unfolding beneath_def under_def list_ex_iff changed_dsts_def by auto

text \<open>The mounts of \<open>old\<close> that stay, and what \<open>diff\<close> redoes on either side.\<close>

definition stays :: "plan_mount list \<Rightarrow> path list \<Rightarrow> plan_mount \<Rightarrow> bool" where
  "stays other changed m \<longleftrightarrow> m \<in> set other \<and> \<not> beneath changed m"

lemma redo_stays: "redo other changed ms = filter (\<lambda>m. \<not> stays other changed m) ms"
  by (simp add: redo_def stays_def)

lemma remaining:
  assumes "restart (diff old new) = []" and "layered (plan_mounts new) (plan_mounts old)"
  shows "apply_detach (diff old new) (plan_mounts old) =
    filter (stays (plan_mounts new) (changed_dsts (plan_mounts old) (plan_mounts new))) (plan_mounts old)"
proof -
  let ?old = "plan_mounts old" and ?new = "plan_mounts new"
  let ?ch = "changed_dsts ?old ?new"
  have "\<not> path_starts_with (dst m) (dst k) \<and> \<not> path_starts_with (dst k) (dst m)"
    if m: "m \<in> set ?old" "\<not> stays ?new ?ch m" and k: "stays ?new ?ch k"
      and above: "k \<in> set ?new \<longrightarrow> \<not> path_starts_with (dst m) (dst k)" for m k
  proof -
    from k above have a: "\<not> path_starts_with (dst m) (dst k)" by (simp add: stays_def)
    moreover have "\<not> under k m"
      using m k under_changed [of k m ?old ?new] beneath_trans [of ?ch m k] by (auto simp: stays_def)
    ultimately show ?thesis by (auto simp: under_def)
  qed
  then have "sorted_wrt (\<lambda>m k. \<not> stays ?new ?ch m \<and> \<not> \<not> stays ?new ?ch k \<longrightarrow>
      \<not> path_starts_with (dst m) (dst k) \<and> \<not> path_starts_with (dst k) (dst m)) ?old"
    using assms(2) unfolding layered_def by (rule_tac sorted_wrt_mono_rel) auto
  from detach_marked [OF this] show ?thesis
    by (simp add: apply_detach_def diff_live(4) [OF assms(1)] redo_stays)
qed

lemma last_wrt:
  assumes "sorted_wrt P xs" and "x \<in> set xs" and "x \<noteq> last xs"
  shows "P x (last xs)"
proof -
  from assms(2) have xs: "xs = butlast xs @ [last xs]" by (cases xs rule: rev_cases) auto
  with assms(2,3) have "x \<in> set (butlast xs)" by (metis in_set_conv_decomp rotate1.simps(2) set_rotate1 set_ConsD)
  with assms(1) show ?thesis by (subst (asm) xs) (simp add: sorted_wrt_append del: append_butlast_last_id)
qed

lemma shown_Some:
  "shown_at ms p = Some m \<longleftrightarrow> filter (\<lambda>m. path_starts_with p (dst m)) ms \<noteq> []
     \<and> m = last (filter (\<lambda>m. path_starts_with p (dst m)) ms)"
  by (auto simp: shown_at_def Let_def)

lemma shown_None: "shown_at ms p = None \<longleftrightarrow> (\<forall>m \<in> set ms. \<not> path_starts_with p (dst m))"
  by (auto simp: shown_at_def Let_def filter_empty_conv)

lemma shown_mem: "shown_at ms p = Some m \<Longrightarrow> m \<in> set ms \<and> path_starts_with p (dst m)"
  unfolding shown_Some using last_in_set [of "filter (\<lambda>m. path_starts_with p (dst m)) ms"] by auto

lemma shown_append: "shown_at (xs @ ys) p = (case shown_at ys p of Some m \<Rightarrow> Some m | None \<Rightarrow> shown_at xs p)"
  by (auto simp: shown_at_def Let_def)

lemma shown_filter: "shown_at ms p = Some m \<Longrightarrow> P m \<Longrightarrow> shown_at (filter P ms) p = Some m"
  by (induction ms rule: rev_induct) (auto simp: shown_snoc shown_at_def split: if_splits)

lemma shown_later:
  assumes "layered other ms" and "shown_at ms p = Some m" and "n \<in> set ms" and "path_starts_with p (dst n)"
    and "n \<noteq> m" and "m \<in> set other"
  shows "under m n"
proof -
  let ?above = "filter (\<lambda>m. path_starts_with p (dst m)) ms"
  from assms(2) have m: "m = last ?above" unfolding shown_Some by simp
  from shown_mem [OF assms(2)] have pm: "path_starts_with p (dst m)" by simp
  have "sorted_wrt (\<lambda>earlier m. m \<in> set other \<longrightarrow> \<not> path_starts_with (dst earlier) (dst m)) ?above"
    using assms(1) unfolding layered_def by (rule sorted_wrt_filter)
  moreover have "n \<in> set ?above" using assms(3,4) by simp
  moreover have "n \<noteq> last ?above" using assms(5) unfolding m .
  ultimately have "last ?above \<in> set other \<longrightarrow> \<not> path_starts_with (dst n) (dst (last ?above))"
    by (rule last_wrt)
  with assms(6) have "\<not> path_starts_with (dst n) (dst m)" unfolding m [symmetric] by simp
  moreover from pm assms(4) have "path_starts_with (dst n) (dst m) \<or> path_starts_with (dst m) (dst n)"
    by (rule prefix_same_cases)
  ultimately show ?thesis by (auto simp: under_def)
qed

lemma layered_filter: "layered other ms \<Longrightarrow> layered other (filter P ms)"
  unfolding layered_def by (rule sorted_wrt_filter)

lemma diff_shown:
  assumes r: "restart (diff old new) = []" and lo: "layered (plan_mounts new) (plan_mounts old)"
    and ln: "layered (plan_mounts old) (plan_mounts new)"
  shows "shown_at (apply_change (diff old new) (plan_mounts old)) p = shown_at (plan_mounts new) p"
proof -
  let ?old = "plan_mounts old" and ?new = "plan_mounts new"
  let ?ch = "changed_dsts ?old ?new"
  let ?kept = "filter (stays ?new ?ch) ?old" and ?come = "filter (\<lambda>m. \<not> stays ?old ?ch m) ?new"
  have result: "apply_change (diff old new) ?old = ?kept @ ?come"
    unfolding apply_change_def remaining [OF r lo] diff_live(5) [OF r] redo_stays by simp
  have kept: "set ?kept = {m \<in> set ?new. stays ?old ?ch m}" by (auto simp: stays_def)
  show ?thesis
  proof (cases "shown_at ?new p")
    case None
    with kept have "\<forall>m \<in> set (?kept @ ?come). \<not> path_starts_with p (dst m)" by (auto simp: shown_None)
    then have "shown_at (?kept @ ?come) p = None" unfolding shown_None .
    with None result show ?thesis by simp
  next
    case (Some e)
    show ?thesis
    proof (cases "stays ?old ?ch e")
      case False
      with Some have "shown_at ?come p = Some e" by (auto intro: shown_filter)
      with Some result show ?thesis by (simp add: shown_append)
    next
      case e: True
      note mem = shown_mem [OF Some]
      have "\<not> path_starts_with p (dst a)" if a: "a \<in> set ?new" "\<not> stays ?old ?ch a" for a
      proof
        assume "path_starts_with p (dst a)"
        with shown_later [OF ln Some a(1)] e a(2) have "under e a" by (auto simp: stays_def)
        with a e under_changed [of e a ?old ?new] beneath_trans [of ?ch a e] show False
          by (auto simp: stays_def)
      qed
      then have none: "shown_at ?come p = None" by (simp add: shown_None)
      from e mem have "e \<in> set ?kept" using kept by blast
      then obtain f where f: "shown_at ?kept p = Some f" using mem by (metis not_None_eq shown_None)
      have "f = e"
      proof (rule ccontr)
        assume "f \<noteq> e"
        note fm = shown_mem [OF f]
        with kept have "f \<in> set ?new" by auto
        with fm shown_later [OF layered_filter [OF lo] f \<open>e \<in> set ?kept\<close>] mem \<open>f \<noteq> e\<close> have "under f e" by auto
        moreover from shown_later [OF ln Some \<open>f \<in> set ?new\<close>] fm e \<open>f \<noteq> e\<close> have "under e f"
          by (auto simp: stays_def)
        ultimately show False by (auto simp: under_def)
      qed
      with Some f none result show ?thesis by (simp add: shown_append)
    qed
  qed
qed

text \<open>
  C6. A change that needs no restart leads to the new plan's mounts, stacked as it has them: detaching
  in its order what \<open>diff\<close> lists, by path as the supervisor does, and then attaching in its order what
  it lists, leaves every path showing the mount the new plan has there, and exactly the mounts of the
  new plan, when every mount of the old plan is in place and in neither plan a mount of both is at or
  above the place of an earlier one (\<open>diff_covered\<close>: it goes wrong where one is). Only binds and tmpfs mounts
  are touched, never the X socket directory; the settings that need a restart are equal.
\<close>

theorem diff_applies:
  assumes "restart (diff old new) = []"
    and "layered (plan_mounts new) (plan_mounts old)" and "layered (plan_mounts old) (plan_mounts new)"
  shows "(\<forall>p. shown_at (apply_change (diff old new) (plan_mounts old)) p = shown_at (plan_mounts new) p) \<and>
    set (apply_change (diff old new) (plan_mounts old)) = set (plan_mounts new) \<and>
    (\<forall>n \<in> set (apply_detach (diff old new) (plan_mounts old)). \<forall>a \<in> set (attach (diff old new)).
       \<not> under n a) \<and>
    (\<forall>m \<in> set (detach (diff old new) @ attach (diff old new)). live_mount m) \<and>
    plan_host_home old = plan_host_home new \<and> plan_home old = plan_home new \<and>
    plan_dbus old = plan_dbus new \<and> plan_dbus_talk old = plan_dbus_talk new \<and>
    plan_xwayland old = plan_xwayland new \<and> plan_xwayland_scale old = plan_xwayland_scale new \<and>
    plan_network old = plan_network new \<and> plan_32bit old = plan_32bit new \<and>
    plan_open_urls old = plan_open_urls new"
proof -
  let ?ch = "changed_dsts (plan_mounts old) (plan_mounts new)"
  note live = diff_live [OF assms(1)] and left = remaining [OF assms(1,2)]
  have settings: "plan_host_home old = plan_host_home new \<and> plan_home old = plan_home new \<and>
    plan_dbus old = plan_dbus new \<and> plan_dbus_talk old = plan_dbus_talk new \<and>
    plan_xwayland old = plan_xwayland new \<and> plan_xwayland_scale old = plan_xwayland_scale new \<and>
    plan_network old = plan_network new \<and> plan_32bit old = plan_32bit new \<and>
    plan_open_urls old = plan_open_urls new"
    using live(1) by (auto simp: setting_reasons_def reason_if_def split: if_splits)
  have "set (apply_change (diff old new) (plan_mounts old)) = set (plan_mounts new)"
    unfolding apply_change_def left live(5) redo_stays by (auto simp: stays_def)
  moreover have "\<not> under n a"
    if n: "n \<in> set (apply_detach (diff old new) (plan_mounts old))" and a: "a \<in> set (attach (diff old new))"
    for n a
  proof
    assume u: "under n a"
    have "a \<notin> set (plan_mounts old) \<and> a \<in> set (plan_mounts new) \<or> beneath ?ch a"
      using a unfolding live(5) redo_def by auto
    then have "beneath ?ch n" using u under_changed beneath_trans by blast
    with n show False unfolding left by (simp add: stays_def)
  qed
  ultimately show ?thesis using settings live(2,3,4,5) diff_shown [OF assms] by auto
qed

text \<open>
  Where a mount of both plans lies at the place of an earlier one that goes, as a share at the place of
  the audio socket when the audio devices are taken out of the config, the change detaches the mount on
  top there, and leaves the one that was to go.
\<close>

lemma diff_covered:
  assumes "plan_mounts old = [a, k]" and "new = old\<lparr>plan_mounts := [k]\<rparr>" and "a = Bind src d ro opt"
    and "dst k = d" and "a \<noteq> k" and "live_mount a"
  shows "restart (diff old new) = []"
    and "shown_at (apply_change (diff old new) (plan_mounts old)) d = Some a"
    and "shown_at (plan_mounts new) d = Some k"
proof -
  have "detach (diff old new) = [a]" "attach (diff old new) = []" and r: "restart (diff old new) = []"
    using assms by (auto simp: diff_def Let_def changed_dsts_def redo_def beneath_def stuck_def fold_reasons_Nil
        setting_reasons_def cache_reason_def cache_tmpfs_def reason_if_def)
  then have "apply_change (diff old new) (plan_mounts old) = [a]"
    using assms by (simp add: apply_change_def apply_detach_def detach_at_def shown_at_def)
  with assms r show "restart (diff old new) = []"
    "shown_at (apply_change (diff old new) (plan_mounts old)) d = Some a" "shown_at (plan_mounts new) d = Some k"
    by (simp_all add: shown_at_def)
qed

lemma redo_same: "redo ms [] ms = []"
  by (simp add: redo_def beneath_def filter_empty_conv)

text \<open>
  A plan compared with itself changes nothing, and whenever there is a reason for a
  restart nothing is applied live.
\<close>

theorem diff_restart_or_live:
  "change_is_empty (diff p p) \<and>
   (restart (diff old new) = [] \<or> detach (diff old new) = [] \<and> attach (diff old new) = [])"
proof
  have "changed_dsts (plan_mounts p) (plan_mounts p) = []"
    by (auto simp: changed_dsts_def filter_empty_conv)
  then show "change_is_empty (diff p p)"
    by (simp add: diff_def Let_def redo_same setting_reasons_def cache_reason_def reason_if_def
        stuck_def change_is_empty_def fold_reasons_Nil)
  show "restart (diff old new) = [] \<or> detach (diff old new) = [] \<and> attach (diff old new) = []"
    by (simp add: diff_def Let_def)
qed

end
