(* ===== verification/Plan_Build.thy ===== *)
theory Plan_Build
  imports Plan_Diff
begin

text \<open>
  Building the plan of a sandbox (\<open>src/src/plan.rs\<close>, \<open>Plan::build\<close>): the mounts in
  order, the environment, what a launch can run, and the problems found on the way. The lemmas
  show what of the host the plan lets the sandbox write, and in which order mounts come.
\<close>

section \<open>Network and link handler\<close>

definition resolve_network :: "network_setting \<Rightarrow> bool \<Rightarrow> (network \<times> bool) option" where
  "resolve_network setting pasta = (case setting of
      Net_Isolated \<Rightarrow> if pasta then Some (Isolated_Network, False) else None
    | Net_Host \<Rightarrow> Some (Host_Network, False)
    | Net_Loopback \<Rightarrow> Some (Loopback_Network, False)
    | Net_Automatic \<Rightarrow> if pasta then Some (Isolated_Network, False) else Some (Host_Network, True))"

definition BIND_PREFIX :: string where "BIND_PREFIX = ''bind-''"
definition RO_BIND_PREFIX :: string where "RO_BIND_PREFIX = ''ro-bind-''"

definition entry_label :: "string \<Rightarrow> bool \<Rightarrow> string" where
  "entry_label entry unnamed =
     (if unnamed \<and> starts_with entry RO_BIND_PREFIX then ''--ro-bind''
      else if unnamed \<and> starts_with entry BIND_PREFIX then ''--bind''
      else ''mount.'' @ entry)"

abbreviation newline :: string where "newline \<equiv> [CHR 0x0A]"

definition squoted :: "string \<Rightarrow> string" where
  "squoted s = [CHR 0x27] @ s @ [CHR 0x27]"

definition link_handler :: "string list \<Rightarrow> string \<times> string" where
  "link_handler schemes =
     (''[Default Applications]'' @ newline @
        concat (map (\<lambda>s. ''x-scheme-handler/'' @ s @ ''=psbox-open-uri.desktop'' @ newline) schemes),
      ''[Desktop Entry]'' @ newline @ ''Type=Application'' @ newline
        @ ''Name=Open on the host'' @ newline
        @ ''Comment=Opens links in the host'' @ [CHR 0x27] @ ''s default app through the OpenURI portal'' @ newline
        @ ''Exec=/run/psbox/bin/psbox open-uri -- %u'' @ newline @ ''NoDisplay=true'' @ newline
        @ ''MimeType='' @ concat (map (\<lambda>s. ''x-scheme-handler/'' @ s @ '';'') schemes) @ newline)"

definition bus_paths_new :: "path \<Rightarrow> bus_paths" where
  "bus_paths_new rt = \<lparr> bus_config = path_join rt (path_of ''psbox/dbus/session.conf''),
     bus_socket = path_join rt (path_of ''bus'') \<rparr>"

definition bus_address :: "bus_paths \<Rightarrow> string" where
  "bus_address b = ''unix:path='' @ show_path (bus_socket b)"

section \<open>What a launch can run\<close>

definition app_of :: "app_spec \<Rightarrow> plan_app option" where
  "app_of a = (case a of
      Application a \<Rightarrow> Some \<lparr> run_of_app = app_run a, env_of_app = app_environment a,
        id_of_app = Some (app_id a) \<rparr>
    | _ \<Rightarrow> None)"

fun apps_of :: "(string, app_spec) btree \<Rightarrow> (string, plan_app) btree" where
  "apps_of [] = []"
| "apps_of ((k, a) # m) = (case app_of a of Some p \<Rightarrow> (k, p) # apps_of m | None \<Rightarrow> apps_of m)"

text \<open>A task gets its own config, and its app's id as the identity to try.\<close>

definition resolve_task ::
  "identity \<Rightarrow> spec \<Rightarrow> string + (unit spec_of \<times> (string, plan_app) btree \<times> string option)" where
  "resolve_task i s = (case i of
      Task _ task \<Rightarrow> (case bt_get (tasks s) task of
          None \<Rightarrow> Inl (''no task named '' @ task)
        | Some t \<Rightarrow> Inr (task_config t,
            [(task, \<lparr> run_of_app = task_command t, env_of_app = [],
               id_of_app = Option.bind (task_app t) (\<lambda>a. Option.bind (bt_get (app s) a)
                 (\<lambda>a. Option.bind (app_of a) id_of_app)) \<rparr>)],
            Some task))
    | _ \<Rightarrow> (let apps = apps_of (app s); name = sandbox_name i in
        Inr (\<lparr> idle_timeout = idle_timeout s, allow_32bit = allow_32bit s, home_of = home_of s,
               devices = devices s, dbus_of = dbus_of s, network_of = network_of s,
               display = display s, xwayland = xwayland s, links = links s,
               environment = environment s, mount = mount s, app = app s, tasks = [] \<rparr>,
             apps, if bt_has apps name then Some name else None)))"

section \<open>The mounts psbox sets up\<close>

definition ro_mount :: "string \<Rightarrow> bool \<Rightarrow> plan_mount" where
  "ro_mount p optional = Bind (path_of p) (path_of p) True optional"

definition base_mounts :: "plan_mount list" where
  "base_mounts =
     [ro_mount ''/usr'' False, ro_mount ''/etc'' False, ro_mount ''/opt'' True, ro_mount ''/sys'' False,
      Symlink ''usr/bin'' (path_of ''/bin''), Symlink ''usr/bin'' (path_of ''/sbin''),
      Symlink ''usr/lib'' (path_of ''/lib''), Symlink ''usr/lib'' (path_of ''/lib64''),
      Proc (path_of ''/proc''), Dev (path_of ''/dev''), Tmpfs (path_of ''/tmp'') 1023,
      Dir (path_of ''/var''), Tmpfs (path_of ''/var/tmp'') 1023,
      ro_mount ''/var/cache/fontconfig'' True]"

definition network_mounts :: "network \<Rightarrow> plan_mount list" where
  "network_mounts n = (case n of
      Host_Network \<Rightarrow> [ro_mount ''/run/systemd/resolve'' True]
    | Isolated_Network \<Rightarrow> [File (path_of ''/etc/resolv.conf'') (''nameserver '' @ PASTA_DNS @ newline)]
    | Loopback_Network \<Rightarrow> [])"

definition wayland_mounts :: "path \<Rightarrow> path \<Rightarrow> string + plan_mount" where
  "wayland_mounts rt sock = (case file_name sock of
      None \<Rightarrow> Inl ''Wayland socket has no file name''
    | Some f \<Rightarrow> Inr (Bind sock (path_join rt [Normal f]) True True))"

definition audio_mounts :: "path \<Rightarrow> bool \<Rightarrow> plan_mount list" where
  "audio_mounts rt on = (if on then
     map (\<lambda>rel. Bind (path_join rt (path_of rel)) (path_join rt (path_of rel)) True True)
       [''pipewire-0'', ''pulse/native''] else [])"

definition home_mounts :: "path \<Rightarrow> home option \<Rightarrow> plan_mount list" where
  "home_mounts home h = (case h of
      None \<Rightarrow> []
    | Some Home_Temporary \<Rightarrow> [Tmpfs home 448]
    | Some (Home_Path p c) \<Rightarrow> Bind (path_of p) home False False #
        (if c = Cache_Temporary then [Tmpfs (path_join home (path_of ''.cache'')) 448] else []))"

section \<open>Shares\<close>

definition reserved_dst :: "path \<Rightarrow> bool" where
  "reserved_dst d \<longleftrightarrow> d = path_of ''/'' \<or> path_starts_with d (path_of ''/proc'') \<or>
     path_starts_with d (path_of ''/dev'')"

definition share_of :: "mount_spec \<Rightarrow> plan_mount" where
  "share_of m = (let d = path_of (mount_destination m) in
     case (mode_of_mount m, mount_source m) of
       (Read_Only, Some s) \<Rightarrow> Bind (path_of s) d True (mount_optional m)
     | (Read_Write, Some s) \<Rightarrow> Bind (path_of s) d False (mount_optional m)
     | (Overlay, Some s) \<Rightarrow> Overlay_Mount (path_of s) d (mount_optional m)
     | _ \<Rightarrow> Tmpfs d 493)"

definition share_sources :: "(string, mount_spec) btree \<Rightarrow> share_source list" where
  "share_sources ms = List.map_filter (\<lambda>(name, m). if mount_optional m then None
     else map_option (\<lambda>s. \<lparr> source_path = path_of s, source_entry = name,
       source_dir = mount_create m \<rparr>) (mount_source m)) ms"

definition share_problems :: "bool \<Rightarrow> (string, mount_spec) btree \<Rightarrow> plan_problem list" where
  "share_problems unnamed ms = map (\<lambda>(name, m). Config_Problem (entry_label name unnamed)
       (''cannot mount at '' @ mount_destination m @ '' (psbox sets up /, /proc, and /dev)''))
     (filter (\<lambda>e. reserved_dst (path_of (mount_destination (snd e)))) ms)"

definition shares_of :: "(string, mount_spec) btree \<Rightarrow> plan_mount list" where
  "shares_of ms = map (\<lambda>e. share_of (snd e))
     (filter (\<lambda>e. \<not> reserved_dst (path_of (mount_destination (snd e)))) ms)"

definition sorted_shares :: "(string, mount_spec) btree \<Rightarrow> plan_mount list" where
  "sorted_shares ms = sort_key (\<lambda>m. length (dst m)) (shares_of ms)"

section \<open>Session bus\<close>

definition host_bus_mounts :: "path \<Rightarrow> path \<Rightarrow> plan_mount list" where
  "host_bus_mounts rt src = [Bind src (bus_socket (bus_paths_new rt)) True False,
     ro_mount ''/run/dbus'' True, ro_mount ''/var/lib/dbus'' True]"

definition bus_mounts :: "host_env \<Rightarrow> dbus_mode option \<Rightarrow> plan_mount list" where
  "bus_mounts h mode = (if mode = Some Dbus_Host then
     (case env_session_bus h of Some src \<Rightarrow> host_bus_mounts (env_runtime_dir h) src | None \<Rightarrow> [])
     else [])"

definition bus_problems :: "bool \<Rightarrow> host_env \<Rightarrow> dbus_mode option \<Rightarrow> plan_problem list" where
  "bus_problems unnamed h mode = (if mode = Some Dbus_Host \<and> env_session_bus h = None then
     [Setting_Problem (if unnamed then ''-c dbus.mode=host'' else ''dbus.mode: '' @ squoted ''host'')
       ''a unix:path= session bus address'' ''DBUS_SESSION_BUS_ADDRESS has none''] else [])"

definition handler_mounts :: "host_env \<Rightarrow> string list \<Rightarrow> xwayland_mode option \<Rightarrow> plan_mount list" where
  "handler_mounts h urls xw =
     (if urls \<noteq> [] \<or> xw = Some Builtin
      then [Bind (env_exe h) (path_of (PSBOX_DIR @ ''/bin/psbox'')) True False] else [])
     @ (if urls \<noteq> [] then
          [File (path_of (PSBOX_DIR @ ''/config/mimeapps.list'')) (fst (link_handler urls)),
           File (path_of (PSBOX_DIR @ ''/share/applications/psbox-open-uri.desktop''))
             (snd (link_handler urls))]
        else [])"

definition x11_mounts :: "xwayland_mode option \<Rightarrow> plan_mount list" where
  "x11_mounts xw = (if xw \<noteq> None then [Tmpfs (path_of SOCKET_DIR) 1023] else [])"

section \<open>Environment\<close>

definition env_extend :: "(string, string) btree \<Rightarrow> (string \<times> string) list \<Rightarrow> (string, string) btree" where
  "env_extend env es = fold (\<lambda>e m. bt_insert m (fst e) (snd e)) es env"

definition DEFAULT_PATH :: string where "DEFAULT_PATH = ''/usr/local/bin:/usr/bin''"

definition wayland_env :: "path option \<Rightarrow> (string \<times> string) list" where
  "wayland_env sock = (case Option.bind sock file_name of
      None \<Rightarrow> []
    | Some f \<Rightarrow> [(''WAYLAND_DISPLAY'', f), (''XDG_SESSION_TYPE'', ''wayland'')])"

definition host_bus_env :: "host_env \<Rightarrow> dbus_mode option \<Rightarrow> (string \<times> string) list" where
  "host_bus_env h mode = (if mode = Some Dbus_Host \<and> env_session_bus h \<noteq> None
     then [(''DBUS_SESSION_BUS_ADDRESS'', bus_address (bus_paths_new (env_runtime_dir h)))] else [])"

definition own_env :: "host_env \<Rightarrow> dbus_mode option \<Rightarrow> string list \<Rightarrow> (string \<times> string) list" where
  "own_env h mode urls =
     [(''HOME'', show_path (env_home h)), (''USER'', env_user h), (''LOGNAME'', env_user h),
      (''PATH'', DEFAULT_PATH), (''XDG_RUNTIME_DIR'', show_path (env_runtime_dir h))]
     @ (if mode = Some Dbus_Portal
        then [(''DBUS_SESSION_BUS_ADDRESS'', bus_address (bus_paths_new (env_runtime_dir h)))] else [])
     @ (if urls \<noteq> [] then
          [(''XDG_CONFIG_DIRS'', PSBOX_DIR @ ''/config:/etc/xdg''),
           (''XDG_DATA_DIRS'', PSBOX_DIR @ ''/share:/usr/local/share:/usr/share'')] else [])"

text \<open>Client variables that are passed through to spawned processes.\<close>

definition client_env_allowed :: "string \<Rightarrow> bool" where
  "client_env_allowed key \<longleftrightarrow> key \<in> set [''TERM'', ''COLORTERM'', ''LANG'', ''LANGUAGE'', ''TZ'',
     ''NO_COLOR'', ''XDG_CURRENT_DESKTOP'', ''XDG_SESSION_DESKTOP'', ''DESKTOP_SESSION'',
     ''XDG_ACTIVATION_TOKEN'', ''DESKTOP_STARTUP_ID''] \<or> starts_with key ''LC_''"

definition PORTAL_ENV :: "(string \<times> string) list" where
  "PORTAL_ENV = [(''GIO_USE_PORTALS'', ''1''), (''GTK_USE_PORTAL'', ''1''), (''GDK_DEBUG'', ''portals''),
     (''GNOTIFICATION_BACKEND'', ''portal'')]"

section \<open>The plan\<close>

definition is_unnamed :: "identity \<Rightarrow> bool" where
  "is_unnamed i = (case i of Unnamed _ \<Rightarrow> True | _ \<Rightarrow> False)"

definition network_problem :: "bool \<Rightarrow> plan_problem" where
  "network_problem unnamed = Setting_Problem
     (if unnamed then ''-c network.mode=isolated'' else ''network.mode: '' @ squoted ''isolated'')
     ''pasta'' ''not installed (package passt)''"

definition wayland_of :: "host_env \<Rightarrow> unit spec_of \<Rightarrow> path option" where
  "wayland_of h s = (if display s then env_wayland_socket h else None)"

definition open_urls_of :: "unit spec_of \<Rightarrow> string list" where
  "open_urls_of s = (case dbus_of s of None \<Rightarrow> [] | Some _ \<Rightarrow> host_schemes (links s))"

definition build_plan ::
  "identity \<Rightarrow> unit spec_of \<Rightarrow> (string, plan_app) btree \<Rightarrow> string option \<Rightarrow> host_env \<Rightarrow>
     plan_mount list \<Rightarrow> plan" where
  "build_plan i s apps dflt h wl =
     (let unnamed = is_unnamed i;
          net = resolve_network (network_of s) (env_pasta h);
          network = (case net of Some (n, _) \<Rightarrow> n | None \<Rightarrow> Isolated_Network);
          rt = env_runtime_dir h;
          sock = wayland_of h s;
          xw = (if sock = None then None else map_option mode_of_xwayland (xwayland s));
          mode = map_option mode_of_dbus (dbus_of s);
          urls = open_urls_of s
      in \<lparr> plan_key = key_of i,
        plan_host_home = (case home_of s of Some (Home_Path p _) \<Rightarrow> Some (path_of p) | _ \<Rightarrow> None),
        plan_home = env_home h,
        plan_mounts = base_mounts @ network_mounts network @ [ro_mount ''/run/udev'' True, Tmpfs rt 448]
          @ wl @ audio_mounts rt (Audio \<in> set (devices s)) @ home_mounts (env_home h) (home_of s)
          @ bus_mounts h mode @ handler_mounts h urls xw @ sorted_shares (mount s) @ x11_mounts xw,
        plan_node_classes = filter is_node (devices s),
        plan_audio = Audio \<in> set (devices s),
        plan_env = env_extend [] (wayland_env sock @ host_bus_env h mode @ own_env h mode urls
          @ environment s),
        plan_apps = apps, plan_default_app = dflt,
        plan_exec_identity = Option.bind dflt (\<lambda>a. Option.bind (bt_get apps a) id_of_app),
        plan_idle_timeout = idle_timeout s, plan_32bit = allow_32bit s, plan_dbus = mode,
        plan_bus = (if mode = Some Dbus_Portal then Some (bus_paths_new rt) else None),
        plan_dbus_talk = (if mode = Some Dbus_Portal
          then (case dbus_of s of Some d \<Rightarrow> talk d | None \<Rightarrow> []) else []),
        plan_xwayland = xw,
        plan_xwayland_scale = (if xw = Some Builtin
          then (case xwayland s of Some x \<Rightarrow> scale_of_xwayland x | None \<Rightarrow> Native) else Native),
        plan_open_urls = urls, plan_network = network,
        plan_network_fallback = (case net of Some (_, b) \<Rightarrow> b | None \<Rightarrow> False),
        plan_runtime_dir = rt, plan_sources = share_sources (mount s),
        plan_sandbox_root = env_root h,
        plan_problems = (if net = None then [network_problem unnamed] else [])
          @ share_problems unnamed (mount s) @ bus_problems unnamed h mode \<rparr>)"

definition build :: "identity \<Rightarrow> spec \<Rightarrow> host_env \<Rightarrow> string + plan" where
  "build i s h = and_then (resolve_task i s) (\<lambda>(s, apps, dflt).
     (case wayland_of h s of
       None \<Rightarrow> Inr (build_plan i s apps dflt h [])
     | Some sock \<Rightarrow> and_then (wayland_mounts (env_runtime_dir h) sock)
         (\<lambda>m. Inr (build_plan i s apps dflt h [m]))))"

section \<open>Which config is planned\<close>

text \<open>The config the plan is built from: the task's own, or the sandbox's.\<close>

definition planned :: "identity \<Rightarrow> spec \<Rightarrow> unit spec_of \<Rightarrow> bool" where
  "planned i s u \<longleftrightarrow> (\<exists>apps dflt. resolve_task i s = Inr (u, apps, dflt))"

lemma build_cases:
  assumes "build i s h = Inr p"
  obtains u apps dflt wl where "resolve_task i s = Inr (u, apps, dflt)"
    and "p = build_plan i u apps dflt h wl"
    and "wl = [] \<or> (\<exists>sock f. wl = [Bind sock (path_join (env_runtime_dir h) [Normal f]) True True])"
proof -
  from assms obtain u apps dflt where r: "resolve_task i s = Inr (u, apps, dflt)"
    and rest: "(case wayland_of h u of
       None \<Rightarrow> Inr (build_plan i u apps dflt h [])
     | Some sock \<Rightarrow> and_then (wayland_mounts (env_runtime_dir h) sock)
         (\<lambda>m. Inr (build_plan i u apps dflt h [m]))) = Inr p"
    by (auto simp: build_def)
  show thesis
  proof (cases "wayland_of h u")
    case None
    with rest have "p = build_plan i u apps dflt h []" by simp
    then show thesis using that [OF r] by blast
  next
    case (Some sock)
    then obtain m where m: "wayland_mounts (env_runtime_dir h) sock = Inr m"
      "p = build_plan i u apps dflt h [m]" using rest by auto
    then show thesis using that [OF r m(2)]
      by (auto simp: wayland_mounts_def split: option.splits)
  qed
qed

lemma spec_writable_task:
  "resolve_task i s = Inr (u, apps, dflt) \<Longrightarrow> set (spec_writable u) \<subseteq> set (writable s)"
proof (cases i)
  case (Task sandbox task)
  assume "resolve_task i s = Inr (u, apps, dflt)"
  then obtain t where t: "bt_get (tasks s) task = Some t" and u: "u = task_config t"
    by (auto simp: resolve_task_def Task split: option.splits)
  have "(task, t) \<in> set (tasks s)" using t by (rule map_of_SomeD)
  then show ?thesis by (force simp: writable_def u)
qed (auto simp: resolve_task_def Let_def writable_def spec_writable_def)

lemma map_filter_set: "x \<in> set (List.map_filter f xs) \<longleftrightarrow> (\<exists>y \<in> set xs. f y = Some x)"
  by (force simp: List.map_filter_def)

lemma share_writable:
  assumes "Bind src d False opt \<in> set (sorted_shares ms)"
  shows "\<exists>e \<in> set ms. mode_of_mount (snd e) = Read_Write \<and>
    map_option path_of (mount_source (snd e)) = Some src"
proof -
  from assms obtain e where e: "e \<in> set ms" "share_of (snd e) = Bind src d False opt"
    by (auto simp: sorted_shares_def shares_of_def)
  then have "mode_of_mount (snd e) = Read_Write \<and> map_option path_of (mount_source (snd e)) = Some src"
    by (auto simp: share_of_def Let_def split: mount_mode.splits option.splits)
  with e(1) show ?thesis by blast
qed

definition writable_bind :: "plan_mount \<Rightarrow> bool" where
  "writable_bind m = (case m of Bind _ _ ro _ \<Rightarrow> \<not> ro | _ \<Rightarrow> False)"

lemma writable_bind_iff: "writable_bind m \<longleftrightarrow> (\<exists>src d opt. m = Bind src d False opt)"
  by (cases m) (auto simp: writable_bind_def)

lemma own_bind [simp]: "\<not> writable_bind (ro_mount q opt)" "\<not> writable_bind (Tmpfs rt bits)"
  "\<not> writable_bind (File f c)" "\<not> writable_bind (Bind src d True opt)"
  by (simp_all add: ro_mount_def writable_bind_def)

lemma base_binds [simp]: "filter writable_bind base_mounts = []"
  by (simp add: base_mounts_def) (simp add: writable_bind_def)

lemma network_binds [simp]: "filter writable_bind (network_mounts n) = []"
  by (cases n) (simp_all add: network_mounts_def)

lemma audio_binds [simp]: "filter writable_bind (audio_mounts rt b) = []"
  by (simp add: audio_mounts_def)

lemma bus_binds [simp]: "filter writable_bind (bus_mounts h mode) = []"
proof (cases "env_session_bus h")
  case None
  then show ?thesis by (simp only: bus_mounts_def option.case if_cancel filter.simps)
next
  case (Some src)
  have "filter writable_bind (host_bus_mounts rt src) = []" for rt
    unfolding host_bus_mounts_def by simp
  then show ?thesis using Some by (simp only: bus_mounts_def option.case filter.simps simp_thms split: if_split)
qed

lemma handler_binds [simp]: "filter writable_bind (handler_mounts h urls xw) = []"
  by (simp add: handler_mounts_def)

lemma x11_binds [simp]: "filter writable_bind (x11_mounts xw) = []"
  by (simp add: x11_mounts_def)

lemma plan_binds:
  assumes "wl = [] \<or> (\<exists>sock f. wl = [Bind sock (path_join (env_runtime_dir h) [Normal f]) True True])"
  shows "filter writable_bind (plan_mounts (build_plan i u apps dflt h wl)) =
    filter writable_bind (home_mounts (env_home h) (home_of u) @ sorted_shares (mount u))"
proof -
  have "filter writable_bind wl = []" using assms by (auto simp: writable_bind_def)
  then show ?thesis by (simp add: build_plan_def Let_def)
qed

lemma home_writable:
  assumes "Bind src d False opt \<in> set (home_mounts home hm)"
  shows "\<exists>q c. hm = Some (Home_Path q c) \<and> src = path_of q"
proof (cases hm)
  case (Some x)
  with assms show ?thesis by (cases x) (auto simp: home_mounts_def split: if_splits)
qed (use assms in \<open>simp add: home_mounts_def\<close>)

section \<open>Properties\<close>

text \<open>
  C8. The plan lets a sandbox write only what its config declares writable: the source of
  every bind that is not read-only is the path home or the source of a read-write mount, one
  of the paths \<open>Spec::writable\<close> lists (and configs there are refused). Everything psbox binds
  for itself (the system, sockets, the bus, its own executable) is read-only.
\<close>

theorem build_writable:
  assumes "build i s h = Inr p" and "Bind src d False opt \<in> set (plan_mounts p)"
  shows "src \<in> path_of ` set (writable s)"
proof -
  from assms(1) obtain u apps dflt wl where u: "resolve_task i s = Inr (u, apps, dflt)"
    and p: "p = build_plan i u apps dflt h wl"
    and wl: "wl = [] \<or> (\<exists>sock f. wl = [Bind sock (path_join (env_runtime_dir h) [Normal f]) True True])"
    by (rule build_cases)
  have "Bind src d False opt \<in> set (filter writable_bind (plan_mounts p))"
    using assms(2) by (simp add: writable_bind_def)
  then have "Bind src d False opt \<in> set (home_mounts (env_home h) (home_of u)) \<or>
      Bind src d False opt \<in> set (sorted_shares (mount u))"
    unfolding p plan_binds [OF wl] by auto
  then have "src \<in> path_of ` set (spec_writable u)"
  proof
    assume "Bind src d False opt \<in> set (home_mounts (env_home h) (home_of u))"
    then show ?thesis using home_writable by (fastforce simp: spec_writable_def)
  next
    assume "Bind src d False opt \<in> set (sorted_shares (mount u))"
    then obtain e where "e \<in> set (mount u)" "mode_of_mount (snd e) = Read_Write"
      "map_option path_of (mount_source (snd e)) = Some src" using share_writable by blast
    then show ?thesis by (force simp: spec_writable_def map_filter_set)
  qed
  then show ?thesis using spec_writable_task [OF u] by blast
qed

definition example_host :: host_env where
  "example_host = \<lparr> env_uid = 1000, env_gid = 1000, env_user = ''u'', env_home = path_of ''/home/u'',
     env_runtime_dir = path_of ''/run/user/1000'',
     env_wayland_socket = Some (path_of ''/run/user/1000/wayland-0''), env_session_bus = None,
     env_config_dir = path_of ''/home/u/.config/psbox'', env_root = path_of ''/home/u/Sandbox'',
     env_pasta = True, env_exe = path_of ''/usr/bin/psbox'' \<rparr>"

definition default_spec :: spec where
  "default_spec = \<lparr> idle_timeout = 60, allow_32bit = False,
     home_of = Some (Home_Path ''/s/app'' Cache_Temporary), devices = [Gpu, Audio],
     dbus_of = Some \<lparr> mode_of_dbus = Dbus_Portal, talk = [] \<rparr>, network_of = Net_Automatic,
     display = True, xwayland = None,
     links = \<lparr> link_http = Open_Host, link_https = Open_Host, link_mailto = Open_Host \<rparr>,
     environment = [(''PATH'', ''/opt/bin'')], mount = [], app = [], tasks = [] \<rparr>"

lemma default_built:
  "\<exists>p. build (Instance ''app'' None) default_spec example_host = Inr p \<and>
     Bind (path_of ''/s/app'') (path_of ''/home/u'') False False \<in> set (plan_mounts p)"
proof -
  have f: "file_name (path_of ''/run/user/1000/wayland-0'') = Some ''wayland-0''" by code_simp
  show ?thesis
    by (simp add: build_def resolve_task_def Let_def default_spec_def wayland_of_def wayland_mounts_def
        example_host_def f build_plan_def home_mounts_def)
qed

theorem build_writable_witness: "path_of ''/s/app'' \<in> path_of ` set (writable default_spec)"
  using default_built build_writable by blast

lemma sorted_not_under:
  "i < j \<Longrightarrow> j < length (sorted_shares ms) \<Longrightarrow> \<not> under (sorted_shares ms ! i) (sorted_shares ms ! j)"
proof
  assume ij: "i < j" "j < length (sorted_shares ms)"
    and u: "under (sorted_shares ms ! i) (sorted_shares ms ! j)"
  have "sorted (map (\<lambda>m. length (dst m)) (sorted_shares ms))" by (simp add: sorted_shares_def)
  then have "length (dst (sorted_shares ms ! i)) \<le> length (dst (sorted_shares ms ! j))"
    using ij sorted_nth_mono [of "map (\<lambda>m. length (dst m)) (sorted_shares ms)" i j] by simp
  moreover have "length (dst (sorted_shares ms ! j)) < length (dst (sorted_shares ms ! i))"
    using u unfolding under_def by (auto simp: prefix_def)
  ultimately show False by simp
qed

lemma dst_share_of: "dst (share_of m) = path_of (mount_destination m)"
  by (auto simp: share_of_def Let_def split: mount_mode.split option.split)

text \<open>
  The order of the mounts: the mounts psbox makes for itself come first, then every share
  of the config with parents before children, then the X socket directory, so no share is hidden
  by one that contains it. No share is at \<open>/\<close> or inside \<open>/proc\<close> or \<open>/dev\<close>; one
  that asks for that is a problem of the plan instead.
\<close>

theorem build_order:
  assumes "build i s h = Inr p"
  shows "\<exists>u own xw. planned i s u \<and> plan_mounts p = own @ sorted_shares (mount u) @ x11_mounts xw \<and>
    set (sorted_shares (mount u)) =
      (\<lambda>e. share_of (snd e)) ` {e \<in> set (mount u). \<not> reserved_dst (path_of (mount_destination (snd e)))} \<and>
    (\<forall>a b. a < b \<longrightarrow> b < length (sorted_shares (mount u)) \<longrightarrow>
      \<not> under (sorted_shares (mount u) ! a) (sorted_shares (mount u) ! b)) \<and>
    (\<forall>m \<in> set (sorted_shares (mount u)). \<not> reserved_dst (dst m)) \<and>
    (\<forall>e \<in> set (mount u). reserved_dst (path_of (mount_destination (snd e))) \<longrightarrow> plan_problems p \<noteq> [])"
proof -
  from assms obtain u apps dflt wl where u: "resolve_task i s = Inr (u, apps, dflt)"
    and p: "p = build_plan i u apps dflt h wl"
    by (rule build_cases)
  have "planned i s u" using u by (auto simp: planned_def)
  moreover obtain own xw where "plan_mounts p = own @ sorted_shares (mount u) @ x11_mounts xw"
    unfolding p build_plan_def Let_def plan.simps by (metis append_assoc)
  moreover have "set (sorted_shares (mount u)) =
      (\<lambda>e. share_of (snd e)) ` {e \<in> set (mount u). \<not> reserved_dst (path_of (mount_destination (snd e)))}"
    by (simp add: sorted_shares_def shares_of_def)
  moreover have "\<forall>m \<in> set (sorted_shares (mount u)). \<not> reserved_dst (dst m)"
    by (auto simp: sorted_shares_def shares_of_def dst_share_of)
  moreover have "plan_problems p \<noteq> []"
    if "e \<in> set (mount u)" "reserved_dst (path_of (mount_destination (snd e)))" for e
  proof -
    have "share_problems (is_unnamed i) (mount u) \<noteq> []"
      using that by (auto simp: share_problems_def filter_empty_conv)
    then show ?thesis by (simp add: p build_plan_def Let_def)
  qed
  ultimately show ?thesis using sorted_not_under by blast
qed

theorem build_order_witness:
  "\<exists>(p :: plan) u own xw. plan_mounts p = own @ sorted_shares (mount u) @ x11_mounts xw \<and>
     planned (Instance ''app'' None) default_spec u"
proof -
  obtain p where p: "build (Instance ''app'' None) default_spec example_host = Inr p"
    using default_built by blast
  from build_order [OF p] show ?thesis
  proof (elim exE conjE)
    fix u own xw
    assume "planned (Instance ''app'' None) default_spec u"
      "plan_mounts p = own @ sorted_shares (mount u) @ x11_mounts xw"
    then show ?thesis by blast
  qed
qed

text \<open>
  Networking follows the setting: a sandbox reaches the host network only when its config
  says so or, on the automatic setting, when pasta is missing, which the plan marks as a
  fallback; a config that asks for isolation without pasta is a problem, never the host
  network; and the host's resolver is shared with the host network only.
\<close>

theorem build_network:
  assumes "build i s h = Inr p" and "planned i s u"
  shows "(plan_network p = Host_Network \<longleftrightarrow>
      network_of u = Net_Host \<or> network_of u = Net_Automatic \<and> \<not> env_pasta h) \<and>
    (plan_network_fallback p \<longleftrightarrow> network_of u = Net_Automatic \<and> \<not> env_pasta h) \<and>
    (network_of u = Net_Isolated \<and> \<not> env_pasta h \<longrightarrow> plan_problems p \<noteq> []) \<and>
    (network_of u = Net_Loopback \<longrightarrow> plan_network p = Loopback_Network)"
proof -
  from assms(1) obtain u' apps dflt wl where u: "resolve_task i s = Inr (u', apps, dflt)"
    and p: "p = build_plan i u' apps dflt h wl"
    by (rule build_cases)
  from assms(2) u have "u' = u" by (auto simp: planned_def)
  then show ?thesis
    by (cases "network_of u") (simp_all add: p build_plan_def Let_def resolve_network_def)
qed

theorem build_network_witness:
  "\<exists>p. build (Instance ''app'' None) default_spec example_host = Inr p \<and> plan_network p \<noteq> Host_Network"
proof -
  obtain p where p: "build (Instance ''app'' None) default_spec example_host = Inr p"
    using default_built by blast
  obtain u where u: "planned (Instance ''app'' None) default_spec u" "network_of u = Net_Automatic"
    by (auto simp: planned_def resolve_task_def Let_def default_spec_def)
  have "env_pasta example_host" by (simp add: example_host_def)
  with build_network [OF p u(1)] u(2) p show ?thesis by auto
qed

lemma env_extend_get:
  "bt_ok env \<Longrightarrow> bt_get (env_extend env es) k =
     (case map_of (rev es) k of Some v \<Rightarrow> Some v | None \<Rightarrow> bt_get env k)"
  unfolding env_extend_def
  by (induction es arbitrary: env) (auto simp: bt_get_insert map_add_def split: option.split)

lemma map_of_rev_append: "map_of (rev (xs @ ys)) k = (case map_of (rev ys) k of Some v \<Rightarrow> Some v | None \<Rightarrow> map_of (rev xs) k)"
  by (simp add: map_add_def)

lemma map_of_rev_bt:
  assumes "bt_ok m"
  shows "map_of (rev m) = map_of m"
proof -
  have "distinct (map fst m)" using assms by (rule bt_ok_distinct)
  then show ?thesis by (subst map_of_inject_set) (simp_all add: rev_map [symmetric])
qed

text \<open>
  C25. The environment of a sandbox: what its config sets wins over everything psbox sets;
  otherwise \<open>HOME\<close>, \<open>PATH\<close> and \<open>XDG_RUNTIME_DIR\<close> are psbox's own, and the session
  bus address names the sandbox's private bus exactly in portal mode.
\<close>

theorem build_environment:
  assumes "build i s h = Inr p" and "planned i s u" and "bt_ok (environment u)"
  shows "(\<forall>k v. bt_get (environment u) k = Some v \<longrightarrow> bt_get (plan_env p) k = Some v) \<and>
    (bt_get (environment u) ''HOME'' = None \<longrightarrow> bt_get (plan_env p) ''HOME'' = Some (show_path (env_home h))) \<and>
    (bt_get (environment u) ''PATH'' = None \<longrightarrow> bt_get (plan_env p) ''PATH'' = Some DEFAULT_PATH) \<and>
    (bt_get (environment u) ''DBUS_SESSION_BUS_ADDRESS'' = None \<longrightarrow> plan_dbus p = Some Dbus_Portal \<longrightarrow>
       (\<exists>b. plan_bus p = Some b \<and> bt_get (plan_env p) ''DBUS_SESSION_BUS_ADDRESS'' = Some (bus_address b)))"
proof -
  from assms(1) obtain u' apps dflt wl where u: "resolve_task i s = Inr (u', apps, dflt)"
    and p: "p = build_plan i u' apps dflt h wl"
    by (rule build_cases)
  from assms(2) u have "u' = u" by (auto simp: planned_def)
  let ?mode = "map_option mode_of_dbus (dbus_of u)"
  let ?own = "own_env h ?mode (open_urls_of u)"
  have env: "bt_get (plan_env p) k = (case bt_get (environment u) k of Some v \<Rightarrow> Some v
      | None \<Rightarrow> (case map_of (rev ?own) k of Some v \<Rightarrow> Some v
          | None \<Rightarrow> map_of (rev (wayland_env (wayland_of h u) @ host_bus_env h ?mode)) k))" for k
    by (simp add: p build_plan_def Let_def \<open>u' = u\<close> env_extend_get map_of_rev_append
        map_of_rev_bt [OF assms(3)] map_add_def split: option.split)
  have own: "map_of (rev ?own) ''HOME'' = Some (show_path (env_home h))"
    "map_of (rev ?own) ''PATH'' = Some DEFAULT_PATH"
    "?mode = Some Dbus_Portal \<Longrightarrow> map_of (rev ?own) ''DBUS_SESSION_BUS_ADDRESS'' =
       Some (bus_address (bus_paths_new (env_runtime_dir h)))"
    by (simp_all add: own_env_def)
  have bus: "plan_dbus p = ?mode" "?mode = Some Dbus_Portal \<Longrightarrow>
      plan_bus p = Some (bus_paths_new (env_runtime_dir h))"
    by (simp_all add: p build_plan_def Let_def \<open>u' = u\<close>)
  show ?thesis using own bus by (auto simp: env)
qed

theorem build_environment_witness:
  "\<exists>p. build (Instance ''app'' None) default_spec example_host = Inr p \<and>
     bt_get (plan_env p) ''PATH'' = Some ''/opt/bin''"
proof -
  obtain p where p: "build (Instance ''app'' None) default_spec example_host = Inr p"
    using default_built by blast
  obtain u where u: "planned (Instance ''app'' None) default_spec u"
    "environment u = [(''PATH'', ''/opt/bin'')]"
    by (auto simp: planned_def resolve_task_def Let_def default_spec_def)
  have "bt_ok (environment u)" by (simp add: u)
  with build_environment [OF p u(1)] u(2) p show ?thesis by auto
qed

end
