(* ===== verification/Plan_Host.thy ===== *)
theory Plan_Host
  imports Plan_Build
begin

text \<open>
  What a plan needs of the host (\<open>src/src/plan.rs\<close>): the guard beneath which a source is
  opened without following symlinks, broken links, the directories created on the way, and the
  problems reported before a start. The file system, the Landlock version and the installed
  programs are parameters: the answers of \<open>metadata\<close>, \<open>symlink_metadata\<close> and
  \<open>read_link\<close> for each path.
\<close>

datatype stat = Exists bool | Absent | Link_Loop | Stat_Failed

record host_fs =
  fs_stat :: "path \<Rightarrow> stat"
  fs_is_symlink :: "path \<Rightarrow> bool option"
  fs_read_link :: "path \<Rightarrow> path option"

definition missing :: "host_fs \<Rightarrow> path \<Rightarrow> bool" where
  "missing fs p \<longleftrightarrow> fs_stat fs p = Absent"

definition broken_link :: "host_fs \<Rightarrow> path \<Rightarrow> (path \<times> bool) option" where
  "broken_link fs p = (case fs_read_link fs p of
      None \<Rightarrow> None
    | Some link \<Rightarrow>
        (let target = lexical (case parent_of p of Some q \<Rightarrow> path_join q link | None \<Rightarrow> link)
         in case fs_stat fs p of
           Exists _ \<Rightarrow> None
         | Link_Loop \<Rightarrow> Some (target, True)
         | Absent \<Rightarrow> Some (target, False)
         | Stat_Failed \<Rightarrow> None))"

section \<open>Guards\<close>

definition root_entry :: "plan \<Rightarrow> path \<Rightarrow> path option" where
  "root_entry p q = Option.bind (strip_path q (plan_sandbox_root p)) (\<lambda>rest.
     case rest of [] \<Rightarrow> None | c # _ \<Rightarrow> Some (plan_sandbox_root p @ [c]))"

definition writable_srcs :: "plan_mount list \<Rightarrow> path list" where
  "writable_srcs ms = List.map_filter (\<lambda>m. case m of
      Bind src _ ro _ \<Rightarrow> if ro then None else Some src
    | _ \<Rightarrow> None) ms"

definition guards :: "plan \<Rightarrow> path \<Rightarrow> path list" where
  "guards p q = filter (\<lambda>g. path_starts_with q g \<and> q \<noteq> g)
     (writable_srcs (plan_mounts p) @ (case root_entry p q of Some g \<Rightarrow> [g] | None \<Rightarrow> []))"

definition source_guard :: "plan \<Rightarrow> path \<Rightarrow> path option" where
  "source_guard p q = min_by length (guards p q)"

text \<open>The first symlink in a path beneath its guard; the walk ends where nothing is.\<close>

fun walk_links :: "host_fs \<Rightarrow> path \<Rightarrow> path \<Rightarrow> path option" where
  "walk_links fs place [] = None"
| "walk_links fs place (c # cs) =
     (case fs_is_symlink fs (place @ [c]) of
       Some True \<Rightarrow> Some (place @ [c])
     | Some False \<Rightarrow> walk_links fs (place @ [c]) cs
     | None \<Rightarrow> None)"

definition planted_link :: "plan \<Rightarrow> host_fs \<Rightarrow> path \<Rightarrow> (path \<times> path) option" where
  "planted_link p fs q = Option.bind (source_guard p q) (\<lambda>g.
     Option.bind (strip_path q g) (\<lambda>rest.
       map_option (\<lambda>l. (l, g)) (walk_links fs g rest)))"

section \<open>Creating missing directories\<close>

text \<open>\<open>mk\<close> is \<open>create_dir_guarded\<close>: what it leaves of the host, or its error.\<close>

fun create_dirs ::
  "('s \<Rightarrow> host_fs) \<Rightarrow> ('s \<Rightarrow> path \<Rightarrow> path option \<Rightarrow> string + 's) \<Rightarrow> plan \<Rightarrow> bool \<Rightarrow>
     share_source list \<Rightarrow> 's \<Rightarrow> string + (path list \<times> 's)" where
  "create_dirs fs_of mk p anywhere [] st = Inr ([], st)"
| "create_dirs fs_of mk p anywhere (s # ss) st =
     (if source_dir s \<and> missing (fs_of st) (source_path s) \<and> broken_link (fs_of st) (source_path s) = None
         \<and> (anywhere \<or> path_starts_with (source_path s) (plan_sandbox_root p))
      then and_then (mk st (source_path s) (source_guard p (source_path s)))
        (\<lambda>st'. and_then (create_dirs fs_of mk p anywhere ss st')
          (\<lambda>(made, st''). Inr (source_path s # made, st'')))
      else create_dirs fs_of mk p anywhere ss st)"

section \<open>Problems before a start\<close>

definition REQUIRED_ABI :: nat where "REQUIRED_ABI = 6"

record host_features =
  landlock_abi :: "string + nat"
  installed :: "string \<Rightarrow> bool"
  ui_home :: "path option"

definition landlock_problems :: "host_features \<Rightarrow> plan_problem list" where
  "landlock_problems hf = (case landlock_abi hf of
      Inr abi \<Rightarrow> if REQUIRED_ABI \<le> abi then []
        else [System_Problem (''Landlock ABI '' @ dec abi @ '' (psbox needs '' @ dec REQUIRED_ABI @ '')'')]
    | Inl e \<Rightarrow> [System_Problem (''Landlock is unavailable ('' @ e @ '')'')])"

definition xwayland_problems :: "bool \<Rightarrow> host_features \<Rightarrow> plan \<Rightarrow> plan_problem list" where
  "xwayland_problems unnamed hf p = (case plan_xwayland p of
      None \<Rightarrow> []
    | Some mode \<Rightarrow> map (\<lambda>prog. Setting_Problem
          (if unnamed then ''-c xwayland.mode='' @ xwayland_mode_name mode
           else ''xwayland.mode: '' @ squoted (xwayland_mode_name mode))
          prog ''not installed'')
        (filter (\<lambda>prog. \<not> installed hf prog) [''xwayland-satellite'', ''Xwayland'']))"

definition daemon_problems :: "bool \<Rightarrow> host_features \<Rightarrow> plan \<Rightarrow> plan_problem list" where
  "daemon_problems unnamed hf p =
     (if plan_bus p \<noteq> None \<and> \<not> installed hf ''dbus-daemon'' then
        [Setting_Problem (if unnamed then ''-c dbus.mode=portal'' else ''dbus.mode: '' @ squoted ''portal'')
           ''dbus-daemon'' ''not installed'']
      else [])"

text \<open>A path for the user, with \<open>~\<close> for the home directory the process was given.\<close>

definition tilde :: "path option \<Rightarrow> path \<Rightarrow> string" where
  "tilde home p = (case Option.bind home (strip_path p) of
      Some rest \<Rightarrow> if rest = [] then ''~'' else ''~/'' @ show_path rest
    | None \<Rightarrow> show_path p)"

definition source_problem ::
  "bool \<Rightarrow> path option \<Rightarrow> plan \<Rightarrow> host_fs \<Rightarrow> share_source \<Rightarrow> plan_problem option" where
  "source_problem unnamed home p fs s = (case planted_link p fs (source_path s) of
      Some (link, guard) \<Rightarrow> Some (Config_Problem (entry_label (source_entry s) unnamed)
        (tilde home link @ '' is a symlink inside '' @ tilde home guard @
         '', which the sandbox can write to; psbox doesn'' @ [CHR 0x27] @ ''t follow it''))
    | None \<Rightarrow> (case broken_link fs (source_path s) of
        Some (target, looped) \<Rightarrow> Some (Broken_Link (source_path s) target (source_entry s) looped)
      | None \<Rightarrow>
          if source_dir s \<and> fs_stat fs (source_path s) = Exists False then
            Some (Config_Problem (entry_label (source_entry s) unnamed)
              (tilde home (source_path s) @ '' isn'' @ [CHR 0x27] @ ''t a directory''))
          else if source_dir s \<and> path_starts_with (source_path s) (plan_sandbox_root p) then None
          else if missing fs (source_path s) then
            Some (Missing (source_path s) (source_entry s) (source_dir s))
          else None))"

definition is_mounted :: "host_fs \<Rightarrow> plan_mount \<Rightarrow> bool" where
  "is_mounted fs m = (case m of
      Bind src _ _ optional \<Rightarrow> \<not> (optional \<and> missing fs src)
    | Overlay_Mount lower _ optional \<Rightarrow> \<not> (optional \<and> missing fs lower)
    | Tmpfs _ _ \<Rightarrow> True | Proc _ \<Rightarrow> True | Dev _ \<Rightarrow> True
    | _ \<Rightarrow> False)"

text \<open>
  A mount point that does not exist is created inside whatever is mounted above it, which fails
  when that is a read-only bind.
\<close>

definition mount_above :: "host_fs \<Rightarrow> plan_mount list \<Rightarrow> path \<Rightarrow> plan_mount option" where
  "mount_above fs earlier d =
     max_by (\<lambda>e. length (dst e)) (filter (\<lambda>e. is_mounted fs e \<and> path_starts_with d (dst e)) earlier)"

definition point_problem :: "host_fs \<Rightarrow> plan_mount list \<Rightarrow> plan_mount \<Rightarrow> plan_problem option" where
  "point_problem fs earlier m =
     (if \<not> is_mounted fs m \<or> (case m of Proc _ \<Rightarrow> True | Dev _ \<Rightarrow> True | _ \<Rightarrow> False)
         \<or> list_ex (\<lambda>e. dst e = dst m) earlier
      then None
      else case mount_above fs earlier (dst m) of
        Some (Bind src place ro _) \<Rightarrow>
          if ro then
            (let host = path_join src (drop (length place) (dst m))
             in if missing fs host then Some (Mount_Point (dst m) place host) else None)
          else None
      | _ \<Rightarrow> None)"

fun point_problems :: "host_fs \<Rightarrow> plan_mount list \<Rightarrow> plan_mount list \<Rightarrow> plan_problem list" where
  "point_problems fs earlier [] = []"
| "point_problems fs earlier (m # ms) =
     (case point_problem fs earlier m of Some x \<Rightarrow> [x] | None \<Rightarrow> [])
     @ point_problems fs (earlier @ [m]) ms"

definition host_problems :: "plan \<Rightarrow> identity \<Rightarrow> host_features \<Rightarrow> host_fs \<Rightarrow> plan_problem list" where
  "host_problems p i hf fs =
     landlock_problems hf @ xwayland_problems (is_unnamed i) hf p @ daemon_problems (is_unnamed i) hf p
     @ List.map_filter (source_problem (is_unnamed i) (ui_home hf) p fs) (plan_sources p)
     @ point_problems fs [] (plan_mounts p)"

record report =
  report_who :: string
  report_unnamed :: bool
  report_root :: path
  report_create_dirs :: bool
  report_problems :: "plan_problem list"
  report_notes :: "(string \<times> string) list"

definition preflight ::
  "plan \<Rightarrow> identity \<Rightarrow> bool \<Rightarrow> host_features \<Rightarrow> host_fs \<Rightarrow> report + unit" where
  "preflight p i create hf fs =
     (let problems = plan_problems p @ host_problems p i hf fs
      in if problems = [] then Inr ()
         else Inl \<lparr> report_who = (if is_unnamed i then ''the sandbox'' else describe i),
           report_unnamed = is_unnamed i, report_root = plan_sandbox_root p,
           report_create_dirs = create, report_problems = problems,
           report_notes = (if plan_network_fallback p
             then [(''uses the host network'', ''pasta is not installed'')] else []) \<rparr>)"

section \<open>Guards are outermost\<close>

lemma writable_srcs_iff:
  "src \<in> set (writable_srcs ms) \<longleftrightarrow> (\<exists>d opt. Bind src d False opt \<in> set ms)"
proof -
  have "(case m of Bind src _ ro _ \<Rightarrow> if ro then None else Some src | _ \<Rightarrow> None) = Some src \<longleftrightarrow>
      (\<exists>d opt. m = Bind src d False opt)" for m
    by (cases m) auto
  then show ?thesis unfolding writable_srcs_def map_filter_set by (simp only:) blast
qed

lemma guards_iff:
  "g \<in> set (guards p q) \<longleftrightarrow> prefix g q \<and> q \<noteq> g \<and>
     (g \<in> set (writable_srcs (plan_mounts p)) \<or> root_entry p q = Some g)"
  by (auto simp: guards_def split: option.splits)

lemma source_guard_Some:
  assumes "source_guard p q = Some g"
  shows "prefix g q" and "q \<noteq> g"
    and "g \<in> set (writable_srcs (plan_mounts p)) \<or> root_entry p q = Some g"
    and "prefix w q \<and> q \<noteq> w \<and> (w \<in> set (writable_srcs (plan_mounts p)) \<or> root_entry p q = Some w) \<Longrightarrow> prefix g w"
proof -
  from assms have g: "g \<in> set (guards p q)" and least: "\<forall>w \<in> set (guards p q). length g \<le> length w"
    using min_by_Some [of length "guards p q" g] by (simp_all add: source_guard_def)
  then show "prefix g q" "q \<noteq> g" "g \<in> set (writable_srcs (plan_mounts p)) \<or> root_entry p q = Some g"
    by (simp_all add: guards_iff)
  assume w: "prefix w q \<and> q \<noteq> w \<and> (w \<in> set (writable_srcs (plan_mounts p)) \<or> root_entry p q = Some w)"
  then have "w \<in> set (guards p q)" by (simp add: guards_iff)
  with least w \<open>prefix g q\<close> show "prefix g w" using prefix_length_prefix [of g q w] by simp
qed


section \<open>A clean preflight\<close>

lemma walk_links_None:
  assumes "walk_links fs place cs = None"
    and "k < length cs" and "\<forall>j \<le> k. fs_is_symlink fs (place @ take (Suc j) cs) \<noteq> None"
  shows "fs_is_symlink fs (place @ take (Suc k) cs) = Some False"
  using assms
proof (induction cs arbitrary: place k)
  case (Cons c cs)
  have c: "fs_is_symlink fs (place @ [c]) = Some False"
    using Cons.prems(1) Cons.prems(3)[rule_format, of 0] by (auto split: option.splits bool.splits)
  show ?case
  proof (cases k)
    case 0
    with c show ?thesis by simp
  next
    case (Suc l)
    have "fs_is_symlink fs ((place @ [c]) @ take (Suc l) cs) = Some False"
    proof (rule Cons.IH)
      show "walk_links fs (place @ [c]) cs = None" using Cons.prems(1) c by simp
      show "l < length cs" using Cons.prems(2) Suc by simp
      show "\<forall>j \<le> l. fs_is_symlink fs ((place @ [c]) @ take (Suc j) cs) \<noteq> None"
        using Cons.prems(3) Suc by (metis Suc_le_mono append_Cons append_Nil append_assoc take_Suc_Cons)
    qed
    with Suc show ?thesis by simp
  qed
qed simp

lemma planted_link_None:
  assumes "planted_link p fs q = None" and "source_guard p q = Some g"
  shows "walk_links fs g (drop (length g) q) = None"
  using assms source_guard_Some(1) [OF assms(2)] by (simp add: planted_link_def strip_path_def)

text \<open>What is in a writable directory on the way to a source, and exists, is no symlink.\<close>

lemma no_planted_link:
  assumes "planted_link p fs q = None" and w: "prefix w q" "q \<noteq> w"
    "w \<in> set (writable_srcs (plan_mounts p)) \<or> root_entry p q = Some w"
    and x: "prefix w x" "w \<noteq> x" "prefix x q" and there: "\<forall>y. y \<noteq> [] \<and> prefix y x \<longrightarrow> fs_is_symlink fs y \<noteq> None"
  shows "fs_is_symlink fs x = Some False"
proof -
  have "w \<in> set (guards p q)" using w by (auto simp: guards_iff)
  then obtain g where g: "source_guard p q = Some g" by (cases "source_guard p q") (auto simp: source_guard_def)
  note G = source_guard_Some [OF g]
  have gw: "prefix g w" using G(4) w by blast
  with x have gx: "prefix g x" "g \<noteq> x" by (auto simp: prefix_def)
  from G(1) obtain rest where q: "q = g @ rest" by (auto simp: prefix_def)
  from gx(1) obtain xs where xs: "x = g @ xs" by (auto simp: prefix_def)
  with gx(2) obtain k where k: "length xs = Suc k" by (cases xs) auto
  from x(3) q xs have "prefix xs rest" by simp
  with k have take: "xs = take (Suc k) rest" "k < length rest" by (auto simp: prefix_def)
  have "\<forall>j \<le> k. fs_is_symlink fs (g @ take (Suc j) rest) \<noteq> None"
  proof (intro allI impI)
    fix j assume "j \<le> k"
    then have "prefix (g @ take (Suc j) rest) x" using xs take(1) by (simp add: take_is_prefix prefix_def) (metis append_take_drop_id min.absorb1 Suc_le_mono take_take)
    moreover have "g @ take (Suc j) rest \<noteq> []" using take(2) by (cases rest) auto
    ultimately show "fs_is_symlink fs (g @ take (Suc j) rest) \<noteq> None" using there by blast
  qed
  moreover have "walk_links fs g rest = None" using planted_link_None [OF assms(1) g] q by simp
  ultimately have "fs_is_symlink fs (g @ take (Suc k) rest) = Some False"
    using walk_links_None take(2) by blast
  with xs take(1) show ?thesis by simp
qed

text \<open>Every mount point is there where it cannot be made.\<close>

lemma point_problems_None:
  "point_problems fs earlier ms = [] \<Longrightarrow> i < length ms \<Longrightarrow> point_problem fs (earlier @ take i ms) (ms ! i) = None"
proof (induction ms arbitrary: earlier i)
  case (Cons m ms)
  then show ?case using Cons.IH [of "earlier @ [m]"] by (cases i) (auto split: option.splits)
qed simp

lemma map_filter_Nil: "List.map_filter f xs = [] \<longleftrightarrow> (\<forall>x \<in> set xs. f x = None)"
  by (induction xs) (auto simp: List.map_filter_simps split: option.split)

lemma preflight_ok:
  "preflight p i create hf fs = Inr () \<Longrightarrow> plan_problems p = [] \<and> host_problems p i hf fs = []"
  by (simp add: preflight_def Let_def split: if_splits)


definition shared_spec :: spec where
  "shared_spec = default_spec \<lparr> mount := [(''data'', \<lparr> mount_source = Some ''/srv/data'',
     mount_destination = ''/srv/data'', mode_of_mount = Read_Write, mount_optional = False,
     mount_create = False \<rparr>)] \<rparr>"

definition plain_fs :: host_fs where
  "plain_fs = \<lparr> fs_stat = (\<lambda>_. Exists True), fs_is_symlink = (\<lambda>_. Some False), fs_read_link = (\<lambda>_. None) \<rparr>"

definition full_features :: host_features where
  "full_features = \<lparr> landlock_abi = Inr 7, installed = (\<lambda>_. True), ui_home = None \<rparr>"

definition shared_plan :: plan where
  "shared_plan = (case build (Instance ''app'' None) shared_spec example_host of Inr p \<Rightarrow> p | Inl _ \<Rightarrow> undefined)"

lemma shared_plan_sound: "preflight shared_plan (Instance ''app'' None) False full_features plain_fs = Inr ()"
  by code_simp

lemma shared_source:
  "\<lparr> source_path = path_of ''/srv/data'', source_entry = ''data'', source_dir = False \<rparr>
     \<in> set (plan_sources shared_plan)"
  by code_simp


text \<open>A share taken out of a running sandbox's config: it is detached, nothing restarts.\<close>

definition default_plan :: plan where
  "default_plan = (case build (Instance ''app'' None) default_spec example_host of Inr p \<Rightarrow> p | Inl _ \<Rightarrow> undefined)"

lemma unshare_live: "restart (diff shared_plan default_plan) = []"
  by code_simp

lemma layered_dsts: "sorted_wrt (\<lambda>d e. \<not> prefix e d) (map dst ms) \<Longrightarrow> layered other ms"
  unfolding layered_def sorted_wrt_map by (erule sorted_wrt_mono_rel [rotated]) simp

lemma default_layers: "sorted_wrt (\<lambda>d e. \<not> prefix e d) (map dst (plan_mounts default_plan))"
  by code_simp

lemma shared_layers: "sorted_wrt (\<lambda>d e. \<not> prefix e d) (map dst (plan_mounts shared_plan))"
  by code_simp

lemma unshare_layered:
  "layered (plan_mounts default_plan) (plan_mounts shared_plan)"
  "layered (plan_mounts shared_plan) (plan_mounts default_plan)"
  by (simp_all add: layered_dsts default_layers shared_layers)

theorem diff_applies_witness:
  "\<forall>p. shown_at (apply_change (diff shared_plan default_plan) (plan_mounts shared_plan)) p
     = shown_at (plan_mounts default_plan) p"
  using diff_applies [OF unshare_live unshare_layered] by simp

text \<open>A directory inside a read-write share is guarded by that share.\<close>

lemma shared_guard: "source_guard shared_plan (path_of ''/srv/data/in'') = Some (path_of ''/srv/data'')"
  by code_simp

lemma shared_writable:
  "prefix (path_of ''/srv/data'') (path_of ''/srv/data/in'') \<and> path_of ''/srv/data/in'' \<noteq> path_of ''/srv/data''
    \<and> path_of ''/srv/data'' \<in> set (writable_srcs (plan_mounts shared_plan))"
  by code_simp


end
