(* ===== verification/Seccomp.thy ===== *)
theory Seccomp
  imports Prelude
begin

text \<open>
  The seccomp deny-list (\<open>src/src/sys/seccomp.rs\<close>): the classic BPF program that psbox installs,
  built instruction by instruction as the code builds it, and the machine that runs it. The
  numbers the \<open>libc\<close> crate supplies (system call numbers, the terminal ioctls, the return
  actions) are the parameter \<open>abi\<close>. The lemmas compute what a block of checks decides, over any
  code that follows it; the properties compare the whole program with the list it stands for and
  bound its jumps.
\<close>

unbundle bit_operations_syntax

section \<open>What the libc crate supplies\<close>

datatype denied_call = Keyctl | Add_Key | Request_Key | Kexec_Load | Kexec_File_Load | Init_Module
  | Finit_Module | Delete_Module | Reboot | Swapon | Swapoff | Acct | Quotactl | Quotactl_Fd
  | Perf_Event_Open | Bpf

datatype target = X86_64 | Aarch64

record abi =
  sys_nr :: "denied_call \<Rightarrow> u32"
  sys_ioctl :: u32
  tiocsti :: u32
  tioclinux :: u32
  ret_allow :: u32
  ret_kill_process :: u32
  ret_errno :: u32
  eperm :: u32

text \<open>The numbers the code writes down itself.\<close>

definition denied_syscalls :: "denied_call list" where
  "denied_syscalls = [Keyctl, Add_Key, Request_Key, Kexec_Load, Kexec_File_Load, Init_Module,
     Finit_Module, Delete_Module, Reboot, Swapon, Swapoff, Acct, Quotactl, Quotactl_Fd,
     Perf_Event_Open, Bpf]"

definition SYS_KEXEC_FILE_LOAD :: "target \<Rightarrow> abi \<Rightarrow> u32" where
  "SYS_KEXEC_FILE_LOAD t a = (case t of X86_64 \<Rightarrow> sys_nr a Kexec_File_Load | Aarch64 \<Rightarrow> 294)"

definition denied_numbers :: "target \<Rightarrow> abi \<Rightarrow> u32 list" where
  "denied_numbers t a = map (\<lambda>c. if c = Kexec_File_Load then SYS_KEXEC_FILE_LOAD t a else sys_nr a c)
     denied_syscalls"

definition AUDIT_ARCH :: "target \<Rightarrow> u32" where
  "AUDIT_ARCH t = (case t of X86_64 \<Rightarrow> 0xC000003E | Aarch64 \<Rightarrow> 0xC00000B7)"

definition AUDIT_ARCH_I386 :: u32 where "AUDIT_ARCH_I386 = 0x40000003"

definition I386_NUMBERS :: "abi \<Rightarrow> (u32 \<times> u32) list" where
  "I386_NUMBERS a = [(sys_nr a Keyctl, 288), (sys_nr a Add_Key, 286), (sys_nr a Request_Key, 287),
     (sys_nr a Kexec_Load, 283), (sys_nr a Init_Module, 128), (sys_nr a Finit_Module, 350),
     (sys_nr a Delete_Module, 129), (sys_nr a Reboot, 88), (sys_nr a Swapon, 87),
     (sys_nr a Swapoff, 115), (sys_nr a Acct, 51), (sys_nr a Quotactl, 131),
     (sys_nr a Quotactl_Fd, 443), (sys_nr a Perf_Event_Open, 336), (sys_nr a Bpf, 357)]"

definition I386_IOCTL :: u32 where "I386_IOCTL = 54"

section \<open>The machine\<close>

text \<open>
  The instructions the program uses: an absolute load of a word of the call's data, jumps that
  compare the accumulator with a constant, and a return. \<open>jt\<close> and \<open>jf\<close> count the instructions
  to skip, in a byte.
\<close>

datatype sock_filter = Load u32 | Jeq u32 u8 u8 | Jge u32 u8 u8 | Ret u32

record seccomp_data =
  data_nr :: u32
  data_arch :: u32
  data_arg1 :: u64

definition OFFSET_NR :: u32 where "OFFSET_NR = 0"
definition OFFSET_ARCH :: u32 where "OFFSET_ARCH = 4"
definition OFFSET_ARG1_LO :: u32 where "OFFSET_ARG1_LO = 16 + 8"

definition load_word :: "seccomp_data \<Rightarrow> u32 \<Rightarrow> u32 option" where
  "load_word d k =
     (if k = OFFSET_NR then Some (data_nr d)
      else if k = OFFSET_ARCH then Some (data_arch d)
      else if k = OFFSET_ARG1_LO then Some (ucast (data_arg1 d)) else None)"

text \<open>Running off the end or loading from elsewhere is no result.\<close>

function run :: "seccomp_data \<Rightarrow> u32 \<Rightarrow> sock_filter list \<Rightarrow> u32 option" where
  "run d acc [] = None"
| "run d acc (Load k # p) = (case load_word d k of None \<Rightarrow> None | Some w \<Rightarrow> run d w p)"
| "run d acc (Jeq k jt jf # p) = run d acc (drop (unat (if acc = k then jt else jf)) p)"
| "run d acc (Jge k jt jf # p) = run d acc (drop (unat (if k \<le> acc then jt else jf)) p)"
| "run d acc (Ret k # p) = Some k"
  by pat_completeness auto
termination
  by (relation "measure (\<lambda>(_, _, p). length p)") auto

section \<open>Building the program\<close>

definition DENY :: "abi \<Rightarrow> u32" where "DENY a = ret_errno a OR eperm a"

definition checks :: "abi \<Rightarrow> u32 list \<Rightarrow> u32 \<Rightarrow> sock_filter list" where
  "checks a denied ioctl =
     concat (map (\<lambda>nr. [Jeq nr 0 1, Ret (DENY a)]) denied)
     @ [Jeq ioctl 0 5, Load OFFSET_ARG1_LO, Jeq (tiocsti a) 2 0, Jeq (tioclinux a) 1 0,
        Ret (ret_allow a), Ret (DENY a), Ret (ret_allow a)]"

definition native_block :: "target \<Rightarrow> abi \<Rightarrow> sock_filter list" where
  "native_block t a = Load OFFSET_NR
     # (case t of X86_64 \<Rightarrow> [Jge 0x40000000 0 1, Ret (DENY a)] | Aarch64 \<Rightarrow> [])
     @ checks a (denied_numbers t a) (sys_ioctl a)"

definition i386_denied :: "abi \<Rightarrow> u32 list" where
  "i386_denied a = List.map_filter (\<lambda>nr. map_option snd (find (\<lambda>e. fst e = nr) (I386_NUMBERS a)))
     (denied_numbers X86_64 a)"

definition compat_block :: "target \<Rightarrow> abi \<Rightarrow> bool \<Rightarrow> (u32 \<times> sock_filter list) option" where
  "compat_block t a allow_32bit = (case t of
      X86_64 \<Rightarrow> if allow_32bit
        then Some (AUDIT_ARCH_I386, [Load OFFSET_NR] @ checks a (i386_denied a) I386_IOCTL) else None
    | Aarch64 \<Rightarrow> None)"

text \<open>\<open>None\<close> is the panic of a native block too long to be jumped over.\<close>

definition program :: "target \<Rightarrow> abi \<Rightarrow> bool \<Rightarrow> sock_filter list option" where
  "program t a allow_32bit =
     (let native = native_block t a;
          kill = Ret (ret_kill_process a)
      in case compat_block t a allow_32bit of
           None \<Rightarrow> Some ([Load OFFSET_ARCH, Jeq (AUDIT_ARCH t) 1 0, kill] @ native)
         | Some (arch, block) \<Rightarrow>
             if 1 + length native < 256
             then Some ([Load OFFSET_ARCH, Jeq (AUDIT_ARCH t) 2 0,
                    Jeq arch (of_nat (1 + length native)) 0, kill] @ native @ block)
             else None)"

section \<open>What the blocks decide\<close>

text \<open>The decision a block of checks stands for.\<close>

definition call_verdict :: "abi \<Rightarrow> u32 list \<Rightarrow> u32 \<Rightarrow> seccomp_data \<Rightarrow> u32" where
  "call_verdict a denied ioctl d =
     (if data_nr d \<in> set denied
         \<or> data_nr d = ioctl \<and> ucast (data_arg1 d) \<in> {tiocsti a, tioclinux a}
      then DENY a else ret_allow a)"

lemma load_words [simp]:
  "load_word d OFFSET_NR = Some (data_nr d)" "load_word d OFFSET_ARCH = Some (data_arch d)"
  "load_word d OFFSET_ARG1_LO = Some (ucast (data_arg1 d))"
  by (simp_all add: load_word_def OFFSET_NR_def OFFSET_ARCH_def OFFSET_ARG1_LO_def)

lemma run_denied:
  "run d acc (concat (map (\<lambda>nr. [Jeq nr 0 1, Ret v]) denied) @ p) =
     (if acc \<in> set denied then Some v else run d acc p)"
  by (induction denied) simp_all

lemma run_checks:
  "run d (data_nr d) (checks a denied ioctl @ p) = Some (call_verdict a denied ioctl d)"
  by (auto simp: checks_def run_denied call_verdict_def)

lemma run_native:
  "run d acc (native_block t a @ p) =
     Some (if t = X86_64 \<and> 0x40000000 \<le> data_nr d then DENY a
           else call_verdict a (denied_numbers t a) (sys_ioctl a) d)"
  by (cases t) (simp_all add: native_block_def run_checks)

lemma length_checks: "length (checks a denied ioctl) = 2 * length denied + 7"
  by (induction denied) (simp_all add: checks_def)

lemma length_native: "length (native_block t a) = (case t of X86_64 \<Rightarrow> 42 | Aarch64 \<Rightarrow> 40)"
  by (simp add: native_block_def length_checks denied_numbers_def denied_syscalls_def split: target.split)

section \<open>The whole program\<close>

text \<open>
  The reference: calls of a foreign architecture kill the process, x32 calls are refused, and
  every other call is judged by the deny-list of its architecture.
\<close>

definition decision :: "target \<Rightarrow> abi \<Rightarrow> bool \<Rightarrow> seccomp_data \<Rightarrow> u32" where
  "decision t a allow_32bit d =
     (if data_arch d = AUDIT_ARCH t then
        if t = X86_64 \<and> 0x40000000 \<le> data_nr d then DENY a
        else call_verdict a (denied_numbers t a) (sys_ioctl a) d
      else if t = X86_64 \<and> allow_32bit \<and> data_arch d = AUDIT_ARCH_I386 then
        call_verdict a (i386_denied a) I386_IOCTL d
      else ret_kill_process a)"

lemma archs_differ [simp]: "AUDIT_ARCH t \<noteq> AUDIT_ARCH_I386" "AUDIT_ARCH_I386 \<noteq> AUDIT_ARCH t"
  by (cases t; simp add: AUDIT_ARCH_def AUDIT_ARCH_I386_def)+

lemma run_kill_or_native:
  "run d acc (Load OFFSET_ARCH # Jeq arch 1 0 # Ret kill # p) =
     (if data_arch d = arch then run d (data_arch d) p else Some kill)"
  by simp

lemma run_compat_checks:
  "run d acc (Load OFFSET_NR # checks a denied ioctl @ p) = Some (call_verdict a denied ioctl d)"
  by (simp add: run_checks)

lemma program_Some: "\<exists>p. program t a allow = Some p"
  by (cases t) (simp_all add: program_def Let_def compat_block_def length_native)

text \<open>
  C27. The BPF program is built without a panic, and on every system call (any
  architecture, number and argument) it runs to a return and returns what the deny-list says:
  kill for a foreign architecture, EPERM for x32 calls, for each denied number and for the two
  ioctls that inject into a terminal, whatever the upper half of their argument, and allow
  otherwise.
\<close>

theorem filter_decides:
  "\<exists>p. program t a allow_32bit = Some p \<and> (\<forall>d. run d 0 p = Some (decision t a allow_32bit d))"
proof (cases "compat_block t a allow_32bit")
  case None
  then have "\<not> (t = X86_64 \<and> allow_32bit)" by (auto simp: compat_block_def)
  then show ?thesis using run_native [where p = "[]"]
    by (auto simp: program_def None Let_def run_kill_or_native decision_def)
next
  case (Some c)
  then have t: "t = X86_64" "allow_32bit"
    by (simp_all add: compat_block_def split: target.splits if_splits)
  have "program t a allow_32bit = Some (Load OFFSET_ARCH # Jeq (AUDIT_ARCH X86_64) 2 0
      # Jeq AUDIT_ARCH_I386 (of_nat 43) 0 # Ret (ret_kill_process a)
      # native_block X86_64 a @ (Load OFFSET_NR # checks a (i386_denied a) I386_IOCTL))"
    by (simp add: program_def Let_def t compat_block_def length_native)
  moreover have "run d acc (Load OFFSET_NR # checks a (i386_denied a) I386_IOCTL) =
      Some (call_verdict a (i386_denied a) I386_IOCTL d)" for d acc
    using run_compat_checks [where p = "[]"] by simp
  ultimately show ?thesis
    by (auto simp: run_native decision_def t length_native)
qed

section \<open>Bounds\<close>

text \<open>Every jump of \<open>p\<close> lands on an instruction of \<open>p\<close>.\<close>

fun jumps_inside :: "sock_filter list \<Rightarrow> bool" where
  "jumps_inside [] = True"
| "jumps_inside (Jeq k jt jf # p) \<longleftrightarrow> unat jt < length p \<and> unat jf < length p \<and> jumps_inside p"
| "jumps_inside (Jge k jt jf # p) \<longleftrightarrow> unat jt < length p \<and> unat jf < length p \<and> jumps_inside p"
| "jumps_inside (_ # p) \<longleftrightarrow> jumps_inside p"

lemma jumps_inside_denied:
  "jumps_inside (concat (map (\<lambda>nr. [Jeq nr 0 1, Ret v]) denied) @ p) \<longleftrightarrow>
     (denied = [] \<or> p \<noteq> []) \<and> jumps_inside p"
  by (induction denied) auto

lemma jumps_inside_checks: "jumps_inside (checks a denied ioctl @ p) \<longleftrightarrow> jumps_inside p"
  by (simp add: checks_def jumps_inside_denied)

lemma jumps_inside_native: "jumps_inside (native_block t a @ p) \<longleftrightarrow> jumps_inside p"
  by (cases t) (simp_all add: native_block_def jumps_inside_checks length_checks)

lemma length_i386_denied: "length (i386_denied a) \<le> 16"
proof -
  have "length (i386_denied a) \<le> length (denied_numbers X86_64 a)"
    by (simp add: i386_denied_def List.map_filter_def)
  then show ?thesis by (simp add: denied_numbers_def denied_syscalls_def)
qed

text \<open>
  C28. The program stays within what the kernel loads: at most 4096 instructions (in fact
  no more than 100), and every jump, of at most 255 instructions, lands on an instruction of the
  program.
\<close>

theorem filter_bounds:
  "case program t a allow_32bit of Some p \<Rightarrow> length p \<le> 100 \<and> jumps_inside p | None \<Rightarrow> False"
proof (cases "compat_block t a allow_32bit")
  case None
  then show ?thesis using jumps_inside_native [of t a "[]"]
    by (simp add: program_def Let_def length_native split: target.split)
next
  case (Some c)
  then have t: "t = X86_64" and c: "c = (AUDIT_ARCH_I386, [Load OFFSET_NR] @ checks a (i386_denied a) I386_IOCTL)"
    by (auto simp: compat_block_def split: target.splits if_splits)
  have "jumps_inside (checks a (i386_denied a) I386_IOCTL)"
    using jumps_inside_checks [where p = "[]"] by simp
  then show ?thesis using length_i386_denied [of a]
    by (simp add: program_def Let_def Some [unfolded c t] t length_native length_checks
        jumps_inside_native)
qed

section \<open>The i386 list\<close>

lemma i386_numbers:
  assumes "inj (sys_nr a)"
  shows "i386_denied a = map snd (I386_NUMBERS a)"
  using assms by (simp add: i386_denied_def denied_numbers_def denied_syscalls_def I386_NUMBERS_def
      SYS_KEXEC_FILE_LOAD_def List.map_filter_simps inj_eq)

end
