(* ===== verification/Text.thy ===== *)
theory Text
  imports Prelude "HOL-Library.Sublist"
begin

text \<open>
  Operations on text beyond the prelude's, as \<open>std::str\<close> defines them: lines, white space at
  the ends, substrings, replacement and repetition. Strings are their UTF-8 bytes.
\<close>

section \<open>Lines\<close>

abbreviation nl :: char where "nl \<equiv> CHR 0x0A"

fun split_inclusive :: "string \<Rightarrow> string list" where
  "split_inclusive [] = []"
| "split_inclusive (c # cs) =
     (if c = nl then [c] # split_inclusive cs
      else case split_inclusive cs of [] \<Rightarrow> [[c]] | l # ls \<Rightarrow> (c # l) # ls)"

text \<open>A line loses its \<open>\n\<close>, and a \<open>\r\<close> before that.\<close>

definition chomp :: "string \<Rightarrow> string" where
  "chomp l = (case rev l of
      c # cs \<Rightarrow> if c = nl
        then (case cs of d # ds \<Rightarrow> if d = CHR 0x0D then rev ds else rev cs | [] \<Rightarrow> [])
        else l
    | [] \<Rightarrow> l)"

definition lines :: "string \<Rightarrow> string list" where
  "lines s = map chomp (split_inclusive s)"

lemma split_inclusive_line: "nl \<notin> set l \<Longrightarrow> split_inclusive (l @ nl # s) = (l @ [nl]) # split_inclusive s"
  by (induction l) auto

lemma split_inclusive_last: "nl \<notin> set l \<Longrightarrow> l \<noteq> [] \<Longrightarrow> split_inclusive l = [l]"
proof (induction l)
  case (Cons c cs)
  then show ?case by (cases cs) auto
qed simp

lemma chomp_line: "l = [] \<or> last l \<noteq> CHR 0x0D \<Longrightarrow> chomp (l @ [nl]) = l"
  by (cases l rule: rev_cases) (auto simp: chomp_def)

text \<open>A line without line ends of its own is read back.\<close>

definition line_ok :: "string \<Rightarrow> bool" where
  "line_ok l \<longleftrightarrow> nl \<notin> set l \<and> CHR 0x0D \<notin> set l"

lemma lines_Cons: "line_ok l \<Longrightarrow> lines (l @ nl # s) = l # lines s"
  by (auto simp: line_ok_def lines_def split_inclusive_line intro!: chomp_line dest: last_in_set)

lemma lines_Nil [simp]: "lines [] = []"
  by (simp add: lines_def)

lemma lines_concat: "list_all line_ok ls \<Longrightarrow> lines (concat (map (\<lambda>l. l @ [nl]) ls)) = ls"
  by (induction ls) (simp_all add: lines_Cons)

section \<open>White space at the ends\<close>

text \<open>The characters of the Unicode property \<open>White_Space\<close>, in UTF-8.\<close>

definition whitespace :: "string list" where
  "whitespace = map (\<lambda>n. [char_of n]) [9, 10, 11, 12, 13, 32 :: nat]
     @ map (\<lambda>n. [CHR 0xC2, char_of n]) [0x85, 0xA0 :: nat]
     @ [[CHR 0xE1, CHR 0x9A, CHR 0x80]]
     @ map (\<lambda>n. [CHR 0xE2, CHR 0x80, char_of n])
         [0x80, 0x81, 0x82, 0x83, 0x84, 0x85, 0x86, 0x87, 0x88, 0x89, 0x8A, 0xA8, 0xA9, 0xAF :: nat]
     @ [[CHR 0xE2, CHR 0x81, CHR 0x9F], [CHR 0xE3, CHR 0x80, CHR 0x80]]"

lemma whitespace_nonempty: "[] \<notin> set whitespace"
  by (simp add: whitespace_def)

function trim_start :: "string \<Rightarrow> string" where
  "trim_start s = (case find (\<lambda>w. prefix w s) whitespace of
      Some w \<Rightarrow> trim_start (drop (length w) s) | None \<Rightarrow> s)"
  by auto
termination
  by (relation "measure length")
    (auto simp: find_Some_iff prefix_def whitespace_nonempty dest: nth_mem
      intro!: Nat.diff_less gr0I intro: whitespace_nonempty [THEN notE])

function trim_end :: "string \<Rightarrow> string" where
  "trim_end s = (case find (\<lambda>w. suffix w s) whitespace of
      Some w \<Rightarrow> trim_end (take (length s - length w) s) | None \<Rightarrow> s)"
  by auto
termination
  by (relation "measure length")
    (auto simp: find_Some_iff suffix_def whitespace_nonempty dest: nth_mem
      intro!: Nat.diff_less gr0I intro: whitespace_nonempty [THEN notE])

declare trim_start.simps [simp del] trim_end.simps [simp del]

definition trim :: "string \<Rightarrow> string" where
  "trim s = trim_end (trim_start s)"

text \<open>\<open>split_whitespace\<close>: the runs between white space; the first argument is the run so far.\<close>

function split_ws :: "string \<Rightarrow> string \<Rightarrow> string list" where
  "split_ws run s =
     (if s = [] then (if run = [] then [] else [run])
      else case find (\<lambda>w. prefix w s) whitespace of
        Some w \<Rightarrow> (if run = [] then [] else [run]) @ split_ws [] (drop (length w) s)
      | None \<Rightarrow> split_ws (run @ [hd s]) (tl s))"
  by auto
termination
  by (relation "measure (\<lambda>(run, s). length s)")
    (auto simp: find_Some_iff prefix_def whitespace_nonempty dest: nth_mem
      intro!: Nat.diff_less gr0I intro: whitespace_nonempty [THEN notE])

declare split_ws.simps [simp del]

abbreviation split_whitespace :: "string \<Rightarrow> string list" where
  "split_whitespace \<equiv> split_ws []"

section \<open>Parts of strings\<close>

definition str_contains :: "string \<Rightarrow> string \<Rightarrow> bool" where
  "str_contains s t \<longleftrightarrow> list_ex (\<lambda>r. prefix t r) (suffixes s)"

definition replace_char :: "char \<Rightarrow> string \<Rightarrow> string \<Rightarrow> string" where
  "replace_char c t s = concat (map (\<lambda>x. if x = c then t else [x]) s)"

definition repeat_str :: "nat \<Rightarrow> string \<Rightarrow> string" where
  "repeat_str n s = concat (replicate n s)"

text \<open>\<open>trim_start_matches\<close> of a pattern that is not empty.\<close>

function trim_start_matches :: "string \<Rightarrow> string \<Rightarrow> string" where
  "trim_start_matches p s =
     (if p \<noteq> [] \<and> prefix p s then trim_start_matches p (drop (length p) s) else s)"
  by auto
termination
  by (relation "measure (\<lambda>(p, s). length s)") (auto simp: prefix_def)

declare trim_start_matches.simps [simp del]

lemma str_contains_iff: "str_contains s t \<longleftrightarrow> sublist t s"
  by (auto simp: str_contains_def list_ex_iff sublist_altdef')

text \<open>\<open>find_map\<close>: the first answer.\<close>

fun find_map :: "('a \<Rightarrow> 'b option) \<Rightarrow> 'a list \<Rightarrow> 'b option" where
  "find_map f [] = None"
| "find_map f (x # xs) = (case f x of Some y \<Rightarrow> Some y | None \<Rightarrow> find_map f xs)"

lemma find_map_Some: "find_map f xs = Some y \<Longrightarrow> \<exists>x \<in> set xs. f x = Some y"
  by (induction xs) (auto split: option.splits)

lemma find_map_None: "find_map f xs = None \<longleftrightarrow> (\<forall>x \<in> set xs. f x = None)"
  by (induction xs) (auto split: option.splits)

end
