(* ===== verification/Devices.thy ===== *)
theory Devices
  imports Text Numbers Paths Spec_Config
begin

text \<open>
  Host devices and their classes (\<open>src/src/devices.rs\<close>): reading the udev database and sysfs,
  deciding which classes a device belongs to, describing it, and the changes the inotify watch
  reports. The host's files are the parameter \<open>dev_fs\<close>. The lemmas show that names read from
  the host stay inside \<open>/dev\<close>, and that the links psbox makes lead to its own nodes.
\<close>

section \<open>The host's files\<close>

record dev_fs =
  dev_text :: "path \<Rightarrow> string option"
  dev_link :: "path \<Rightarrow> path option"
  dev_real :: "path \<Rightarrow> path option"
  dev_dir :: "path \<Rightarrow> string list option"

record host_paths =
  udev_data :: path
  sys_dev_char :: path

definition system_paths :: host_paths where
  "system_paths = \<lparr> udev_data = path_of ''/run/udev/data'', sys_dev_char = path_of ''/sys/dev/char'' \<rparr>"

record device =
  dev_major :: nat
  dev_minor :: nat
  subsystem :: string
  devname :: string
  dev_links :: "string list"
  dev_props :: "(string, string) btree"
  dev_tags :: "string list"
  gamepad_hid :: bool

section \<open>Names\<close>

definition major_minor :: "string \<Rightarrow> (nat \<times> nat) option" where
  "major_minor s = Option.bind (split_once (CHR '':'') s) (\<lambda>(a, b).
     Option.bind (parse_u32 a) (\<lambda>maj. map_option (\<lambda>m. (maj, m)) (parse_u32 b)))"

definition parse_db_name :: "string \<Rightarrow> (nat \<times> nat) option" where
  "parse_db_name name = Option.bind (strip_prefix ''c'' name) major_minor"

definition valid_dev_name :: "string \<Rightarrow> bool" where
  "valid_dev_name name \<longleftrightarrow> name \<noteq> [] \<and> \<not> starts_with name ''/'' \<and> \<not> starts_with name ''.psbox'' \<and>
     list_all (\<lambda>p. p \<noteq> [] \<and> p \<noteq> ''.'' \<and> p \<noteq> ''..'') (split_on (CHR ''/'') name)"

definition link_target :: "string \<Rightarrow> string \<Rightarrow> string" where
  "link_target name hidden =
     repeat_str (count_list name (CHR ''/'')) ''../'' @ ''.psbox/'' @ hidden"

definition hidden_name :: "nat \<Rightarrow> nat \<Rightarrow> string" where
  "hidden_name major minor = ''c'' @ dec major @ ''-'' @ dec minor"

definition host_node :: "device \<Rightarrow> path" where
  "host_node d = path_join (path_of ''/dev'') (path_of (devname d))"

section \<open>Reading a device\<close>

text \<open>One line of the udev database.\<close>

definition db_line :: "string \<Rightarrow> device \<times> string option \<Rightarrow> device \<times> string option" where
  "db_line l st = (case st of (d, name) \<Rightarrow>
     (case strip_prefix ''N:'' l of Some v \<Rightarrow> (d, Some v) | None \<Rightarrow>
      case strip_prefix ''S:'' l of Some v \<Rightarrow> (d\<lparr>dev_links := dev_links d @ [v]\<rparr>, name) | None \<Rightarrow>
      case strip_prefix ''G:'' l of Some v \<Rightarrow> (d\<lparr>dev_tags := dev_tags d @ [v]\<rparr>, name) | None \<Rightarrow>
      case Option.bind (strip_prefix ''E:'' l) (split_once (CHR ''='')) of
        Some (k, v) \<Rightarrow> (d\<lparr>dev_props := bt_insert (dev_props d) k v\<rparr>, name)
      | None \<Rightarrow> (d, name)))"

text \<open>The name the database gives, else the one of the device's \<open>uevent\<close>.\<close>

definition node_name :: "dev_fs \<Rightarrow> path \<Rightarrow> string option \<Rightarrow> string option" where
  "node_name fs sys name = (case name of
      Some n \<Rightarrow> Some n
    | None \<Rightarrow> Option.bind (dev_text fs (sys @ [Normal ''uevent''])) (\<lambda>t.
        find_map (strip_prefix ''DEVNAME='') (lines t)))"

definition sys_path :: "host_paths \<Rightarrow> nat \<Rightarrow> nat \<Rightarrow> path" where
  "sys_path h major minor = sys_dev_char h @ [Normal (dec major @ '':'' @ dec minor)]"

text \<open>All of a device but whether its HID device is a gamepad.\<close>

definition read_node :: "dev_fs \<Rightarrow> host_paths \<Rightarrow> nat \<Rightarrow> nat \<Rightarrow> device option" where
  "read_node fs h major minor = do {
     db \<leftarrow> dev_text fs (udev_data h @ [Normal (''c'' @ dec major @ '':'' @ dec minor)]);
     let sys = sys_path h major minor;
     sub \<leftarrow> Option.bind (dev_link fs (sys @ [Normal ''subsystem''])) file_name;
     let (d, name) = fold db_line (lines db)
       (\<lparr> dev_major = major, dev_minor = minor, subsystem = sub, devname = [], dev_links = [],
          dev_props = [], dev_tags = [], gamepad_hid = False \<rparr>, None);
     n \<leftarrow> node_name fs sys name;
     if valid_dev_name n
       then Some (d\<lparr>devname := n, dev_links := filter valid_dev_name (dev_links d)\<rparr>) else None
   }"

section \<open>Classes\<close>

definition dev_prop :: "device \<Rightarrow> string \<Rightarrow> string option" where
  "dev_prop d k = bt_get (dev_props d) k"

definition usb_id :: "device \<Rightarrow> string \<Rightarrow> u16 option" where
  "usb_id d k = map_option of_nat (Option.bind (dev_prop d k) parse_u16_hex)"

definition matches :: "device \<Rightarrow> device_class \<Rightarrow> bool" where
  "matches d c = (case c of
      Gpu \<Rightarrow> subsystem d = ''drm'' \<and> starts_with (devname d) ''dri/renderD''
    | Camera \<Rightarrow> subsystem d = ''video4linux'' \<and>
        (case dev_prop d ''ID_V4L_CAPABILITIES'' of Some c \<Rightarrow> str_contains c '':capture:'' | None \<Rightarrow> False)
    | Gamepad \<Rightarrow>
        (subsystem d = ''input'' \<and> starts_with (devname d) ''input/'' \<and>
         dev_prop d ''ID_INPUT_JOYSTICK'' = Some ''1'' \<and> dev_prop d ''ID_INPUT_KEYBOARD'' \<noteq> Some ''1'' \<and>
         ''power-switch'' \<notin> set (dev_tags d)) \<or> gamepad_hid d
    | Alsa \<Rightarrow> subsystem d = ''sound'' \<and> starts_with (devname d) ''snd/''
    | Security_Key \<Rightarrow> subsystem d = ''hidraw'' \<and> dev_prop d ''ID_SECURITY_TOKEN'' = Some ''1''
    | Usb vendor product \<Rightarrow> usb_id d ''ID_VENDOR_ID'' = Some vendor \<and> usb_id d ''ID_MODEL_ID'' = Some product
    | Audio \<Rightarrow> False)"

definition classify :: "device \<Rightarrow> device_class list \<Rightarrow> device_class list" where
  "classify d classes = filter (matches d) classes"

section \<open>Gamepads with a hidraw node\<close>

text \<open>
  A search whose test may not return (\<open>None\<close>): it stops at the first hit.
\<close>

fun any_opt :: "('a \<Rightarrow> bool option) \<Rightarrow> 'a list \<Rightarrow> bool option" where
  "any_opt f [] = Some False"
| "any_opt f (x # xs) = (case f x of
      None \<Rightarrow> None | Some True \<Rightarrow> Some True | Some False \<Rightarrow> any_opt f xs)"

text \<open>
  The device numbers of one input node; \<open>file_name().to_string_lossy()\<close> is a test of its start.
\<close>

definition event_numbers :: "dev_fs \<Rightarrow> path \<Rightarrow> string \<Rightarrow> (nat \<times> nat) option" where
  "event_numbers fs input node =
     (if starts_with node ''event''
      then Option.bind (dev_text fs (input @ [Normal node, Normal ''dev''])) (\<lambda>t. major_minor (trim t))
      else None)"

definition hid_has_gamepad ::
  "(nat \<Rightarrow> nat \<Rightarrow> device option option) \<Rightarrow> dev_fs \<Rightarrow> path \<Rightarrow> bool option" where
  "hid_has_gamepad read fs hidraw =
     (case Option.bind (dev_real fs hidraw) (\<lambda>p. Option.bind (parent_of p) parent_of) of
        None \<Rightarrow> Some False
      | Some hid \<Rightarrow> (case dev_dir fs (hid @ [Normal ''input'']) of
          None \<Rightarrow> Some False
        | Some inputs \<Rightarrow> any_opt (\<lambda>input.
            let dir = hid @ [Normal ''input'', Normal input] in
            case dev_dir fs dir of
              None \<Rightarrow> Some False
            | Some nodes \<Rightarrow> any_opt (\<lambda>node. case event_numbers fs dir node of
                None \<Rightarrow> Some False
              | Some (maj, m) \<Rightarrow>
                  map_option (\<lambda>d. case d of Some d \<Rightarrow> matches d Gamepad | None \<Rightarrow> False) (read maj m))
                nodes)
            inputs))"

text \<open>
  Reading a \<open>hidraw\<close> node reads the input nodes of the same HID device in turn; \<open>None\<close> is
  running out of that many nested reads.
\<close>

fun read_device :: "nat \<Rightarrow> dev_fs \<Rightarrow> host_paths \<Rightarrow> nat \<Rightarrow> nat \<Rightarrow> device option option" where
  "read_device 0 fs h major minor = None"
| "read_device (Suc n) fs h major minor = (case read_node fs h major minor of
      None \<Rightarrow> Some None
    | Some d \<Rightarrow>
        if subsystem d = ''hidraw''
        then map_option (\<lambda>g. Some (d\<lparr>gamepad_hid := g\<rparr>))
          (hid_has_gamepad (read_device n fs h) fs (sys_path h major minor))
        else Some (Some d))"

section \<open>Descriptions\<close>

record description =
  desc_id :: "string option"
  desc_name :: string
  desc_path :: "string option"

definition or_else :: "'a option \<Rightarrow> 'a option \<Rightarrow> 'a option" where
  "or_else x y = (case x of Some v \<Rightarrow> Some v | None \<Rightarrow> y)"

definition nonempty :: "string option \<Rightarrow> string option" where
  "nonempty x = (case x of Some [] \<Rightarrow> None | _ \<Rightarrow> x)"

definition shown_prop :: "device \<Rightarrow> string \<Rightarrow> string option" where
  "shown_prop d k = map_option (replace_char (CHR ''_'') '' '') (nonempty (dev_prop d k))"

definition read_trimmed :: "dev_fs \<Rightarrow> path \<Rightarrow> string option" where
  "read_trimmed fs p = nonempty (map_option trim (dev_text fs p))"

definition zip_opt :: "'a option \<Rightarrow> 'b option \<Rightarrow> ('a \<times> 'b) option" where
  "zip_opt x y = Option.bind x (\<lambda>a. map_option (Pair a) y)"

definition id_of :: "string \<times> string \<Rightarrow> string" where
  "id_of p = fst p @ '':'' @ snd p"

definition pci_id :: "dev_fs \<Rightarrow> path \<Rightarrow> (string \<times> string) option" where
  "pci_id fs sys =
     (let hex = (\<lambda>p. map_option (trim_start_matches ''0x'') (read_trimmed fs p))
      in find_map (\<lambda>dir. zip_opt (hex (dir @ [Normal ''vendor''])) (hex (dir @ [Normal ''device''])))
           [sys, sys @ [Normal ''device'']])"

definition device_id :: "dev_fs \<Rightarrow> device \<Rightarrow> path \<Rightarrow> string option" where
  "device_id fs d sys = (case zip_opt (dev_prop d ''ID_VENDOR_ID'') (dev_prop d ''ID_MODEL_ID'') of
      Some p \<Rightarrow> Some (id_of p)
    | None \<Rightarrow> map_option id_of (pci_id fs sys))"

definition model_name :: "device \<Rightarrow> string" where
  "model_name d = join '' '' (List.map_filter id
     [or_else (shown_prop d ''ID_VENDOR_FROM_DATABASE'') (shown_prop d ''ID_VENDOR''),
      or_else (shown_prop d ''ID_MODEL_FROM_DATABASE'') (shown_prop d ''ID_MODEL'')])"

definition describe_device :: "dev_fs \<Rightarrow> host_paths \<Rightarrow> device \<Rightarrow> description" where
  "describe_device fs h d =
     (let sys = sys_path h (dev_major d) (dev_minor d) @ [Normal ''device''];
          name = or_else (nonempty (Some (model_name d)))
            (or_else (read_trimmed fs (sys @ [Normal ''name'']))
            (or_else (Option.bind (dev_link fs (sys @ [Normal ''driver''])) file_name)
              (read_trimmed fs (sys @ [Normal ''id'']))))
      in \<lparr> desc_id = device_id fs d sys,
           desc_name = (case name of Some n \<Rightarrow> n | None \<Rightarrow> []),
           desc_path = dev_prop d ''ID_PATH'' \<rparr>)"

section \<open>Changes of the udev database\<close>

definition scan :: "dev_fs \<Rightarrow> host_paths \<Rightarrow> (nat \<times> nat) list" where
  "scan fs h = (case dev_dir fs (udev_data h) of
      None \<Rightarrow> [] | Some names \<Rightarrow> List.map_filter parse_db_name names)"

datatype dev_change = Updated nat nat | Removed nat nat | Rescan

record inotify_masks =
  in_q_overflow :: u32
  in_delete :: u32
  in_moved_from :: u32

unbundle bit_operations_syntax

text \<open>
  \<open>struct inotify_event\<close>: four little-endian words (watch, mask, cookie, length of the name),
  then the name, padded with zeros. A name that is not UTF-8 is no device's: what
  \<open>from_utf8_lossy\<close> puts in it is no digit, colon or \<open>c\<close>, and neither are its bytes.
\<close>

definition INOTIFY_HEADER :: nat where "INOTIFY_HEADER = 16"

definition event_change :: "inotify_masks \<Rightarrow> u32 \<Rightarrow> byte list \<Rightarrow> dev_change option" where
  "event_change im bits raw =
     (if bits AND in_q_overflow im \<noteq> 0 then Some Rescan
      else map_option (\<lambda>(maj, m).
          if bits AND (in_delete im OR in_moved_from im) \<noteq> 0 then Removed maj m else Updated maj m)
        (parse_db_name (string_of (takeWhile (\<lambda>b. b \<noteq> 0) raw))))"

function parse_events :: "inotify_masks \<Rightarrow> byte list \<Rightarrow> dev_change list" where
  "parse_events im buf =
     (if length buf < INOTIFY_HEADER then []
      else let bits = from_le (take 4 (drop 4 buf));
               len = unat (from_le (take 4 (drop 12 buf)) :: u32);
               name = take len (drop INOTIFY_HEADER buf);
               rest = parse_events im (drop (INOTIFY_HEADER + len) buf)
           in case event_change im bits name of Some c \<Rightarrow> c # rest | None \<Rightarrow> rest)"
  by auto
termination
  by (relation "measure (\<lambda>(im, buf). length buf)") (auto simp: INOTIFY_HEADER_def)

declare parse_events.simps [simp del]

section \<open>Names stay inside \<open>/dev\<close>\<close>

lemma read_node_Some:
  "read_node fs h major minor = Some d \<Longrightarrow>
     valid_dev_name (devname d) \<and> list_all valid_dev_name (dev_links d)"
  by (auto simp: read_node_def list_all_iff Let_def split: bind_splits option.splits if_splits prod.splits)

lemma read_device_Some:
  assumes "read_device n fs h major minor = Some (Some d)"
  shows "valid_dev_name (devname d) \<and> list_all valid_dev_name (dev_links d)"
proof (cases n)
  case 0
  with assms show ?thesis by simp
next
  case (Suc m)
  with assms obtain e where e: "read_node fs h major minor = Some e"
    and "d = e \<or> (\<exists>g. d = e\<lparr>gamepad_hid := g\<rparr>)"
    by (auto split: option.splits if_splits)
  with read_node_Some [OF e] show ?thesis by auto
qed

text \<open>The parts of a valid name are plain: no root, no dots.\<close>

lemma valid_parts:
  assumes "valid_dev_name name"
  shows "path_of name = map Normal (split_on (CHR ''/'') name)"
proof -
  let ?parts = "split_on (CHR ''/'') name"
  have parts: "\<forall>p \<in> set ?parts. p \<noteq> [] \<and> p \<noteq> ''.'' \<and> p \<noteq> ''..''"
    using assms by (simp add: valid_dev_name_def list_all_iff)
  then have "components name = ?parts"
    by (simp add: components_def filter_id_conv)
  moreover have "map part ?parts = map Normal ?parts"
    using parts by (simp add: part_def)
  moreover have "hd ?parts \<noteq> ''.''" using parts by (cases ?parts) auto
  ultimately show ?thesis using assms by (simp add: path_of_def valid_dev_name_def)
qed

lemma length_split_on: "length (split_on c s) = count_list s c + 1"
  by (induction s) (auto split: list.split simp: length_0_conv [symmetric] simp del: length_0_conv)

lemma lexical_normal: "fold push_part (map Normal ns) p = p @ map Normal ns"
  by (induction ns arbitrary: p) (simp_all add: push_part_def)

lemma push_up: "push_part Up (p @ [Normal s]) = p"
  by (cases p) (auto simp: push_part_def pop_path_def parent_of_def split: list.split)

lemma lexical_up: "fold push_part (replicate (length ns) Up) (p @ map Normal ns) = p"
proof (induction ns rule: rev_induct)
  case (snoc n ns)
  have "fold push_part (replicate (length (ns @ [n])) Up) (p @ map Normal (ns @ [n])) =
      fold push_part (replicate (length ns) Up) (push_part Up ((p @ map Normal ns) @ [Normal n]))"
    by simp
  then show ?case by (simp only: push_up snoc.IH)
qed simp

lemma components_repeat: "components (repeat_str n ''../'' @ s) = replicate n ''..'' @ components s"
  by (induction n) (simp_all add: repeat_str_def components_def)

lemma split_on_none: "c \<notin> set s \<Longrightarrow> split_on c s = [s]"
  by (induction s) auto

lemma no_digit: "to_digit 10 (CHR ''/'') = None" "to_digit 10 (CHR '':'') = None"
  "to_digit 10 (CHR ''-'') = None" "to_digit 10 (CHR ''.'') = None"
  "to_digit 10 (CHR 0x00) = None"
  by code_simp+

lemma hidden_plain: "CHR ''/'' \<notin> set (hidden_name a b)"
  by (simp add: hidden_name_def dec_no_digit no_digit)

lemma hidden_components: "components (''.psbox/'' @ hidden_name a b) = [''.psbox'', hidden_name a b]"
proof -
  have "split_on (CHR ''/'') (''.psbox/'' @ hidden_name a b) = [''.psbox'', hidden_name a b]"
    by (simp add: split_on_none hidden_plain)
  then show ?thesis unfolding components_def by (simp add: hidden_name_def)
qed

lemma path_of_link:
  "path_of (link_target name (hidden_name a b)) =
     replicate (count_list name (CHR ''/'')) Up @ [Normal ''.psbox'', Normal (hidden_name a b)]"
proof -
  let ?n = "count_list name (CHR ''/'')"
  have comps: "components (link_target name (hidden_name a b)) =
      replicate ?n ''..'' @ [''.psbox'', hidden_name a b]"
    unfolding link_target_def by (simp only: components_repeat hidden_components)
  have "\<not> starts_with (link_target name (hidden_name a b)) ''/''"
    "hd (split_on (CHR ''/'') (link_target name (hidden_name a b))) \<noteq> ''.''"
    by (cases ?n; simp add: link_target_def repeat_str_def starts_with_def split: list.split)+
  moreover have "map part (components (link_target name (hidden_name a b))) =
      replicate ?n Up @ [Normal ''.psbox'', Normal (hidden_name a b)]"
    unfolding comps by (simp add: part_def map_replicate_const hidden_name_def)
  ultimately show ?thesis by (simp add: path_of_def)
qed

lemma link_resolves:
  assumes "valid_dev_name name"
  shows "lexical (butlast (Root # Normal ''dev'' # path_of name) @ path_of (link_target name (hidden_name a b)))
    = [Root, Normal ''dev'', Normal ''.psbox'', Normal (hidden_name a b)]"
proof -
  let ?parts = "split_on (CHR ''/'') name"
  obtain ns s where parts: "?parts = ns @ [s]" by (cases ?parts rule: rev_cases) simp_all
  then have len: "length ns = count_list name (CHR ''/'')"
    using length_split_on [of "CHR ''/''" name] by simp
  have dir: "butlast (Root # Normal ''dev'' # path_of name) = [Root, Normal ''dev''] @ map Normal ns"
    unfolding valid_parts [OF assms] parts by simp
  have base: "fold push_part [Root, Normal ''dev''] [] = [Root, Normal ''dev'']"
    by (simp add: push_part_def)
  have hid: "fold push_part [Normal ''.psbox'', Normal (hidden_name a b)] q =
      q @ [Normal ''.psbox'', Normal (hidden_name a b)]" for q
    by (simp add: push_part_def)
  have "lexical (([Root, Normal ''dev''] @ map Normal ns) @ replicate (length ns) Up @
      [Normal ''.psbox'', Normal (hidden_name a b)]) =
      [Root, Normal ''dev''] @ [Normal ''.psbox'', Normal (hidden_name a b)]"
    by (simp only: lexical_def fold_append [of push_part] comp_apply base lexical_normal lexical_up hid)
  then show ?thesis by (simp only: path_of_link dir len) simp
qed

lemma db_name_roundtrip:
  assumes "major < 4294967296" and "minor < 4294967296"
  shows "parse_db_name (''c'' @ dec major @ '':'' @ dec minor) = Some (major, minor)"
proof -
  have "CHR '':'' \<notin> set (dec major)" by (simp add: dec_no_digit no_digit)
  then have "split_once (CHR '':'') (dec major @ '':'' @ dec minor) = Some (dec major, dec minor)" by simp
  then show ?thesis
    using assms by (simp add: parse_db_name_def strip_prefix_append [of "''c''", simplified] major_minor_def parse_dec)
qed

lemma hidden_name_inject: "hidden_name a b = hidden_name c d \<longleftrightarrow> a = c \<and> b = d"
proof
  have split: "split_once (CHR ''-'') (dec a @ ''-'' @ dec b) = Some (dec a, dec b)" for a b
    by (simp add: dec_no_digit no_digit)
  assume "hidden_name a b = hidden_name c d"
  then have "dec a @ ''-'' @ dec b = dec c @ ''-'' @ dec d" by (simp add: hidden_name_def)
  then have "Some (dec a, dec b) = Some (dec c, dec d)" using split by metis
  then show "a = c \<and> b = d" by simp
qed simp

section \<open>Nested reads\<close>

lemma any_opt_None: "any_opt f xs = None \<Longrightarrow> \<exists>x \<in> set xs. f x = None"
  by (induction xs) (auto split: option.splits bool.splits)

lemma hid_has_gamepad_None:
  assumes "hid_has_gamepad read fs sys = None"
  shows "\<exists>dir node a b. event_numbers fs dir node = Some (a, b) \<and> read a b = None"
  using assms unfolding hid_has_gamepad_def Let_def
  by (fastforce split: option.splits prod.splits dest!: any_opt_None)

text \<open>
  One read inside another is enough where the input nodes of a HID device are not themselves
  \<open>hidraw\<close> nodes, as the kernel's are.
\<close>

lemma read_device_returns:
  assumes "\<And>dir node a b e. event_numbers fs dir node = Some (a, b) \<Longrightarrow>
    read_node fs h a b = Some e \<Longrightarrow> subsystem e \<noteq> ''hidraw''"
  shows "read_device (Suc (Suc n)) fs h major minor \<noteq> None"
proof -
  have inner: "read_device (Suc n) fs h a b \<noteq> None" if "event_numbers fs dir node = Some (a, b)" for dir node a b
    using assms [OF that] by (auto split: option.split)
  then have "hid_has_gamepad (read_device (Suc n) fs h) fs sys \<noteq> None" for sys
    using hid_has_gamepad_None by metis
  then show ?thesis by (simp add: read_device.simps(2) [of "Suc n"] split: option.split del: read_device.simps)
qed

section \<open>Watching\<close>

definition inotify_event :: "u32 \<Rightarrow> u32 \<Rightarrow> u32 \<Rightarrow> byte list \<Rightarrow> byte list" where
  "inotify_event wd bits cookie name =
     to_le wd @ to_le bits @ to_le cookie @ to_le (of_nat (length name) :: u32) @ name"

lemma parse_events_Cons:
  assumes "length name < 2 ^ 32"
  shows "parse_events im (inotify_event wd bits cookie name @ buf) =
    (case event_change im bits name of Some c \<Rightarrow> [c] | None \<Rightarrow> []) @ parse_events im buf"
proof -
  let ?buf = "inotify_event wd bits cookie name @ buf"
  have "unat (of_nat (length name) :: u32) = length name"
    using assms by (simp add: unat_of_nat)
  then show ?thesis
    by (subst parse_events.simps)
      (simp add: inotify_event_def INOTIFY_HEADER_def Let_def split: option.split)
qed

lemma parse_events_Nil [simp]: "parse_events im [] = []"
  by (simp add: parse_events.simps INOTIFY_HEADER_def)

text \<open>A whole batch is read event by event, whatever the padding and the other fields.\<close>

lemma parse_events_batch:
  assumes "list_all (\<lambda>(wd, bits, cookie, name). length name < 2 ^ 32) evs"
  shows "parse_events im (concat (map (\<lambda>(wd, bits, cookie, name). inotify_event wd bits cookie name) evs)) =
    List.map_filter (\<lambda>(wd, bits, cookie, name). event_change im bits name) evs"
  using assms
  by (induction evs) (auto simp: parse_events_Cons List.map_filter_simps split: option.split)

lemma byte_of_zero: "byte_of c = 0 \<longleftrightarrow> c = CHR 0x00"
  using byte_of_eq_iff [of c "CHR 0x00"] by (simp add: byte_of_def)

text \<open>The change a padded name of the udev database stands for.\<close>

lemma event_change_name:
  assumes "major < 4294967296" and "minor < 4294967296" and "bits AND in_q_overflow im = 0"
  shows "event_change im bits (bytes_of (''c'' @ dec major @ '':'' @ dec minor) @ replicate k 0) =
    Some (if bits AND (in_delete im OR in_moved_from im) \<noteq> 0 then Removed major minor else Updated major minor)"
proof -
  let ?name = "''c'' @ dec major @ '':'' @ dec minor"
  have "CHR 0x00 \<notin> set ?name"
    using dec_no_digit [of "CHR 0x00"] by (simp add: no_digit)
  then have "0 \<notin> set (bytes_of ?name)" by (auto simp: byte_of_zero)
  then have "takeWhile (\<lambda>b. b \<noteq> 0) (bytes_of ?name @ replicate k 0) = bytes_of ?name"
    by (subst takeWhile_append2) auto
  then show ?thesis
    using assms(3) db_name_roundtrip [OF assms(1,2)] by (simp add: event_change_def)
qed

section \<open>Properties\<close>

text \<open>
  C29. Names read from the host stay inside \<open>/dev\<close>: the node of a device and each of its links
  is a relative path of plain components, and the symlink psbox puts at \<open>/dev/<name>\<close>,
  resolved from the directory it is in, leads to the device's own entry of \<open>/dev/.psbox\<close>,
  which no other device shares.
\<close>

theorem device_links_inside:
  assumes "read_device n fs h major minor = Some (Some d)" and "name \<in> set (devname d # dev_links d)"
  shows "path_of name = map Normal (split_on (CHR ''/'') name) \<and> \<not> starts_with name ''.psbox'' \<and>
    lexical (butlast (Root # Normal ''dev'' # path_of name) @ path_of (link_target name (hidden_name a b)))
      = [Root, Normal ''dev'', Normal ''.psbox'', Normal (hidden_name a b)] \<and>
    (hidden_name a b = hidden_name a' b' \<longleftrightarrow> a = a' \<and> b = b')"
proof -
  have ok: "valid_dev_name name"
    using read_device_Some [OF assms(1)] assms(2) by (auto simp: list_all_iff)
  then have "\<not> starts_with name ''.psbox''" by (simp add: valid_dev_name_def)
  with valid_parts [OF ok] link_resolves [OF ok] hidden_name_inject show ?thesis by blast
qed

definition example_dev_fs :: dev_fs where
  "example_dev_fs = \<lparr>
     dev_text = (\<lambda>p. if p = path_of ''/run/udev/data/c226:128''
       then Some (''N:dri/renderD128'' @ [nl] @ ''S:dri/by-path/card'' @ [nl]) else None),
     dev_link = (\<lambda>p. if p = path_of ''/sys/dev/char/226:128/subsystem''
       then Some (path_of ''../../../class/drm'') else None),
     dev_real = (\<lambda>p. None), dev_dir = (\<lambda>p. None) \<rparr>"

definition example_device :: device where
  "example_device = \<lparr> dev_major = 226, dev_minor = 128, subsystem = ''drm'',
     devname = ''dri/renderD128'', dev_links = [''dri/by-path/card''], dev_props = [], dev_tags = [],
     gamepad_hid = False \<rparr>"

lemma example_read: "read_device 2 example_dev_fs system_paths 226 128 = Some (Some example_device)"
  by code_simp

lemma example_gpu: "classify example_device [Gpu, Camera, Gamepad] = [Gpu]"
  by code_simp

theorem device_links_inside_witness:
  "lexical (butlast (Root # Normal ''dev'' # path_of ''dri/by-path/card'')
     @ path_of (link_target ''dri/by-path/card'' (hidden_name 226 128)))
   = [Root, Normal ''dev'', Normal ''.psbox'', Normal (hidden_name 226 128)]"
proof -
  have "''dri/by-path/card'' \<in> set (devname example_device # dev_links example_device)"
    by (simp add: example_device_def)
  from device_links_inside [OF example_read this] show ?thesis by blast
qed

end
