(* ===== verification/Wire.thy ===== *)
theory Wire
  imports Framing
begin

text \<open>
  The Wayland wire format and the proxy's end of the bridge's connection
  (\<open>src/src/decorations/wire.rs\<close>): parsing a request under the signature of its opcode,
  writing an event, and the socket's queues with the descriptors that go along. Words are
  little-endian, as on both targets. What \<open>sendmsg\<close> and \<open>recvmsg\<close> do is a parameter: a
  list of results. The lemmas show that parsing undoes writing, that frames are found wherever
  the stream is cut, and that a flush keeps bytes and descriptors in order and together.
\<close>

type_synonym wl_fd = nat

definition SERVER_ID_START :: u32 where "SERVER_ID_START = 0xFF000000"
definition HEADER :: nat where "HEADER = 8"
definition STREAM_MAX_FDS :: nat where "STREAM_MAX_FDS = 28"

section \<open>Arguments\<close>

text \<open>The argument types of a signature; a string's says whether it may be null.\<close>

datatype arg_type = Int_Type | Uint_Type | Fixed_Type | Object_Type | New_Id_Type
  | Str_Type bool | Array_Type | Fd_Type

text \<open>Signed words are kept as the words they are on the wire.\<close>

datatype arg = Int_Arg u32 | Uint_Arg u32 | Fixed_Arg u32 | Object_Arg u32 | New_Id_Arg u32
  | Str_Arg "byte list option" | Array_Arg "byte list" | Fd_Arg wl_fd

record wl_message =
  wl_sender :: u32
  wl_opcode :: u16
  wl_args :: "arg list"

datatype wire_error = Malformed_header nat | Unknown_request u16 u32 | No_descriptors u16 u32
  | Ends_early | Nul_inside | Malformed_string u16 u32 | Left_over u16 u32 nat | Too_large u16 u32 nat

section \<open>Parsing\<close>

definition take_u32 :: "byte list \<Rightarrow> wire_error + (u32 \<times> byte list)" where
  "take_u32 body = (if length body < 4 then Inl Ends_early else Inr (from_le (take 4 body), drop 4 body))"

definition padded :: "nat \<Rightarrow> nat" where
  "padded n = n + pad_to 4 n"

text \<open>A length-prefixed run of bytes, padded to four; the padded length fits a \<open>usize\<close>.\<close>

definition take_array :: "byte list \<Rightarrow> wire_error + (byte list \<times> byte list)" where
  "take_array body = and_then (take_u32 body) (\<lambda>(len, body).
     if length body < padded (unat len) then Inl Ends_early
     else Inr (take (unat len) body, drop (padded (unat len)) body))"

definition c_string :: "byte list \<Rightarrow> wire_error + byte list" where
  "c_string text = (if 0 \<in> set text then Inl Nul_inside else Inr text)"

definition take_str :: "bool \<Rightarrow> u16 \<Rightarrow> u32 \<Rightarrow> byte list \<Rightarrow> wire_error + (byte list option \<times> byte list)" where
  "take_str null opcode sender body = and_then (take_array body) (\<lambda>(bytes, body).
     if bytes = [] then (if null then Inr (None, body) else Inl (Malformed_string opcode sender))
     else if last bytes = 0 then and_then (c_string (butlast bytes)) (\<lambda>text. Inr (Some text, body))
     else Inl (Malformed_string opcode sender))"

text \<open>\<open>take_word c\<close> reads one word and makes an argument of it.\<close>

definition take_word ::
  "(u32 \<Rightarrow> arg) \<Rightarrow> byte list \<Rightarrow> wl_fd list \<Rightarrow> wire_error + (arg \<times> byte list \<times> wl_fd list)" where
  "take_word c body fds = and_then (take_u32 body) (\<lambda>(w, body). Inr (c w, body, fds))"

text \<open>
  The descriptors were counted before, so there is one for each \<^const>\<open>Fd_Type\<close>; without that
  the code would panic, and \<^const>\<open>No_descriptors\<close> stands for it.
\<close>

definition take_arg ::
  "u16 \<Rightarrow> u32 \<Rightarrow> arg_type \<Rightarrow> byte list \<Rightarrow> wl_fd list \<Rightarrow>
     wire_error + (arg \<times> byte list \<times> wl_fd list)" where
  "take_arg opcode sender ty body fds = (case ty of
      Int_Type \<Rightarrow> take_word Int_Arg body fds
    | Uint_Type \<Rightarrow> take_word Uint_Arg body fds
    | Fixed_Type \<Rightarrow> take_word Fixed_Arg body fds
    | Object_Type \<Rightarrow> take_word Object_Arg body fds
    | New_Id_Type \<Rightarrow> take_word New_Id_Arg body fds
    | Str_Type null \<Rightarrow> and_then (take_str null opcode sender body) (\<lambda>(s, body). Inr (Str_Arg s, body, fds))
    | Array_Type \<Rightarrow> and_then (take_array body) (\<lambda>(bs, body). Inr (Array_Arg bs, body, fds))
    | Fd_Type \<Rightarrow> (case fds of fd # rest \<Rightarrow> Inr (Fd_Arg fd, body, rest)
        | [] \<Rightarrow> Inl (No_descriptors opcode sender)))"

fun take_args ::
  "u16 \<Rightarrow> u32 \<Rightarrow> arg_type list \<Rightarrow> byte list \<Rightarrow> wl_fd list \<Rightarrow>
     wire_error + (arg list \<times> byte list \<times> wl_fd list)" where
  "take_args opcode sender [] body fds = Inr ([], body, fds)"
| "take_args opcode sender (ty # tys) body fds =
     and_then (take_arg opcode sender ty body fds) (\<lambda>(a, body, fds).
       and_then (take_args opcode sender tys body fds) (\<lambda>(as, body, fds). Inr (a # as, body, fds)))"

text \<open>The size and the opcode share the second word.\<close>

definition header_size :: "byte list \<Rightarrow> nat" where
  "header_size buf = unat (drop_bit 16 (from_le (take 4 (drop 4 buf)) :: u32))"

definition header_opcode :: "byte list \<Rightarrow> u16" where
  "header_opcode buf = ucast (from_le (take 4 (drop 4 buf)) :: u32)"

text \<open>
  The request at the start of the buffer, its size, and the descriptors left; \<open>None\<close> until
  all of it has arrived.
\<close>

definition parse_request ::
  "(u32 \<Rightarrow> u16 \<Rightarrow> arg_type list option) \<Rightarrow> byte list \<Rightarrow> wl_fd list \<Rightarrow>
     wire_error + (wl_message \<times> nat \<times> wl_fd list) option" where
  "parse_request signature buf fds =
     (if length buf < HEADER then Inr None
      else let sender = from_le (take 4 buf); sz = header_size buf; opcode = header_opcode buf
      in if sz < HEADER \<or> sz mod 4 \<noteq> 0 then Inl (Malformed_header sz)
      else if length buf < sz then Inr None
      else case signature sender opcode of
        None \<Rightarrow> Inl (Unknown_request opcode sender)
      | Some sig \<Rightarrow>
          if length fds < count_list sig Fd_Type then Inl (No_descriptors opcode sender)
          else and_then (take_args opcode sender sig (drop HEADER (take sz buf)) fds) (\<lambda>(as, body, fds).
            if body \<noteq> [] then Inl (Left_over opcode sender (length body))
            else Inr (Some (\<lparr> wl_sender = sender, wl_opcode = opcode, wl_args = as \<rparr>, sz, fds))))"

section \<open>Writing\<close>

text \<open>The buffer is padded to a multiple of four of its own length.\<close>

definition put_array :: "byte list \<Rightarrow> byte list \<Rightarrow> byte list" where
  "put_array bytes out =
     (let out = out @ to_le (of_nat (length bytes) :: u32) @ bytes
      in out @ replicate (pad_to 4 (length out)) 0)"

fun put_arg :: "arg \<Rightarrow> byte list \<times> wl_fd list \<Rightarrow> byte list \<times> wl_fd list" where
  "put_arg (Int_Arg v) (out, fds) = (out @ to_le v, fds)"
| "put_arg (Uint_Arg v) (out, fds) = (out @ to_le v, fds)"
| "put_arg (Fixed_Arg v) (out, fds) = (out @ to_le v, fds)"
| "put_arg (Object_Arg v) (out, fds) = (out @ to_le v, fds)"
| "put_arg (New_Id_Arg v) (out, fds) = (out @ to_le v, fds)"
| "put_arg (Str_Arg None) (out, fds) = (out @ to_le (0 :: u32), fds)"
| "put_arg (Str_Arg (Some s)) (out, fds) = (put_array (s @ [0]) out, fds)"
| "put_arg (Array_Arg bs) (out, fds) = (put_array bs out, fds)"
| "put_arg (Fd_Arg fd) (out, fds) = (out, fds @ [fd])"

definition size_word :: "nat \<Rightarrow> u16 \<Rightarrow> u32" where
  "size_word n opcode = or (push_bit 16 (of_nat n)) (ucast opcode)"

text \<open>
  The event after what is in the buffer, with its descriptors; one too large leaves the buffer
  as it was.
\<close>

definition write_event ::
  "wl_message \<Rightarrow> byte list \<Rightarrow> wire_error + (byte list \<times> wl_fd list)" where
  "write_event msg out =
     (let start = length out;
          (buf, fds) = fold put_arg (wl_args msg) (out @ replicate HEADER 0, []);
          sz = length buf - start
      in if 65535 < sz then Inl (Too_large (wl_opcode msg) (wl_sender msg) sz)
         else Inr (take start buf @ to_le (wl_sender msg) @ to_le (size_word sz (wl_opcode msg))
                @ drop (start + HEADER) buf, fds))"

section \<open>Parsing undoes writing\<close>

text \<open>The encoding of one argument by itself, and its descriptors.\<close>

definition array_bytes :: "byte list \<Rightarrow> byte list" where
  "array_bytes bs = to_le (of_nat (length bs) :: u32) @ bs @ replicate (pad_to 4 (length bs)) 0"

fun arg_bytes :: "arg \<Rightarrow> byte list" where
  "arg_bytes (Int_Arg v) = to_le v"
| "arg_bytes (Uint_Arg v) = to_le v"
| "arg_bytes (Fixed_Arg v) = to_le v"
| "arg_bytes (Object_Arg v) = to_le v"
| "arg_bytes (New_Id_Arg v) = to_le v"
| "arg_bytes (Str_Arg None) = to_le (0 :: u32)"
| "arg_bytes (Str_Arg (Some s)) = array_bytes (s @ [0])"
| "arg_bytes (Array_Arg bs) = array_bytes bs"
| "arg_bytes (Fd_Arg fd) = []"

fun arg_fds :: "arg \<Rightarrow> wl_fd list" where
  "arg_fds (Fd_Arg fd) = [fd]"
| "arg_fds _ = []"

fun arg_ok :: "arg_type \<Rightarrow> arg \<Rightarrow> bool" where
  "arg_ok Int_Type (Int_Arg _) = True"
| "arg_ok Uint_Type (Uint_Arg _) = True"
| "arg_ok Fixed_Type (Fixed_Arg _) = True"
| "arg_ok Object_Type (Object_Arg _) = True"
| "arg_ok New_Id_Type (New_Id_Arg _) = True"
| "arg_ok (Str_Type null) (Str_Arg None) = null"
| "arg_ok (Str_Type _) (Str_Arg (Some s)) = (0 \<notin> set s)"
| "arg_ok Array_Type (Array_Arg _) = True"
| "arg_ok Fd_Type (Fd_Arg _) = True"
| "arg_ok _ _ = False"

abbreviation args_bytes :: "arg list \<Rightarrow> byte list" where
  "args_bytes as \<equiv> concat (map arg_bytes as)"

abbreviation args_fds :: "arg list \<Rightarrow> wl_fd list" where
  "args_fds as \<equiv> concat (map arg_fds as)"

lemma length_word [simp]: "length (to_le (w :: u32)) = 4"
  by (simp add: length_to_le)

lemma pad_to_shift: "4 dvd m \<Longrightarrow> pad_to 4 (m + n) = pad_to 4 n"
  by (auto simp: pad_to_def dvd_def)

lemma array_bytes_dvd: "4 dvd length (array_bytes bs)"
  using pad_to_multiple [of 4 "length bs"] by (simp add: array_bytes_def dvd_eq_mod_eq_0 mod_add_eq)

lemma arg_bytes_dvd: "4 dvd length (arg_bytes a)"
  by (cases a rule: arg_bytes.cases) (simp_all add: array_bytes_dvd)

lemma args_bytes_dvd: "4 dvd length (args_bytes as)"
  by (induction as) (simp_all add: arg_bytes_dvd dvd_add)

lemma put_array_bytes: "4 dvd length out \<Longrightarrow> put_array bs out = out @ array_bytes bs"
  using pad_to_shift [of "length out + 4" "length bs"]
  by (simp add: put_array_def array_bytes_def Let_def dvd_add add.assoc)

lemma put_arg_bytes:
  "4 dvd length out \<Longrightarrow> put_arg a (out, fds) = (out @ arg_bytes a, fds @ arg_fds a)"
  by (cases a rule: arg_bytes.cases) (simp_all add: put_array_bytes)

text \<open>Arguments without an array, which are written the same wherever they are.\<close>

fun plain_arg :: "arg \<Rightarrow> bool" where
  "plain_arg (Str_Arg (Some _)) = False"
| "plain_arg (Array_Arg _) = False"
| "plain_arg _ = True"

lemma put_plain_arg: "plain_arg a \<Longrightarrow> put_arg a (out, fds) = (out @ arg_bytes a, fds @ arg_fds a)"
  by (cases a rule: arg_bytes.cases) simp_all

lemma put_args_bytes:
  "4 dvd length out \<or> list_all plain_arg as \<Longrightarrow>
     fold put_arg as (out, fds) = (out @ args_bytes as, fds @ args_fds as)"
  by (induction as arbitrary: out fds) (auto simp: put_arg_bytes put_plain_arg arg_bytes_dvd)

definition event_bytes :: "wl_message \<Rightarrow> byte list" where
  "event_bytes msg = to_le (wl_sender msg)
     @ to_le (size_word (HEADER + length (args_bytes (wl_args msg))) (wl_opcode msg))
     @ args_bytes (wl_args msg)"

lemma length_event_bytes: "length (event_bytes msg) = HEADER + length (args_bytes (wl_args msg))"
  by (simp add: event_bytes_def HEADER_def)

lemma write_event_bytes:
  assumes "4 dvd length out \<or> list_all plain_arg (wl_args msg)"
  shows "write_event msg out =
    (if 65535 < length (event_bytes msg)
     then Inl (Too_large (wl_opcode msg) (wl_sender msg) (length (event_bytes msg)))
     else Inr (out @ event_bytes msg, args_fds (wl_args msg)))"
proof -
  have "4 dvd length (out @ replicate HEADER 0) \<or> list_all plain_arg (wl_args msg)"
    using assms by (auto simp: HEADER_def intro: dvd_add)
  from put_args_bytes [OF this] show ?thesis
    by (simp add: write_event_def Let_def length_event_bytes event_bytes_def HEADER_def)
qed

lemma size_word_size:
  assumes "n < 65536"
  shows "unat (drop_bit 16 (size_word n opcode) :: u32) = n"
proof -
  have n: "take_bit 16 n = n" using assms by (simp add: take_bit_nat_eq_self)
  have "drop_bit 16 (size_word n opcode) = (of_nat (take_bit 16 n) :: u32)"
    by (rule bit_word_eqI)
      (auto simp: size_word_def bit_drop_bit_eq bit_or_iff bit_push_bit_iff bit_ucast_iff bit_of_nat_iff
        bit_take_bit_iff dest: bit_imp_le_length)
  then show ?thesis using assms by (simp add: n unat_of_nat)
qed

lemma size_word_opcode: "(ucast (size_word n opcode :: u32) :: u16) = opcode"
  by (rule bit_word_eqI)
    (auto simp: size_word_def bit_ucast_iff bit_or_iff bit_push_bit_iff)

lemma take_u32_to_le [simp]: "take_u32 (to_le w @ body) = Inr (w, body)"
  by (simp add: take_u32_def)

lemma take_array_bytes:
  assumes "length bs < 2 ^ 32"
  shows "take_array (array_bytes bs @ body) = Inr (bs, body)"
  using assms by (simp add: take_array_def array_bytes_def unat_of_nat padded_def)

lemma take_arg_bytes:
  assumes "arg_ok ty a" and "length (arg_bytes a) < 2 ^ 32"
  shows "take_arg opcode sender ty (arg_bytes a @ body) (arg_fds a @ fds) = Inr (a, body, fds)"
  using assms
proof (cases "(ty, a)" rule: arg_ok.cases)
  case (6 null)
  then show ?thesis
    using take_array_bytes [of "[]" body] assms
    by (simp add: take_arg_def take_str_def array_bytes_def pad_to_zero)
next
  case (7 null s)
  then have "take_array (array_bytes (s @ [0]) @ body) = Inr (s @ [0], body)"
    using assms(2) by (intro take_array_bytes) (simp add: array_bytes_def)
  then show ?thesis using 7 assms(1) by (simp add: take_arg_def take_str_def c_string_def)
next
  case (8 bs)
  then have "take_array (array_bytes bs @ body) = Inr (bs, body)"
    using assms(2) by (intro take_array_bytes) (simp add: array_bytes_def)
  then show ?thesis using 8 by (simp add: take_arg_def)
qed (simp_all add: take_arg_def take_word_def)

lemma take_args_bytes:
  assumes "list_all2 arg_ok tys as" and "length (args_bytes as) < 2 ^ 32"
  shows "take_args opcode sender tys (args_bytes as) (args_fds as @ fds) = Inr (as, [], fds)"
  using assms
proof (induction tys as rule: list_all2_induct)
  case (Cons ty tys a as)
  then have "length (arg_bytes a) < 2 ^ 32" by simp
  with take_arg_bytes [OF Cons.hyps(1) this] Cons show ?case by simp
qed simp

lemma arg_ok_fds: "arg_ok ty a \<Longrightarrow> length (arg_fds a) = (if ty = Fd_Type then 1 else 0)"
  by (cases "(ty, a)" rule: arg_ok.cases) simp_all

lemma count_fds: "list_all2 arg_ok tys as \<Longrightarrow> count_list tys Fd_Type = length (args_fds as)"
  by (induction tys as rule: list_all2_induct) (simp_all add: arg_ok_fds)

lemma event_header:
  assumes "length (event_bytes msg) < 65536"
  shows "header_size (event_bytes msg @ rest) = length (event_bytes msg)"
    and "header_opcode (event_bytes msg @ rest) = wl_opcode msg"
    and "from_le (take 4 (event_bytes msg @ rest)) = wl_sender msg"
  using assms unfolding length_event_bytes
  by (simp_all add: header_size_def header_opcode_def event_bytes_def size_word_size size_word_opcode)

lemma parse_event:
  assumes "length (event_bytes msg) < 65536"
    and "signature (wl_sender msg) (wl_opcode msg) = Some sig" and "list_all2 arg_ok sig (wl_args msg)"
  shows "parse_request signature (event_bytes msg @ rest) (args_fds (wl_args msg) @ fds) =
    Inr (Some (msg, length (event_bytes msg), fds))"
proof -
  have body: "drop HEADER (event_bytes msg) = args_bytes (wl_args msg)"
    by (simp add: event_bytes_def HEADER_def)
  have len: "length (args_bytes (wl_args msg)) < 2 ^ 32"
    using assms(1) by (simp add: length_event_bytes)
  have "length (event_bytes msg) mod 4 = 0"
    using args_bytes_dvd [of "wl_args msg"]
    by (simp add: length_event_bytes HEADER_def dvd_add)
  then show ?thesis
    using assms(1) take_args_bytes [OF assms(3) len, of "wl_opcode msg" "wl_sender msg" fds]
    unfolding parse_request_def event_header [OF assms(1)]
    by (simp add: Let_def length_event_bytes assms(2) count_fds [OF assms(3)] body)
qed

section \<open>The socket\<close>

text \<open>
  What a \<open>sendmsg\<close> does: some bytes go (at least one, at most all, with the descriptors
  attached to the first), or none do. \<open>sk_sent\<close> is what went out, write by write. Offsets
  count bytes since the connection began; a \<open>u64\<close> does not run out.
\<close>

datatype write_result = Sent nat | Write_blocks | Write_interrupted | Write_fails

datatype read_result = Data "byte list" "wl_fd list" | Read_blocks | Read_interrupted | Read_fails

datatype io_error = Too_many_descriptors | Bad_batch | Os_error

record wl_socket =
  sk_incoming :: "byte list"
  sk_incoming_fds :: "wl_fd list"
  sk_outgoing :: "byte list"
  sk_outgoing_fds :: "(nat \<times> wl_fd) list"
  sk_written :: nat
  sk_sent :: "(byte list \<times> wl_fd list) list"

definition socket_new :: wl_socket where
  "socket_new = \<lparr> sk_incoming = [], sk_incoming_fds = [], sk_outgoing = [], sk_outgoing_fds = [],
     sk_written = 0, sk_sent = [] \<rparr>"

text \<open>Reads everything waiting; \<open>False\<close> at the end of the stream.\<close>

fun fill :: "read_result list \<Rightarrow> wl_socket \<Rightarrow> (io_error + bool) \<times> wl_socket \<times> read_result list" where
  "fill [] s = (Inr True, s, [])"
| "fill (Read_blocks # rs) s = (Inr True, s, rs)"
| "fill (Read_interrupted # rs) s = fill rs s"
| "fill (Read_fails # rs) s = (Inl Os_error, s, rs)"
| "fill (Data bs fds # rs) s =
     (if bs = [] then (Inr False, s, rs)
      else fill rs (s\<lparr>sk_incoming := sk_incoming s @ bs, sk_incoming_fds := sk_incoming_fds s @ fds\<rparr>))"

definition next_request ::
  "(u32 \<Rightarrow> u16 \<Rightarrow> arg_type list option) \<Rightarrow> wl_socket \<Rightarrow> wire_error + (wl_message option \<times> wl_socket)" where
  "next_request signature s =
     and_then (parse_request signature (sk_incoming s) (sk_incoming_fds s)) (\<lambda>r. Inr (case r of
         None \<Rightarrow> (None, s)
       | Some (msg, n, fds) \<Rightarrow>
           (Some msg, s\<lparr>sk_incoming := drop n (sk_incoming s), sk_incoming_fds := fds\<rparr>)))"

definition send_event :: "wl_message \<Rightarrow> wl_socket \<Rightarrow> wire_error + wl_socket" where
  "send_event msg s =
     (let pos = sk_written s + length (sk_outgoing s)
      in and_then (write_event msg (sk_outgoing s)) (\<lambda>(out, fds).
           Inr (s\<lparr>sk_outgoing := out, sk_outgoing_fds := sk_outgoing_fds s @ map (Pair pos) fds\<rparr>)))"

definition wants_write :: "wl_socket \<Rightarrow> bool" where
  "wants_write s \<longleftrightarrow> sk_outgoing s \<noteq> []"

text \<open>
  How many descriptors go with the next write: not more than the limit, and never a part of a
  message's.
\<close>

fun whole_messages :: "(nat \<times> wl_fd) list \<Rightarrow> nat \<Rightarrow> nat" where
  "whole_messages fds 0 = 0"
| "whole_messages fds (Suc n) =
     (if fst (fds ! Suc n) = fst (fds ! n) then whole_messages fds n else Suc n)"

definition batch :: "wl_socket \<Rightarrow> io_error + (nat \<times> nat)" where
  "batch s =
     (let fds = sk_outgoing_fds s; n = min (length fds) STREAM_MAX_FDS
      in if n < length fds then
           (let n = whole_messages fds n
            in if n = 0 then Inl Too_many_descriptors else Inr (n, fst (fds ! n) - sk_written s))
         else Inr (n, length (sk_outgoing s)))"

text \<open>\<open>send_stream\<close> refuses an empty write, or one with too many descriptors.\<close>

datatype write_outcome = Went nat | Blocked | Interrupted | Failed io_error

definition send_stream :: "write_result \<Rightarrow> byte list \<Rightarrow> wl_fd list \<Rightarrow> write_outcome" where
  "send_stream k bs fds =
     (if STREAM_MAX_FDS < length fds \<or> bs = [] then Failed Bad_batch
      else case k of
        Sent n \<Rightarrow> Went (max 1 (min n (length bs)))
      | Write_blocks \<Rightarrow> Blocked
      | Write_interrupted \<Rightarrow> Interrupted
      | Write_fails \<Rightarrow> Failed Os_error)"

definition after_write :: "nat \<Rightarrow> nat \<Rightarrow> wl_socket \<Rightarrow> wl_socket" where
  "after_write sent n s = s\<lparr>sk_outgoing := drop sent (sk_outgoing s), sk_written := sk_written s + sent,
     sk_outgoing_fds := drop n (sk_outgoing_fds s),
     sk_sent := sk_sent s @ [(take sent (sk_outgoing s), map snd (take n (sk_outgoing_fds s)))]\<rparr>"

text \<open>Writes what the socket takes; after the results given, it takes no more.\<close>

fun flush :: "write_result list \<Rightarrow> wl_socket \<Rightarrow> (io_error + unit) \<times> wl_socket" where
  "flush ks s =
     (if sk_outgoing s = [] then (Inr (), s)
      else case batch s of
        Inl e \<Rightarrow> (Inl e, s)
      | Inr (n, limit) \<Rightarrow>
          (case ks of
             [] \<Rightarrow> (Inr (), s)
           | k # ks \<Rightarrow>
               (case send_stream k (take limit (sk_outgoing s)) (map snd (take n (sk_outgoing_fds s))) of
                  Went sent \<Rightarrow> flush ks (after_write sent n s)
                | Blocked \<Rightarrow> (Inr (), s)
                | Interrupted \<Rightarrow> flush ks s
                | Failed e \<Rightarrow> (Inl e, s))))"

declare flush.simps [simp del]

section \<open>The socket's invariant\<close>

abbreviation sent_bytes :: "wl_socket \<Rightarrow> byte list" where
  "sent_bytes s \<equiv> concat (map fst (sk_sent s))"

abbreviation sent_fds :: "wl_socket \<Rightarrow> wl_fd list" where
  "sent_fds s \<equiv> concat (map snd (sk_sent s))"

text \<open>
  Descriptors wait in the order of their messages, and only those of messages none of whose
  bytes have gone: so a message's descriptors go no later than its first byte.
\<close>

definition socket_ok :: "wl_socket \<Rightarrow> bool" where
  "socket_ok s \<longleftrightarrow> sk_written s = length (sent_bytes s) \<and> sorted (map fst (sk_outgoing_fds s)) \<and>
     (\<forall>e \<in> set (sk_outgoing_fds s).
        sk_written s \<le> fst e \<and> fst e < sk_written s + length (sk_outgoing s)) \<and>
     (\<forall>w \<in> set (sk_sent s). fst w \<noteq> [] \<and> length (snd w) \<le> STREAM_MAX_FDS)"

lemma whole_messages_le: "whole_messages fds n \<le> n"
  by (induction n) auto

lemma whole_messages_cut:
  "0 < whole_messages fds n \<Longrightarrow> fst (fds ! whole_messages fds n) \<noteq> fst (fds ! (whole_messages fds n - 1))"
  by (induction n) (auto split: if_splits)

lemma whole_messages_none:
  "whole_messages fds n = 0 \<Longrightarrow> i \<le> n \<Longrightarrow> fst (fds ! i) = fst (fds ! n)"
proof (induction n)
  case (Suc n)
  then show ?case by (cases "i = Suc n") (auto split: if_splits)
qed simp

lemma batch_bounds:
  assumes ok: "socket_ok s" and ne: "sk_outgoing s \<noteq> []" and b: "batch s = Inr (n, limit)"
  shows "n \<le> STREAM_MAX_FDS \<and> 1 \<le> limit \<and> limit \<le> length (sk_outgoing s) \<and>
    (\<forall>e \<in> set (drop n (sk_outgoing_fds s)). sk_written s + limit \<le> fst e)"
proof -
  let ?fds = "sk_outgoing_fds s" and ?m = "min (length (sk_outgoing_fds s)) STREAM_MAX_FDS"
  show ?thesis
  proof (cases "?m < length ?fds")
    case False
    with b have "n = ?m" "limit = length (sk_outgoing s)" by (simp_all add: batch_def Let_def)
    with False ne show ?thesis by (auto simp: Suc_le_eq)
  next
    case True
    with b have n: "n = whole_messages ?fds ?m" "n \<noteq> 0" and limit: "limit = fst (?fds ! n) - sk_written s"
      by (auto simp: batch_def Let_def split: if_splits)
    have le: "n \<le> ?m" unfolding n(1) by (rule whole_messages_le)
    with True have len: "n < length ?fds" by simp
    have sort: "fst (?fds ! i) \<le> fst (?fds ! j)" if "i \<le> j" "j < length ?fds" for i j
      using ok that sorted_nth_mono [of "map fst ?fds" i j] by (simp add: socket_ok_def)
    have "fst (?fds ! n) \<noteq> fst (?fds ! (n - 1))"
      using whole_messages_cut [of ?fds ?m] n by simp
    with sort [of "n - 1" n] len have less: "fst (?fds ! (n - 1)) < fst (?fds ! n)" by simp
    have bound: "sk_written s \<le> fst e \<and> fst e < sk_written s + length (sk_outgoing s)"
      if "e \<in> set ?fds" for e using ok that by (auto simp: socket_ok_def)
    have "sk_written s \<le> fst (?fds ! (n - 1))" "fst (?fds ! n) < sk_written s + length (sk_outgoing s)"
      using bound len by (simp_all add: nth_mem)
    with less have "1 \<le> limit" "limit \<le> length (sk_outgoing s)" "sk_written s + limit = fst (?fds ! n)"
      by (simp_all add: limit)
    moreover have "fst (?fds ! n) \<le> fst e" if "e \<in> set (drop n ?fds)" for e
      using that sort len by (auto simp: in_set_conv_nth)
    ultimately show ?thesis using le by simp
  qed
qed

lemma after_write_ok:
  assumes ok: "socket_ok s" and b: "n \<le> STREAM_MAX_FDS" "limit \<le> length (sk_outgoing s)"
    "\<forall>e \<in> set (drop n (sk_outgoing_fds s)). sk_written s + limit \<le> fst e"
    and sent: "1 \<le> sent" "sent \<le> limit"
  shows "socket_ok (after_write sent n s)
    \<and> sent_bytes (after_write sent n s) @ sk_outgoing (after_write sent n s) = sent_bytes s @ sk_outgoing s
    \<and> sent_fds (after_write sent n s) @ map snd (sk_outgoing_fds (after_write sent n s))
        = sent_fds s @ map snd (sk_outgoing_fds s)"
proof -
  have "sorted (map fst (drop n (sk_outgoing_fds s)))"
    using ok by (simp add: socket_ok_def sorted_wrt_drop flip: drop_map)
  moreover have "\<forall>e \<in> set (drop n (sk_outgoing_fds s)).
      fst e < sk_written s + length (sk_outgoing s)"
    using ok by (fastforce simp: socket_ok_def dest: in_set_dropD)
  moreover have "map snd (take n xs) @ map snd (drop n xs) = map snd xs" for xs :: "(nat \<times> wl_fd) list"
    by (simp flip: map_append)
  ultimately show ?thesis
    using assms by (auto simp: socket_ok_def after_write_def)
qed

lemma send_stream_Went:
  "send_stream k bs fds = Went sent \<Longrightarrow> 1 \<le> sent \<and> sent \<le> length bs"
  by (auto simp: send_stream_def Suc_le_eq split: if_splits write_result.splits)

text \<open>One round of the loop keeps the invariant and the streams.\<close>

lemma flush_ok:
  assumes "socket_ok s"
  shows "socket_ok (snd (flush ks s))
    \<and> sent_bytes (snd (flush ks s)) @ sk_outgoing (snd (flush ks s)) = sent_bytes s @ sk_outgoing s
    \<and> sent_fds (snd (flush ks s)) @ map snd (sk_outgoing_fds (snd (flush ks s)))
        = sent_fds s @ map snd (sk_outgoing_fds s)
    \<and> fst (flush ks s) \<noteq> Inl Bad_batch"
  using assms
proof (induction ks arbitrary: s)
  case Nil
  then show ?case
    by (auto simp: flush.simps [of "[]" s] batch_def Let_def split: sum.split prod.split if_splits)
next
  case (Cons k ks)
  show ?case
  proof (cases "sk_outgoing s = []")
    case True
    with Cons.prems show ?thesis by (simp add: flush.simps)
  next
    case ne: False
    show ?thesis
    proof (cases "batch s")
      case (Inl e)
      with Cons.prems ne show ?thesis
        by (auto simp: flush.simps [of "k # ks" s] batch_def Let_def split: if_splits)
    next
      case (Inr nl)
      obtain n limit where nl: "nl = (n, limit)" by (cases nl)
      note b = batch_bounds [OF Cons.prems ne Inr [unfolded nl]]
      let ?out = "send_stream k (take limit (sk_outgoing s)) (map snd (take n (sk_outgoing_fds s)))"
      have step: "flush (k # ks) s = (case ?out of
          Went sent \<Rightarrow> flush ks (after_write sent n s) | Blocked \<Rightarrow> (Inr (), s)
        | Interrupted \<Rightarrow> flush ks s | Failed e \<Rightarrow> (Inl e, s))"
        using ne Inr nl by (simp add: flush.simps [of "k # ks" s])
      show ?thesis
      proof (cases ?out)
        case (Went sent)
        then have "1 \<le> sent" "sent \<le> limit" using send_stream_Went by fastforce+
        with after_write_ok [OF Cons.prems, of n limit sent] b Went Cons.IH [of "after_write sent n s"]
        show ?thesis unfolding step by simp
      next
        case (Failed e)
        with b ne have "e \<noteq> Bad_batch"
          by (auto simp: send_stream_def split: if_splits write_result.splits)
        with Failed Cons.prems show ?thesis unfolding step by simp
      qed (use Cons in \<open>simp_all add: step\<close>)
    qed
  qed
qed

lemma put_arg_length: "length out \<le> length (fst (put_arg a (out, fds)))"
  by (cases a rule: arg_bytes.cases) (simp_all add: put_array_def Let_def)

lemma put_args_length: "length out \<le> length (fst (fold put_arg as (out, fds)))"
proof (induction as arbitrary: out fds)
  case (Cons a as)
  show ?case using put_arg_length [of out a fds] Cons.IH le_trans
    by (cases "put_arg a (out, fds)") fastforce
qed simp

lemma send_event_ok:
  assumes ok: "socket_ok s" and sent: "send_event msg s = Inr s'"
  shows "socket_ok s'"
proof -
  obtain out fds where w: "write_event msg (sk_outgoing s) = Inr (out, fds)"
    and s': "s' = s\<lparr>sk_outgoing := out,
      sk_outgoing_fds := sk_outgoing_fds s @ map (Pair (sk_written s + length (sk_outgoing s))) fds\<rparr>"
    using sent by (auto simp: send_event_def Let_def)
  obtain buf fds' where buf: "fold put_arg (wl_args msg) (sk_outgoing s @ replicate HEADER 0, []) = (buf, fds')"
    by fastforce
  then have "length (sk_outgoing s @ replicate HEADER (0 :: byte)) \<le> length buf"
    using put_args_length [of "sk_outgoing s @ replicate HEADER 0" "wl_args msg" "[]"] by simp
  then have "length (sk_outgoing s) < length out"
    using w by (auto simp: write_event_def Let_def HEADER_def buf [unfolded HEADER_def] split: if_splits)
  moreover have bound: "sk_written s \<le> fst e \<and> fst e < sk_written s + length (sk_outgoing s)"
    if "e \<in> set (sk_outgoing_fds s)" for e using ok that by (auto simp: socket_ok_def)
  ultimately have "\<forall>e \<in> set (sk_outgoing_fds s'). sk_written s \<le> fst e \<and> fst e < sk_written s + length out"
    by (fastforce simp: s')
  moreover have "sorted (map fst (sk_outgoing_fds s'))"
  proof -
    have "fst e \<le> sk_written s + length (sk_outgoing s)" if "e \<in> set (sk_outgoing_fds s)" for e
      using bound [OF that] by simp
    then show ?thesis using ok
      by (auto simp: socket_ok_def s' sorted_append comp_def map_replicate_const)
  qed
  ultimately show ?thesis using ok by (simp add: socket_ok_def s')
qed

section \<open>A flush ends\<close>

definition few_each :: "(nat \<times> wl_fd) list \<Rightarrow> bool" where
  "few_each fds \<longleftrightarrow> (\<forall>pos. length (filter (\<lambda>e. fst e = pos) fds) \<le> STREAM_MAX_FDS)"

lemma few_each_drop: "few_each fds \<Longrightarrow> few_each (drop n fds)"
proof -
  have "length (filter P (drop n fds)) \<le> length (filter P fds)" for P
    by (metis append_take_drop_id filter_append le_add2 length_append)
  then show "few_each fds \<Longrightarrow> few_each (drop n fds)"
    unfolding few_each_def using le_trans by blast
qed

lemma batch_few:
  assumes "few_each (sk_outgoing_fds s)"
  shows "\<exists>n limit. batch s = Inr (n, limit)"
proof (rule ccontr)
  let ?fds = "sk_outgoing_fds s"
  assume "\<not> ?thesis"
  then have len: "STREAM_MAX_FDS < length ?fds" and none: "whole_messages ?fds STREAM_MAX_FDS = 0"
    by (auto simp: batch_def Let_def min_def split: if_splits)
  let ?pos = "fst (?fds ! STREAM_MAX_FDS)"
  have "fst e = ?pos" if "e \<in> set (take (Suc STREAM_MAX_FDS) ?fds)" for e
  proof -
    from that obtain i where "i < Suc STREAM_MAX_FDS" "e = ?fds ! i"
      by (auto simp: in_set_conv_nth)
    then show ?thesis using whole_messages_none [OF none, of i] by (simp only: less_Suc_eq_le)
  qed
  then have front: "filter (\<lambda>e. fst e = ?pos) (take (Suc STREAM_MAX_FDS) ?fds) = take (Suc STREAM_MAX_FDS) ?fds"
    by (intro filter_True ballI)
  have "filter (\<lambda>e. fst e = ?pos) (take (Suc STREAM_MAX_FDS) ?fds @ drop (Suc STREAM_MAX_FDS) ?fds)
      = take (Suc STREAM_MAX_FDS) ?fds @ filter (\<lambda>e. fst e = ?pos) (drop (Suc STREAM_MAX_FDS) ?fds)"
    by (simp only: filter_append front)
  then have "length (take (Suc STREAM_MAX_FDS) ?fds) \<le> length (filter (\<lambda>e. fst e = ?pos) ?fds)"
    unfolding append_take_drop_id by (metis length_append le_add1)
  then have "Suc STREAM_MAX_FDS \<le> length (filter (\<lambda>e. fst e = ?pos) ?fds)"
    using len by simp
  moreover have "length (filter (\<lambda>e. fst e = ?pos) ?fds) \<le> STREAM_MAX_FDS"
    using assms by (simp add: few_each_def)
  ultimately show False by linarith
qed

fun sends :: "write_result list \<Rightarrow> nat" where
  "sends [] = 0"
| "sends (Sent _ # ks) = Suc (sends ks)"
| "sends (_ # ks) = sends ks"

lemma flush_drains_ok:
  assumes "socket_ok s" and "few_each (sk_outgoing_fds s)"
    and "Write_blocks \<notin> set ks" and "Write_fails \<notin> set ks" and "length (sk_outgoing s) \<le> sends ks"
  shows "fst (flush ks s) = Inr () \<and> sk_outgoing (snd (flush ks s)) = []"
  using assms
proof (induction ks arbitrary: s)
  case Nil
  then show ?case by (simp add: flush.simps)
next
  case (Cons k ks)
  show ?case
  proof (cases "sk_outgoing s = []")
    case True
    then show ?thesis by (simp add: flush.simps)
  next
    case ne: False
    obtain n limit where b: "batch s = Inr (n, limit)" using batch_few [OF Cons.prems(2)] by blast
    note bounds = batch_bounds [OF Cons.prems(1) ne b]
    have small: "\<not> STREAM_MAX_FDS < length (map snd (take n (sk_outgoing_fds s)))"
      "take limit (sk_outgoing s) \<noteq> []"
      using bounds ne by auto
    have step: "flush (k # ks) s =
        (case send_stream k (take limit (sk_outgoing s)) (map snd (take n (sk_outgoing_fds s))) of
          Went sent \<Rightarrow> flush ks (after_write sent n s) | Blocked \<Rightarrow> (Inr (), s)
        | Interrupted \<Rightarrow> flush ks s | Failed e \<Rightarrow> (Inl e, s))"
      using ne b by (simp add: flush.simps [of "k # ks" s])
    show ?thesis
    proof (cases k)
      case (Sent m)
      define sent where "sent = max 1 (min m (length (take limit (sk_outgoing s))))"
      have out: "send_stream k (take limit (sk_outgoing s)) (map snd (take n (sk_outgoing_fds s))) = Went sent"
        by (simp only: send_stream_def small Sent sent_def simp_thms if_False write_result.case)
      then have range: "1 \<le> sent" "sent \<le> limit" using send_stream_Went by fastforce+
      have "socket_ok (after_write sent n s)"
        using after_write_ok [OF Cons.prems(1), of n limit sent] bounds range by blast
      moreover have "few_each (sk_outgoing_fds (after_write sent n s))"
        using few_each_drop [OF Cons.prems(2)] by (simp add: after_write_def)
      moreover have "length (sk_outgoing (after_write sent n s)) \<le> sends ks"
        using Cons.prems(5) range Sent by (simp add: after_write_def)
      ultimately have "fst (flush ks (after_write sent n s)) = Inr () \<and>
          sk_outgoing (snd (flush ks (after_write sent n s))) = []"
        using Cons.prems(3,4) by (intro Cons.IH) simp_all
      then show ?thesis by (simp only: step out write_outcome.case)
    next
      case Write_interrupted
      then have "send_stream k (take limit (sk_outgoing s)) (map snd (take n (sk_outgoing_fds s))) = Interrupted"
        by (simp only: send_stream_def small simp_thms if_False write_result.case)
      with Cons Write_interrupted show ?thesis unfolding step by simp
    qed (use Cons.prems in simp_all)
  qed
qed

section \<open>Runs of the sending end\<close>

text \<open>
  What the proxy's loop does to the socket: events are queued and what is queued is flushed, in any
  order, and a flush may stop after any number of bytes. In \<open>reaches_even\<close> an event with a string or
  an array is queued only behind a multiple of four bytes: the padding counts from the start of the
  queue (\<open>misaligned_event_refused\<close>).
\<close>

inductive reaches :: "wl_message list \<Rightarrow> wl_socket \<Rightarrow> bool" where
  start: "reaches [] socket_new"
| send: "reaches ms s \<Longrightarrow> send_event m s = Inr s' \<Longrightarrow> reaches (ms @ [m]) s'"
| flush: "reaches ms s \<Longrightarrow> reaches ms (snd (flush ks s))"

inductive reaches_even :: "wl_message list \<Rightarrow> wl_socket \<Rightarrow> bool" where
  start: "reaches_even [] socket_new"
| send: "reaches_even ms s \<Longrightarrow> length (sk_outgoing s) mod 4 = 0 \<or> list_all plain_arg (wl_args m)
    \<Longrightarrow> send_event m s = Inr s' \<Longrightarrow> reaches_even (ms @ [m]) s'"
| flush: "reaches_even ms s \<Longrightarrow> reaches_even ms (snd (flush ks s))"

lemma socket_new_ok: "socket_ok socket_new"
  by (simp add: socket_ok_def socket_new_def)

lemma reaches_ok: "reaches ms s \<Longrightarrow> socket_ok s"
  by (induction rule: reaches.induct) (use socket_new_ok send_event_ok flush_ok in blast)+

lemma send_event_streams:
  assumes "4 dvd length (sk_outgoing s) \<or> list_all plain_arg (wl_args m)" and "send_event m s = Inr s'"
  shows "length (event_bytes m) < 65536 \<and>
    sent_bytes s' @ sk_outgoing s' = (sent_bytes s @ sk_outgoing s) @ event_bytes m \<and>
    sent_fds s' @ map snd (sk_outgoing_fds s')
      = (sent_fds s @ map snd (sk_outgoing_fds s)) @ args_fds (wl_args m)"
proof -
  have small: "\<not> 65535 < length (event_bytes m)"
    using assms(2) by (auto simp: send_event_def write_event_bytes [OF assms(1)] Let_def split: if_splits)
  with assms(2) have s': "s' = s\<lparr>sk_outgoing := sk_outgoing s @ event_bytes m,
      sk_outgoing_fds := sk_outgoing_fds s
        @ map (Pair (sk_written s + length (sk_outgoing s))) (args_fds (wl_args m))\<rparr>"
    by (simp add: send_event_def write_event_bytes [OF assms(1)] Let_def)
  with small show ?thesis by (simp add: s' comp_def)
qed

lemma reaches_even_inv:
  "reaches_even ms s \<Longrightarrow> socket_ok s \<and> (\<forall>m \<in> set ms. length (event_bytes m) < 65536) \<and>
     sent_bytes s @ sk_outgoing s = concat (map event_bytes ms) \<and>
     sent_fds s @ map snd (sk_outgoing_fds s) = concat (map (\<lambda>m. args_fds (wl_args m)) ms)"
proof (induction rule: reaches_even.induct)
  case start
  show ?case using socket_new_ok by (simp add: socket_new_def)
next
  case (send ms s m s')
  then have "socket_ok s'" using send_event_ok by blast
  with send_event_streams [of s m s'] send show ?case by (simp add: dvd_eq_mod_eq_0)
next
  case (flush ms s ks)
  then show ?case using flush_ok [of s ks] by simp
qed

text \<open>The other end reads requests one after another.\<close>

fun next_requests ::
  "nat \<Rightarrow> (u32 \<Rightarrow> u16 \<Rightarrow> arg_type list option) \<Rightarrow> wl_socket \<Rightarrow> wire_error + (wl_message list \<times> wl_socket)" where
  "next_requests 0 signature s = Inr ([], s)"
| "next_requests (Suc n) signature s = and_then (next_request signature s) (\<lambda>(m, s). case m of
      None \<Rightarrow> Inr ([], s)
    | Some m \<Rightarrow> and_then (next_requests n signature s) (\<lambda>(ms, s). Inr (m # ms, s)))"

definition typed :: "(u32 \<Rightarrow> u16 \<Rightarrow> arg_type list option) \<Rightarrow> wl_message \<Rightarrow> bool" where
  "typed signature m \<longleftrightarrow> (case signature (wl_sender m) (wl_opcode m) of
      None \<Rightarrow> False | Some sig \<Rightarrow> list_all2 arg_ok sig (wl_args m))"

lemma next_requests_events:
  assumes "\<forall>m \<in> set ms. length (event_bytes m) < 65536 \<and> typed signature m"
    and "sk_incoming s = concat (map event_bytes ms) @ rest"
    and "sk_incoming_fds s = concat (map (\<lambda>m. args_fds (wl_args m)) ms) @ others"
  shows "next_requests (length ms) signature s =
    Inr (ms, s\<lparr>sk_incoming := rest, sk_incoming_fds := others\<rparr>)"
  using assms
proof (induction ms arbitrary: s)
  case (Cons m ms)
  obtain sig where sig: "signature (wl_sender m) (wl_opcode m) = Some sig" "list_all2 arg_ok sig (wl_args m)"
    using Cons.prems(1) by (auto simp: typed_def split: option.splits)
  let ?s = "s\<lparr>sk_incoming := concat (map event_bytes ms) @ rest,
    sk_incoming_fds := concat (map (\<lambda>m. args_fds (wl_args m)) ms) @ others\<rparr>"
  have "next_request signature s = Inr (Some m, ?s)"
    using Cons.prems parse_event [of m signature sig "concat (map event_bytes ms) @ rest"
        "concat (map (\<lambda>m. args_fds (wl_args m)) ms) @ others"] sig
    by (simp add: next_request_def)
  with Cons.IH [of ?s] Cons.prems(1) show ?case by simp
qed simp

section \<open>Frames of the stream\<close>

definition need_request :: "byte list \<Rightarrow> nat option" where
  "need_request buf =
     (if length buf < HEADER then None
      else let n = header_size buf in if n < HEADER \<or> n mod 4 \<noteq> 0 then None else Some n)"

lemma header_size_append: "HEADER \<le> length buf \<Longrightarrow> header_size (buf @ x) = header_size buf"
  by (simp add: header_size_def HEADER_def)

interpretation wire: framing need_request
  by unfold_locales (auto simp: need_request_def Let_def HEADER_def header_size_append [unfolded HEADER_def]
      split: if_splits)

text \<open>Events queued one after the other are cut apart again, wherever the transport split them.\<close>

lemma need_event: "length (event_bytes m) < 65536 \<Longrightarrow> need_request (event_bytes m) = Some (length (event_bytes m))"
  using event_header(1) [of m "[]"] args_bytes_dvd [of "wl_args m"]
  by (simp add: need_request_def Let_def length_event_bytes HEADER_def)

lemma events_framed:
  assumes "\<forall>m \<in> set ms. length (event_bytes m) < 65536" and "concat cs = concat (map event_bytes ms)"
  shows "feed need_request [] cs = (map event_bytes ms, [])"
proof -
  have none: "frames need_request [] = ([], [])"
    by (simp add: frames.simps need_request_def HEADER_def)
  have "feed need_request [] cs = frames need_request (concat (map event_bytes ms) @ [])"
    using wire.feed_concat [OF none, of cs] assms(2) by simp
  then show ?thesis
    using wire.frames_concat [of "map event_bytes ms" "[]"] none assms(1) need_event by simp
qed

section \<open>Properties\<close>

text \<open>
  C30. What the proxy queues and flushes, in any order and however many bytes each write takes, the
  other end reads: the same messages with their own descriptors, in order. On the way every write
  carries at most 28 descriptors, and descriptors still waiting belong to messages of which no byte has
  gone. This needs an event with a string or an array to be queued only while the queue holds a
  multiple of four bytes, which the code does not see to: \<open>misaligned_event_refused\<close> shows what
  happens otherwise.
\<close>

theorem events_arrive:
  assumes "reaches_even ms s" and "sk_outgoing s = []" and "\<forall>m \<in> set ms. typed signature m"
    and "sk_incoming b = sent_bytes s" and "sk_incoming_fds b = sent_fds s"
  shows "next_requests (length ms) signature b = Inr (ms, b\<lparr>sk_incoming := [], sk_incoming_fds := []\<rparr>) \<and>
    (\<forall>w \<in> set (sk_sent s). fst w \<noteq> [] \<and> length (snd w) \<le> STREAM_MAX_FDS) \<and> sk_outgoing_fds s = []"
proof -
  note inv = reaches_even_inv [OF assms(1)]
  then have none: "sk_outgoing_fds s = []"
    using assms(2) by (cases "sk_outgoing_fds s") (auto simp: socket_ok_def)
  with inv assms next_requests_events [of ms signature b "[]" "[]"] show ?thesis
    by (simp add: socket_ok_def)
qed

text \<open>
  C31. A flush ends with everything written, whenever the kernel goes on taking at least a byte
  per write (interruptions do not count) and no message has more than 28 descriptors: it
  neither stalls nor refuses a batch of its own making.
\<close>

theorem flush_drains:
  assumes "reaches ms s" and "few_each (sk_outgoing_fds s)"
    and "Write_blocks \<notin> set ks" and "Write_fails \<notin> set ks" and "length (sk_outgoing s) \<le> sends ks"
  shows "fst (flush ks s) = Inr () \<and> sk_outgoing (snd (flush ks s)) = [] \<and>
    sk_outgoing_fds (snd (flush ks s)) = []"
proof -
  have ok: "socket_ok s" by (rule reaches_ok [OF assms(1)])
  have drained: "fst (flush ks s) = Inr () \<and> sk_outgoing (snd (flush ks s)) = []"
    by (rule flush_drains_ok [OF ok assms(2-5)])
  moreover have "socket_ok (snd (flush ks s))" using flush_ok [OF ok] by blast
  ultimately show ?thesis
    by (cases "sk_outgoing_fds (snd (flush ks s))") (auto simp: socket_ok_def)
qed

text \<open>
  The padding of an array is counted from the start of the queue, not of the message: when a
  write has taken a number of bytes that is no multiple of four, the next event with an array
  (or a string) is written with a size that is no multiple of four, which the other end refuses.
\<close>

theorem misaligned_event_refused:
  assumes "length out mod 4 \<noteq> 0" and "length bs < 65000"
  shows "\<exists>raw n. write_event \<lparr> wl_sender = sender, wl_opcode = opcode, wl_args = [Array_Arg bs] \<rparr> out
      = Inr (out @ raw, []) \<and> parse_request signature (raw @ rest) fds = Inl (Malformed_header n)"
proof -
  let ?m = "\<lparr> wl_sender = sender, wl_opcode = opcode, wl_args = [Array_Arg bs] \<rparr>"
  define body where "body = to_le (of_nat (length bs) :: u32) @ bs
    @ replicate (pad_to 4 (length out + 12 + length bs)) (0 :: byte)"
  define n where "n = HEADER + length body"
  define raw where "raw = to_le sender @ to_le (size_word n opcode) @ body"
  have pad: "pad_to 4 k < 4" for k by (rule pad_to_less) simp
  have n: "n = 12 + length bs + pad_to 4 (length out + 12 + length bs)"
    by (simp add: n_def body_def HEADER_def)
  then have small: "n < 65536" using assms(2) pad [of "length out + 12 + length bs"] by simp
  have "write_event ?m out = Inr (out @ raw, [])"
    using small by (simp add: write_event_def put_array_def Let_def raw_def n_def body_def HEADER_def
        add.assoc add.commute [of 8])
  moreover have "(length out + n) mod 4 = 0"
    using pad_to_multiple [of 4 "length out + 12 + length bs"] by (simp add: n add.assoc)
  then have "n mod 4 \<noteq> 0" using assms(1) by presburger
  moreover have "header_size (raw @ rest) = n" "HEADER \<le> length (raw @ rest)"
    using small by (simp_all add: header_size_def raw_def size_word_size HEADER_def)
  ultimately show ?thesis by (auto simp: parse_request_def Let_def)
qed

text \<open>An event without arguments, queued on a new connection.\<close>

definition tick :: wl_message where
  "tick = \<lparr> wl_sender = 1, wl_opcode = 0, wl_args = [] \<rparr>"

lemma tick_queued:
  "\<exists>s. reaches [tick] s \<and> reaches_even [tick] s \<and> length (sk_outgoing s) = 8 \<and> sk_outgoing_fds s = []"
proof -
  have len: "length (event_bytes tick) = 8" by (simp add: length_event_bytes HEADER_def tick_def)
  have "write_event tick [] = Inr (event_bytes tick, [])"
    using write_event_bytes [of "[]" tick] len by (simp add: tick_def)
  then have s: "send_event tick socket_new = Inr (socket_new\<lparr>sk_outgoing := event_bytes tick\<rparr>)"
    by (simp add: send_event_def socket_new_def)
  then have "reaches ([] @ [tick]) (socket_new\<lparr>sk_outgoing := event_bytes tick\<rparr>)"
    by (rule reaches.send [OF reaches.start])
  moreover from s have "reaches_even ([] @ [tick]) (socket_new\<lparr>sk_outgoing := event_bytes tick\<rparr>)"
    by (rule reaches_even.send [OF reaches_even.start, rotated]) (simp add: tick_def)
  ultimately show ?thesis using len by (intro exI [of _ "socket_new\<lparr>sk_outgoing := event_bytes tick\<rparr>"])
      (simp add: socket_new_def)
qed

theorem flush_drains_witness:
  "\<exists>s. reaches [tick] s \<and> sk_outgoing s \<noteq> [] \<and> sk_outgoing (snd (flush (replicate 8 (Sent 4)) s)) = []"
proof -
  obtain s where s: "reaches [tick] s" "length (sk_outgoing s) = 8" "sk_outgoing_fds s = []"
    using tick_queued by blast
  moreover have "few_each (sk_outgoing_fds s)" by (simp add: s few_each_def)
  moreover have "sends (replicate 8 (Sent 4)) = 8" by (simp add: eval_nat_numeral)
  ultimately have "sk_outgoing (snd (flush (replicate 8 (Sent 4)) s)) = []"
    using flush_drains [OF s(1), of "replicate 8 (Sent 4)"] by simp
  with s show ?thesis by auto
qed

theorem events_arrive_witness:
  "\<exists>s. reaches_even [tick] (snd (flush (replicate 8 (Sent 3)) s)) \<and> next_requests 1 (\<lambda>_ _. Some [])
      (socket_new\<lparr>sk_incoming := sent_bytes (snd (flush (replicate 8 (Sent 3)) s)),
         sk_incoming_fds := sent_fds (snd (flush (replicate 8 (Sent 3)) s))\<rparr>)
    = Inr ([tick], socket_new\<lparr>sk_incoming := [], sk_incoming_fds := []\<rparr>)"
proof -
  obtain s where s: "reaches_even [tick] s" "length (sk_outgoing s) = 8" "sk_outgoing_fds s = []"
    using tick_queued by blast
  let ?s = "snd (flush (replicate 8 (Sent 3)) s)"
  have "sends (replicate 8 (Sent 3)) = 8" by (simp add: eval_nat_numeral)
  then have "sk_outgoing ?s = []"
    using flush_drains_ok [of s "replicate 8 (Sent 3)"] reaches_even_inv [OF s(1)] s by (simp add: few_each_def)
  moreover have r: "reaches_even [tick] ?s" using s(1) by (rule reaches_even.flush)
  moreover have "typed (\<lambda>_ _. Some []) tick" by (simp add: typed_def tick_def)
  ultimately show ?thesis
    using events_arrive [of "[tick]" ?s "\<lambda>_ _. Some []"
        "socket_new\<lparr>sk_incoming := sent_bytes ?s, sk_incoming_fds := sent_fds ?s\<rparr>"]
    by (intro exI [of _ s]) simp
qed

theorem misaligned_event_refused_witness:
  "\<exists>raw n. write_event \<lparr> wl_sender = 1, wl_opcode = 0, wl_args = [Array_Arg [7]] \<rparr> [0, 0, 0]
      = Inr ([0, 0, 0] @ raw, []) \<and>
    parse_request (\<lambda>_ _. Some [Array_Type]) (raw @ []) [] = Inl (Malformed_header n)"
  by (rule misaligned_event_refused) simp_all

end
