(* ===== verification/Scale.thy ===== *)
theory Scale
  imports Spec_Config
begin

text \<open>
  The display scale xwayland-satellite is told (\<open>src/src/decorations/scale.rs\<close>). An \<open>i32\<close> is
  an integer with its range written out: multiplication saturates, and a subtraction out of
  range (a panic where overflow is checked) is \<open>None\<close>. The floating-point ratio of a mode to
  its logical size, already rounded up, is the parameter \<open>ratio\<close>.
\<close>

abbreviation i32_max :: int where "i32_max \<equiv> 2147483647"

definition in_i32 :: "int \<Rightarrow> bool" where
  "in_i32 x \<longleftrightarrow> - 2147483648 \<le> x \<and> x \<le> i32_max"

definition saturating_mul :: "int \<Rightarrow> int \<Rightarrow> int" where
  "saturating_mul a b = max (- 2147483648) (min i32_max (a * b))"

definition clamp :: "int \<Rightarrow> int \<Rightarrow> int \<Rightarrow> int" where
  "clamp lo hi x = max lo (min hi x)"

text \<open>\<open>(a - b).abs() < s\<close>.\<close>

definition near :: "int \<Rightarrow> int \<Rightarrow> int \<Rightarrow> bool option" where
  "near a b s = (if in_i32 (a - b) \<and> a - b \<noteq> - 2147483648 then Some (\<bar>a - b\<bar> < s) else None)"

definition whole_scale :: "(int \<Rightarrow> int \<Rightarrow> int) \<Rightarrow> int \<Rightarrow> int \<Rightarrow> int option \<Rightarrow> int" where
  "whole_scale ratio m l whole = clamp 1 16 (case whole of Some s \<Rightarrow> s | None \<Rightarrow> ratio m l)"

definition scaled_mode ::
  "(int \<Rightarrow> int \<Rightarrow> int) \<Rightarrow> xwayland_scale \<Rightarrow> int \<times> int \<Rightarrow> (int \<times> int) option \<Rightarrow> bool \<Rightarrow> int option \<Rightarrow>
     (int \<times> int) option" where
  "scaled_mode ratio scale m logical rotated whole =
     (case logical of
        None \<Rightarrow> Some m
      | Some (w, h) \<Rightarrow>
          if w \<le> 0 \<or> h \<le> 0 then Some m
          else let (lw, lh) = (if rotated then (h, w) else (w, h)) in
          (case scale of
             Native \<Rightarrow> Some m
           | Compositor \<Rightarrow> Some (lw, lh)
           | Round_Up \<Rightarrow>
               (let s = whole_scale ratio (fst m) lw whole;
                    w = saturating_mul lw s; h = saturating_mul lh s
                in do {
                  a \<leftarrow> near (fst m) w s;
                  if \<not> a then Some (w, h) else do {
                    b \<leftarrow> near (snd m) h s;
                    Some (if b then m else (w, h)) } })))"

definition preferred :: "xwayland_scale \<Rightarrow> u32 \<Rightarrow> u32" where
  "preferred scale p = (case scale of
      Native \<Rightarrow> p
    | Round_Up \<Rightarrow> of_nat (min 4294967295 (max 1 ((unat p + 119) div 120) * 120))
    | Compositor \<Rightarrow> 120)"

definition whole :: "xwayland_scale \<Rightarrow> int \<Rightarrow> int" where
  "whole scale factor = (case scale of Compositor \<Rightarrow> 1 | _ \<Rightarrow> factor)"

section \<open>Bounds\<close>

lemma whole_scale_range: "1 \<le> whole_scale ratio m l w \<and> whole_scale ratio m l w \<le> 16"
  by (simp add: whole_scale_def clamp_def)

lemma saturating_mul_range:
  assumes "0 < a" and "1 \<le> b"
  shows "1 \<le> saturating_mul a b \<and> saturating_mul a b \<le> i32_max"
proof -
  have "1 \<le> a * b" using assms mult_mono [of 1 a 1 b] by simp
  then show ?thesis by (simp add: saturating_mul_def)
qed

lemma near_mode: "0 \<le> a \<Longrightarrow> a \<le> i32_max \<Longrightarrow> 1 \<le> b \<Longrightarrow> b \<le> i32_max \<Longrightarrow> near a b s \<noteq> None"
  by (simp add: near_def in_i32_def)

text \<open>
  With a mode that is no negative size, nothing overflows, and what satellite is told is the mode
  itself or a size from 1 to the largest \<open>i32\<close>.
\<close>

lemma scaled_mode_range:
  assumes "0 \<le> fst m" "fst m \<le> i32_max" "0 \<le> snd m" "snd m \<le> i32_max"
    and "\<forall>l. logical = Some l \<longrightarrow> in_i32 (fst l) \<and> in_i32 (snd l)"
  shows "\<exists>r. scaled_mode ratio scale m logical rotated given = Some r \<and>
    (r = m \<or> 1 \<le> fst r \<and> fst r \<le> i32_max \<and> 1 \<le> snd r \<and> snd r \<le> i32_max)"
proof (cases logical)
  case (Some l)
  obtain w h where l: "l = (w, h)" by (cases l)
  show ?thesis
  proof (cases "w \<le> 0 \<or> h \<le> 0")
    case False
    define lw lh where "lw = (if rotated then h else w)" and "lh = (if rotated then w else h)"
    have pos: "0 < lw" "0 < lh" "lw \<le> i32_max" "lh \<le> i32_max"
      using False assms(5) Some l by (auto simp: lw_def lh_def in_i32_def)
    define s where "s = whole_scale ratio (fst m) lw given"
    have s: "1 \<le> s" using whole_scale_range by (simp add: s_def)
    note range = saturating_mul_range [OF pos(1) s] saturating_mul_range [OF pos(2) s]
    obtain a b where "near (fst m) (saturating_mul lw s) s = Some a" "near (snd m) (saturating_mul lh s) s = Some b"
      using near_mode [of "fst m" "saturating_mul lw s" s] near_mode [of "snd m" "saturating_mul lh s" s]
        assms(1-4) range by auto
    then show ?thesis using False range pos
      by (cases m; cases scale; cases rotated) (auto simp: scaled_mode_def Some l s_def lw_def lh_def Let_def)
  qed (simp add: scaled_mode_def Some l)
qed (simp add: scaled_mode_def)

lemma preferred_whole:
  assumes "unat p \<le> 4294967160"
  shows "unat (preferred Round_Up p) mod 120 = 0 \<and> unat p \<le> unat (preferred Round_Up p)"
proof -
  let ?k = "max 1 ((unat p + 119) div 120)"
  have "(unat p + 119) div 120 * 120 \<le> unat p + 119" by (rule div_times_less_eq_dividend)
  then have "?k * 120 \<le> 4294967295" using assms by (auto simp: max_def)
  then have "?k * 120 < 2 ^ LENGTH(32)" and least: "min 4294967295 (?k * 120) = ?k * 120" by simp_all
  then have "unat (of_nat (?k * 120) :: u32) = ?k * 120" by (simp only: unat_of_nat mod_less)
  then have "unat (preferred Round_Up p) = ?k * 120"
    unfolding preferred_def xwayland_scale.case least .
  moreover have "u \<le> (u + 119) div 120 * 120" for u :: nat
    using div_mult_mod_eq [of "u + 119" 120] mod_less_divisor [of 120 "u + 119"] by linarith
  then have "unat p \<le> ?k * 120" by (rule le_trans) (rule mult_right_mono, simp_all)
  ultimately show ?thesis by (simp only: mod_mult_self2_is_0)
qed

end
