(* ===== verification/Supervisor_State.thy ===== *)
theory Supervisor_State
  imports Plan_Host Devices "HOL-Library.Product_Lexorder"
begin

text \<open>
  The state a supervisor keeps (\<open>src/src/supervisor.rs\<close>, \<open>State\<close> and the plan beside it) and
  the environment of its launches. The hash maps are ordered maps: their order is not
  observed. What the sandbox really has (mounts, device nodes, processes) is the state
  of the kernel, in the theory of the operations that change it.
\<close>

record published =
  pub_names :: "string list"
  pub_hidden :: string
  pub_classes :: "string list"
  pub_complete :: bool

record launch =
  launch_identity :: "string option"
  launch_started :: bool

record live_mount =
  live_host :: string
  live_at :: string
  live_mode :: mount_mode

record sv =
  sv_plan :: plan
  sv_clients :: nat
  sv_mounts :: "live_mount list"
  sv_devices :: "(nat \<times> nat, published) btree"
  sv_spawned :: "(nat, string) btree"
  sv_launches :: "(nat, launch) btree"
  sv_next_launch :: nat
  sv_docs :: nat
  sv_served :: bool
  sv_pending :: "string list"
  sv_unapplied :: "string list"
  sv_sockets :: "path list"

text \<open>What could not be changed is always among the reasons to restart.\<close>

definition pending_ok :: "sv \<Rightarrow> bool" where
  "pending_ok s \<longleftrightarrow> set (sv_unapplied s) \<subseteq> set (sv_pending s)"

section \<open>Environments\<close>

text \<open>The portal switches of a launch: all of them with a portal identity, none without.\<close>

definition portal_env :: "plan \<Rightarrow> bool \<Rightarrow> (string, string) btree \<Rightarrow> (string, string) btree" where
  "portal_env p identified env =
     (if plan_dbus p \<noteq> Some Dbus_Portal then env
      else fold (\<lambda>(k, v) env. if identified then bt_insert env k v else bt_remove env k) PORTAL_ENV env)"

definition sandbox_env :: "plan \<Rightarrow> nat option \<Rightarrow> (string, string) btree" where
  "sandbox_env p disp = (case disp of
      None \<Rightarrow> plan_env p | Some d \<Rightarrow> bt_insert (plan_env p) ''DISPLAY'' ('':'' @ dec d))"

text \<open>
  What a launch runs with: the client's variables that pass, the sandbox's, the app's, and
  the portal switches, each over the ones before.
\<close>

definition launch_env ::
  "plan \<Rightarrow> nat option \<Rightarrow> plan_app option \<Rightarrow> bool \<Rightarrow> (string, string) btree \<Rightarrow> (string, string) btree" where
  "launch_env p disp ap identified client =
     portal_env p identified
       (env_extend (env_extend (filter (\<lambda>e. client_env_allowed (fst e)) client) (sandbox_env p disp))
          (case ap of Some a \<Rightarrow> env_of_app a | None \<Rightarrow> []))"

section \<open>What a launch runs\<close>

record spawn =
  spawn_app :: "string option"
  spawn_args :: "string list"
  spawn_env :: "(string, string) btree"
  spawn_cwd :: path
  spawn_exec :: bool

text \<open>The app a request names, or the default one; \<open>exec\<close> needs none.\<close>

definition choose_app :: "plan \<Rightarrow> identity \<Rightarrow> spawn \<Rightarrow> string + (string option \<times> plan_app option)" where
  "choose_app p i r =
     (case or_else (spawn_app r) (plan_default_app p) of
        Some name \<Rightarrow> (case bt_get (plan_apps p) name of
            Some a \<Rightarrow> Inr (Some name, Some a)
          | None \<Rightarrow> Inl (describe i @ '' has no app named '' @ name))
      | None \<Rightarrow> if spawn_exec r then Inr (None, None)
          else Inl (describe i @ '' has no default app; choose one with --app''))"

definition launch_argv :: "spawn \<Rightarrow> plan_app option \<Rightarrow> string + string list" where
  "launch_argv r ap =
     (let argv = (case ap of Some a \<Rightarrow> if spawn_exec r then [] else run_of_app a | None \<Rightarrow> [])
        @ spawn_args r
      in if argv = [] then Inl ''nothing to run'' else Inr argv)"

text \<open>The app id a launch tries as its portal identity.\<close>

definition identity_candidate :: "plan \<Rightarrow> spawn \<Rightarrow> string option \<Rightarrow> plan_app option \<Rightarrow> string option" where
  "identity_candidate p r name ap =
     (if spawn_exec r \<and> name = None then plan_exec_identity p else Option.bind ap id_of_app)"

text \<open>
  Why a launch has no portal identity, and the decision: another sandbox's entry claims the
  id (\<open>claimed\<close>), or what the host portal answers (\<open>probe\<close>), which may be an error.
\<close>

datatype no_identity = Unknown_Id | Claimed_Id string | No_Portal

datatype probe = Probe_Accepted | Probe_Unknown | Probe_No_Portal

definition describe_no_identity :: "no_identity \<Rightarrow> string \<Rightarrow> string" where
  "describe_no_identity r i = (case r of
      Unknown_Id \<Rightarrow> ''the host portal doesn'' @ [CHR 0x27] @ ''t accept '' @ i @ '', since it has no '' @ i @ ''.desktop''
    | Claimed_Id who \<Rightarrow> i @ ''.desktop belongs to the sandbox '' @ who
    | No_Portal \<Rightarrow> ''no portal runs on the host bus'')"

definition decide_identity ::
  "plan \<Rightarrow> (string \<Rightarrow> string option) \<Rightarrow> (string \<Rightarrow> string + probe) \<Rightarrow> string option \<Rightarrow>
     string + ((string \<times> no_identity) + string option)" where
  "decide_identity p claimed probe i = (case i of
      None \<Rightarrow> Inr (Inr None)
    | Some i \<Rightarrow>
        if plan_dbus p \<noteq> Some Dbus_Portal then Inr (Inr None)
        else (case claimed i of
            Some who \<Rightarrow> Inr (Inl (i, Claimed_Id who))
          | None \<Rightarrow> and_then (probe i) (\<lambda>a. Inr (case a of
                Probe_Accepted \<Rightarrow> Inr (Some i)
              | Probe_Unknown \<Rightarrow> Inl (i, Unknown_Id)
              | Probe_No_Portal \<Rightarrow> Inl (i, No_Portal)))))"

text \<open>Classifying a failed registration: \<open>None\<close> for an error that may pass.\<close>

definition classify_error :: "string \<Rightarrow> probe option" where
  "classify_error e =
     (if str_contains e ''App info not found'' then Some Probe_Unknown
      else if str_contains e ''org.freedesktop.DBus.Error.ServiceUnknown''
        \<or> str_contains e ''org.freedesktop.DBus.Error.NameHasNoOwner''
        \<or> str_contains e ''org.freedesktop.DBus.Error.UnknownInterface''
        \<or> str_contains e ''org.freedesktop.DBus.Error.UnknownMethod'' then Some Probe_No_Portal
      else None)"

text \<open>Where a launch runs: the client's directory if the sandbox has it, else the home, else the root.\<close>

definition launch_cwd :: "plan \<Rightarrow> (path \<Rightarrow> bool) \<Rightarrow> path \<Rightarrow> path" where
  "launch_cwd p has_dir cwd =
     (if has_dir cwd then cwd
      else if list_ex (\<lambda>m. dst m = plan_home p) (plan_mounts p) then plan_home p else [Root])"

section \<open>Facts about environments\<close>

lemma portal_keys: "map fst PORTAL_ENV = [''GIO_USE_PORTALS'', ''GTK_USE_PORTAL'', ''GDK_DEBUG'', ''GNOTIFICATION_BACKEND'']"
  by (simp add: PORTAL_ENV_def)

lemma bt_ok_env_extend [simp]: "bt_ok env \<Longrightarrow> bt_ok (env_extend env es)"
  unfolding env_extend_def by (induction es arbitrary: env) simp_all

lemma portal_env_get:
  assumes "bt_ok env" and "plan_dbus p = Some Dbus_Portal"
  shows "bt_get (portal_env p identified env) k =
    (if k \<in> fst ` set PORTAL_ENV then (if identified then map_of PORTAL_ENV k else None) else bt_get env k)"
  using assms by (simp add: portal_env_def PORTAL_ENV_def bt_get_insert bt_get_remove)

lemma portal_env_off: "plan_dbus p \<noteq> Some Dbus_Portal \<Longrightarrow> portal_env p identified env = env"
  by (simp add: portal_env_def)


text \<open>
  C32. What a launch runs with, variable by variable: with the private bus, a launch with a
  portal identity has every portal switch and one without has none, even those a config or the
  client sets; any other variable comes from the app, the display, the sandbox, or from the
  client when it may pass, in that order.
\<close>

theorem launch_environment:
  assumes "bt_ok client" and "bt_ok (plan_env p)"
  shows "bt_get (launch_env p disp ap identified client) k =
    (if plan_dbus p = Some Dbus_Portal \<and> k \<in> fst ` set PORTAL_ENV
     then (if identified then map_of PORTAL_ENV k else None)
     else case map_of (rev (case ap of Some a \<Rightarrow> env_of_app a | None \<Rightarrow> [])) k of Some v \<Rightarrow> Some v
     | None \<Rightarrow> (case (if k = ''DISPLAY'' \<and> disp \<noteq> None then Some ('':'' @ dec (the disp)) else bt_get (plan_env p) k)
         of Some v \<Rightarrow> Some v
     | None \<Rightarrow> if client_env_allowed k then bt_get client k else None))"
proof -
  let ?app = "case ap of Some a \<Rightarrow> env_of_app a | None \<Rightarrow> []"
  let ?client = "filter (\<lambda>e. client_env_allowed (fst e)) client"
  have ok: "bt_ok (env_extend ?client (sandbox_env p disp))" "bt_ok (sandbox_env p disp)"
    using assms by (simp_all add: sandbox_env_def split: option.split)
  have box: "map_of (rev (sandbox_env p disp)) k =
      (if k = ''DISPLAY'' \<and> disp \<noteq> None then Some ('':'' @ dec (the disp)) else bt_get (plan_env p) k)"
    using ok(2) assms(2) by (simp add: map_of_rev_bt sandbox_env_def bt_get_insert split: option.split)
  have passed: "map_of ?client k = (if client_env_allowed k then bt_get client k else None)"
    by (induction client) auto
  note get = env_extend_get [OF ok(1), of ?app k] env_extend_get [of ?client "sandbox_env p disp" k]
  have base: "bt_get (env_extend (env_extend ?client (sandbox_env p disp)) ?app) k =
      (case map_of (rev ?app) k of Some v \<Rightarrow> Some v
       | None \<Rightarrow> (case (if k = ''DISPLAY'' \<and> disp \<noteq> None then Some ('':'' @ dec (the disp)) else bt_get (plan_env p) k)
           of Some v \<Rightarrow> Some v
       | None \<Rightarrow> if client_env_allowed k then bt_get client k else None))"
    using assms by (simp only: get box passed bt_ok_filter)
  show ?thesis
  proof (cases "plan_dbus p = Some Dbus_Portal")
    case True
    then show ?thesis
      unfolding launch_env_def portal_env_get [OF bt_ok_env_extend [OF ok(1)] True] base by simp
  next
    case False
    then show ?thesis unfolding launch_env_def portal_env_off [OF False] base by simp
  qed
qed

lemma shared_env_ok: "bt_ok (plan_env shared_plan)"
  by code_simp

theorem launch_environment_witness:
  "bt_get (launch_env shared_plan (Some 3) None False [(''DISPLAY'', '':0'')]) ''DISPLAY'' = Some '':3''"
proof -
  have "dec 3 = ''3''" by code_simp
  with launch_environment [OF _ shared_env_ok, of "[(''DISPLAY'', '':0'')]" "Some 3" None False "''DISPLAY''"]
  show ?thesis by (simp add: PORTAL_ENV_def)
qed

end
