(* ===== verification/Supervisor_Devices.thy ===== *)
theory Supervisor_Devices
  imports Supervisor_State
begin

text \<open>
  Publishing host devices in a running sandbox (\<open>src/src/supervisor.rs\<close>: \<open>reconcile_all\<close>,
  \<open>reconcile\<close>, \<open>publish\<close>, \<open>unpublish\<close>, \<open>publish_link\<close>,
  \<open>unlink_if_ours\<close>). The sandbox's \<open>/dev\<close> is a record: the nodes attached in its
  hidden directory, the mount points made there, and the links. Every system call may fail:
  the kernel's answers are a parameter, indexed by a clock that each call advances, so the same
  call may fail once and succeed later.
\<close>

section \<open>The sandbox's \<open>/dev\<close>\<close>

record sandbox_dev =
  sd_clock :: nat
  sd_nodes :: "(string \<times> nat \<times> nat) list"
  sd_points :: "string list"
  sd_links :: "string \<rightharpoonup> string"

text \<open>
  The \<open>n\<close>-th call's error, if any, and what is at a host path then: whether it is a
  character device, and its numbers.
\<close>

record kernel =
  fails_at :: "nat \<Rightarrow> string option"
  stat_at :: "nat \<Rightarrow> path \<Rightarrow> bool \<times> nat \<times> nat"

definition advance :: "sandbox_dev \<Rightarrow> sandbox_dev" where
  "advance w = w\<lparr>sd_clock := sd_clock w + 1\<rparr>"

definition syscall :: "kernel \<Rightarrow> sandbox_dev \<Rightarrow> string option \<times> sandbox_dev" where
  "syscall K w = (fails_at K (sd_clock w), advance w)"

text \<open>A call that changes the sandbox's \<open>/dev\<close> when it succeeds.\<close>

definition change_dev ::
  "kernel \<Rightarrow> (sandbox_dev \<Rightarrow> sandbox_dev) \<Rightarrow> sandbox_dev \<Rightarrow> (string + unit) \<times> sandbox_dev" where
  "change_dev K f w = (case syscall K w of
      (Some e, w) \<Rightarrow> (Inl e, w)
    | (None, w) \<Rightarrow> (Inr (), f w))"

definition make_node_point :: "string \<Rightarrow> sandbox_dev \<Rightarrow> sandbox_dev" where
  "make_node_point h w = (if h \<in> set (sd_points w) then w else w\<lparr>sd_points := h # sd_points w\<rparr>)"

definition attach_node :: "string \<Rightarrow> nat \<times> nat \<Rightarrow> sandbox_dev \<Rightarrow> sandbox_dev" where
  "attach_node h k w = w\<lparr>sd_nodes := (h, k) # sd_nodes w\<rparr>"

text \<open>Unmounting takes the topmost mount at a place, and fails when there is none.\<close>

definition detach_node :: "kernel \<Rightarrow> string \<Rightarrow> sandbox_dev \<Rightarrow> (string + unit) \<times> sandbox_dev" where
  "detach_node K h w = (case find (\<lambda>n. fst n = h) (sd_nodes w) of
      None \<Rightarrow> (Inl ''Invalid argument (os error 22)'', advance w)
    | Some n \<Rightarrow> change_dev K (\<lambda>w. w\<lparr>sd_nodes := remove1 n (sd_nodes w)\<rparr>) w)"

definition remove_point :: "kernel \<Rightarrow> string \<Rightarrow> sandbox_dev \<Rightarrow> sandbox_dev" where
  "remove_point K h w = snd (change_dev K (\<lambda>w. w\<lparr>sd_points := filter (\<lambda>p. p \<noteq> h) (sd_points w)\<rparr>) w)"

text \<open>A link is made under another name and moved over what is there.\<close>

definition publish_link :: "kernel \<Rightarrow> string \<Rightarrow> string \<Rightarrow> sandbox_dev \<Rightarrow> (string + unit) \<times> sandbox_dev" where
  "publish_link K name target w =
     change_dev K (\<lambda>w. w\<lparr>sd_links := (sd_links w)(name \<mapsto> target)\<rparr>) w"

definition unlink_if_ours :: "kernel \<Rightarrow> string \<Rightarrow> string \<Rightarrow> sandbox_dev \<Rightarrow> sandbox_dev" where
  "unlink_if_ours K name target w =
     (if sd_links w name = Some target
      then snd (change_dev K (\<lambda>w. w\<lparr>sd_links := (sd_links w)(name := None)\<rparr>) w)
      else w)"

section \<open>Unpublishing\<close>

definition removal_reason :: "published \<Rightarrow> nat \<times> nat \<Rightarrow> string" where
  "removal_reason p k =
     ''removing /dev/'' @ hd (pub_names p) @ '' ('' @ dec (fst k) @ '':'' @ dec (snd k) @ '')''"

definition add_unapplied :: "string \<Rightarrow> sv \<Rightarrow> sv" where
  "add_unapplied r s =
     (if r \<in> set (sv_unapplied s) then s
      else s\<lparr>sv_unapplied := sv_unapplied s @ [r], sv_pending := sv_pending s @ [r]\<rparr>)"

definition drop_unapplied :: "string \<Rightarrow> sv \<Rightarrow> sv" where
  "drop_unapplied r s =
     s\<lparr>sv_unapplied := filter (\<lambda>x. x \<noteq> r) (sv_unapplied s), sv_pending := filter (\<lambda>x. x \<noteq> r) (sv_pending s)\<rparr>"

definition unpublish ::
  "kernel \<Rightarrow> nat \<times> nat \<Rightarrow> sv \<Rightarrow> sandbox_dev \<Rightarrow> (string + unit) \<times> sv \<times> sandbox_dev" where
  "unpublish K k s w = (case bt_get (sv_devices s) k of
      None \<Rightarrow> (Inr (), s, w)
    | Some p \<Rightarrow>
        let s = s\<lparr>sv_devices := bt_insert (sv_devices s) k (p\<lparr>pub_complete := False\<rparr>)\<rparr>;
            w = fold (\<lambda>n. unlink_if_ours K n (link_target n (pub_hidden p))) (pub_names p) w
        in case detach_node K (pub_hidden p) w of
          (Inl e, w) \<Rightarrow> (Inl (''detach node: '' @ e), add_unapplied (removal_reason p k) s, w)
        | (Inr _, w) \<Rightarrow> (Inr (),
            drop_unapplied (removal_reason p k) (s\<lparr>sv_devices := bt_remove (sv_devices s) k\<rparr>),
            remove_point K (pub_hidden p) w))"

section \<open>Publishing\<close>

text \<open>The links in order; the first that cannot be made, with its error.\<close>

fun publish_links ::
  "kernel \<Rightarrow> string \<Rightarrow> string list \<Rightarrow> sandbox_dev \<Rightarrow> (string \<times> string) option \<times> sandbox_dev" where
  "publish_links K h [] w = (None, w)"
| "publish_links K h (n # ns) w = (case publish_link K n (link_target n h) w of
      (Inl e, w) \<Rightarrow> (Some (n, e), w)
    | (Inr _, w) \<Rightarrow> publish_links K h ns w)"

text \<open>
  The node cloned and checked: it must be the device udev described. Then its attributes are
  set, its mount point made and the node attached; \<open>Inl\<close> is the first failure.
\<close>

definition attach_device :: "kernel \<Rightarrow> device \<Rightarrow> sandbox_dev \<Rightarrow> (string + unit) \<times> sandbox_dev" where
  "attach_device K d w =
     (let node = show_path (host_node d); h = hidden_name (dev_major d) (dev_minor d) in
      case syscall K w of
        (Some e, w) \<Rightarrow> (Inl (''clone '' @ node @ '': '' @ e), w)
      | (None, w) \<Rightarrow> let st = stat_at K (sd_clock w) (host_node d) in
      (case syscall K w of
        (Some e, w) \<Rightarrow> (Inl e, w)
      | (None, w) \<Rightarrow>
        if st \<noteq> (True, dev_major d, dev_minor d)
        then (Inl (node @ '' is not character device '' @ dec (dev_major d) @ '':'' @ dec (dev_minor d)), w)
        else (case syscall K w of
        (Some e, w) \<Rightarrow> (Inl e, w)
      | (None, w) \<Rightarrow> (case change_dev K (make_node_point h) w of
        (Inl e, w) \<Rightarrow> (Inl e, w)
      | (Inr _, w) \<Rightarrow> (case change_dev K (attach_node h (dev_major d, dev_minor d)) w of
        (Inl e, w) \<Rightarrow> (Inl (''attach node: '' @ e), w)
      | (Inr _, w) \<Rightarrow> (Inr (), w))))))"

definition record_of :: "device \<Rightarrow> device_class list \<Rightarrow> published" where
  "record_of d classes =
     \<lparr> pub_names = devname d # dev_links d, pub_hidden = hidden_name (dev_major d) (dev_minor d),
       pub_classes = map device_name classes, pub_complete = False \<rparr>"

definition publish ::
  "kernel \<Rightarrow> device \<Rightarrow> device_class list \<Rightarrow> sv \<Rightarrow> sandbox_dev \<Rightarrow> (string + unit) \<times> sv \<times> sandbox_dev" where
  "publish K d classes s w = (case attach_device K d w of
      (Inl e, w) \<Rightarrow> (Inl e, s, w)
    | (Inr _, w) \<Rightarrow>
        let k = (dev_major d, dev_minor d); p = record_of d classes;
            s = s\<lparr>sv_devices := bt_insert (sv_devices s) k p\<rparr>
        in (case publish_links K (pub_hidden p) (pub_names p) w of
          (Some (n, e), w) \<Rightarrow> (Inl (''link /dev/'' @ n @ '': '' @ e), snd (unpublish K k s w))
        | (None, w) \<Rightarrow> (Inr (), s\<lparr>sv_devices := bt_insert (sv_devices s) k (p\<lparr>pub_complete := True\<rparr>)\<rparr>, w)))"

section \<open>Reconciling\<close>

definition incomplete :: "nat \<times> nat \<Rightarrow> sv \<Rightarrow> bool" where
  "incomplete k s = (case bt_get (sv_devices s) k of None \<Rightarrow> False | Some p \<Rightarrow> \<not> pub_complete p)"

text \<open>One device, as the host describes it now; the error is logged.\<close>

definition reconcile_node ::
  "kernel \<Rightarrow> device option \<Rightarrow> nat \<times> nat \<Rightarrow> sv \<Rightarrow> sandbox_dev \<Rightarrow> (string + unit) \<times> sv \<times> sandbox_dev" where
  "reconcile_node K dev k s w =
     (let classes = (case dev of None \<Rightarrow> [] | Some d \<Rightarrow> classify d (plan_node_classes (sv_plan s)))
      in case (if incomplete k s then unpublish K k s w else (Inr (), s, w)) of
        (Inl e, s, w) \<Rightarrow> (Inl e, s, w)
      | (Inr _, s, w) \<Rightarrow>
          (case (dev, classes = [], bt_has (sv_devices s) k) of
            (Some d, False, False) \<Rightarrow> publish K d classes s w
          | (_, True, True) \<Rightarrow> unpublish K k s w
          | (None, _, True) \<Rightarrow> unpublish K k s w
          | _ \<Rightarrow> (Inr (), s, w)))"

text \<open>\<open>None\<close> is running out of nested reads of the host's device files.\<close>

definition reconcile ::
  "nat \<Rightarrow> dev_fs \<Rightarrow> host_paths \<Rightarrow> kernel \<Rightarrow> nat \<times> nat \<Rightarrow> sv \<Rightarrow> sandbox_dev \<Rightarrow> (sv \<times> sandbox_dev) option" where
  "reconcile fuel fs h K k s w =
     map_option (\<lambda>dev. snd (reconcile_node K dev k s w)) (read_device fuel fs h (fst k) (snd k))"

fun reconcile_each ::
  "nat \<Rightarrow> dev_fs \<Rightarrow> host_paths \<Rightarrow> kernel \<Rightarrow> (nat \<times> nat) list \<Rightarrow> sv \<Rightarrow> sandbox_dev \<Rightarrow>
     (sv \<times> sandbox_dev) option" where
  "reconcile_each fuel fs h K [] s w = Some (s, w)"
| "reconcile_each fuel fs h K (k # ks) s w =
     Option.bind (reconcile fuel fs h K k s w) (\<lambda>(s, w). reconcile_each fuel fs h K ks s w)"

definition reconcile_all ::
  "nat \<Rightarrow> dev_fs \<Rightarrow> host_paths \<Rightarrow> kernel \<Rightarrow> sv \<Rightarrow> sandbox_dev \<Rightarrow> (sv \<times> sandbox_dev) option" where
  "reconcile_all fuel fs h K s w =
     reconcile_each fuel fs h K (remdups (sort (scan fs h @ map fst (sv_devices s)))) s w"

definition device_event ::
  "nat \<Rightarrow> dev_fs \<Rightarrow> host_paths \<Rightarrow> kernel \<Rightarrow> dev_change \<Rightarrow> sv \<Rightarrow> sandbox_dev \<Rightarrow> (sv \<times> sandbox_dev) option" where
  "device_event fuel fs h K c s w = (case c of
      Updated a b \<Rightarrow> reconcile fuel fs h K (a, b) s w
    | Removed a b \<Rightarrow> reconcile fuel fs h K (a, b) s w
    | Rescan \<Rightarrow> reconcile_all fuel fs h K s w)"

section \<open>Records and nodes agree\<close>

declare split_paired_All [simp del] split_paired_Ex [simp del]

text \<open>
  Every record has its node attached, once, and no other node is attached; what could not be
  removed is among the reasons to restart.
\<close>

definition hidden_of :: "nat \<times> nat \<Rightarrow> string" where
  "hidden_of k = hidden_name (fst k) (snd k)"

definition tracked :: "sv \<Rightarrow> sandbox_dev \<Rightarrow> bool" where
  "tracked s w \<longleftrightarrow> bt_ok (sv_devices s) \<and> distinct (sd_nodes w) \<and>
     (\<forall>h k. (h, k) \<in> set (sd_nodes w) \<longleftrightarrow> h = hidden_of k \<and> bt_has (sv_devices s) k) \<and>
     (\<forall>k p. bt_get (sv_devices s) k = Some p \<longrightarrow> pub_hidden p = hidden_of k) \<and> pending_ok s"

text \<open>What a step on one device leaves alone.\<close>

definition only_device :: "nat \<times> nat \<Rightarrow> sv \<Rightarrow> sv \<Rightarrow> bool" where
  "only_device k s s' \<longleftrightarrow> sv_plan s' = sv_plan s \<and>
     (\<forall>k'. k' \<noteq> k \<longrightarrow> bt_get (sv_devices s') k' = bt_get (sv_devices s) k') \<and>
     (\<forall>r. (\<forall>p. r \<noteq> removal_reason p k) \<longrightarrow>
        (r \<in> set (sv_unapplied s') \<longleftrightarrow> r \<in> set (sv_unapplied s)) \<and>
        (r \<in> set (sv_pending s') \<longleftrightarrow> r \<in> set (sv_pending s)))"

text \<open>A node that is still there although it should not be is a reason to restart.\<close>

definition stuck_node :: "nat \<times> nat \<Rightarrow> sv \<Rightarrow> bool" where
  "stuck_node k s \<longleftrightarrow> (\<exists>p. bt_get (sv_devices s) k = Some p \<and> removal_reason p k \<in> set (sv_unapplied s))"

lemma hidden_of_inject [simp]: "hidden_of k = hidden_of k' \<longleftrightarrow> k = k'"
  by (cases k; cases k') (simp add: hidden_of_def hidden_name_inject)

lemma only_device_refl [simp]: "only_device k s s"
  by (simp add: only_device_def)

lemma only_device_trans: "only_device k s t \<Longrightarrow> only_device k t u \<Longrightarrow> only_device k s u"
  by (simp add: only_device_def)

lemma no_paren: "to_digit 10 (CHR ''('') = None"
  by (simp add: to_digit_def hex_digit_def)

lemma removal_reason_key: "removal_reason p k = removal_reason p' k' \<Longrightarrow> k = k'"
proof -
  have tail: "takeWhile (\<lambda>c. c \<noteq> CHR ''('') (rev (removal_reason p k))
      = rev (dec (fst k) @ '':'' @ dec (snd k) @ '')'')" for p k
    using dec_no_digit [OF no_paren] by (auto simp: removal_reason_def takeWhile_append)
  have once: "split_once (CHR '':'') (dec a @ '':'' @ b) = Some (dec a, b)" for a b
    by (simp add: dec_no_digit no_digit)
  assume "removal_reason p k = removal_reason p' k'"
  then have eq: "dec (fst k) @ '':'' @ dec (snd k) @ '')'' = dec (fst k') @ '':'' @ dec (snd k') @ '')''"
    using tail [of p k] tail [of p' k'] by (simp del: rev_append)
  from arg_cong [OF this, of "split_once (CHR '':'')"] show "k = k'"
    by (simp only: once) (simp add: prod_eq_iff)
qed

lemma stuck_node_kept: "only_device k s s' \<Longrightarrow> k' \<noteq> k \<Longrightarrow> stuck_node k' s' = stuck_node k' s"
  using removal_reason_key by (simp add: only_device_def stuck_node_def) metis

section \<open>The steps keep it\<close>

lemma unlink_nodes [simp]: "sd_nodes (unlink_if_ours K n t w) = sd_nodes w"
  by (simp add: unlink_if_ours_def change_dev_def syscall_def advance_def split: option.split)

lemma fold_unlink_nodes [simp]: "sd_nodes (fold (\<lambda>n. unlink_if_ours K n (t n)) ns w) = sd_nodes w"
  by (induction ns arbitrary: w) simp_all

lemma remove_point_nodes [simp]: "sd_nodes (remove_point K h w) = sd_nodes w"
  by (simp add: remove_point_def change_dev_def syscall_def advance_def split: option.split)

lemma detach_node_cases:
  assumes "detach_node K h w = (r, w')"
  shows "(\<exists>e. r = Inl e \<and> sd_nodes w' = sd_nodes w) \<or>
    (\<exists>n. r = Inr () \<and> n \<in> set (sd_nodes w) \<and> fst n = h \<and> sd_nodes w' = remove1 n (sd_nodes w))"
  using assms by (auto simp: detach_node_def change_dev_def syscall_def advance_def
      split: option.splits dest!: find_SomeD)

lemma publish_links_nodes: "publish_links K h ns w = (r, w') \<Longrightarrow> sd_nodes w' = sd_nodes w"
proof (induction ns arbitrary: w)
  case (Cons n ns)
  have "sd_nodes (snd (publish_link K n t w)) = sd_nodes w" for t
    by (simp add: publish_link_def change_dev_def syscall_def advance_def split: option.split)
  with Cons show ?case by (auto split: prod.splits sum.splits) (metis snd_conv)+
qed simp

lemma attach_device_nodes:
  assumes "attach_device K d w = (r, w')"
  shows "(\<exists>e. r = Inl e \<and> sd_nodes w' = sd_nodes w) \<or>
    (r = Inr () \<and> sd_nodes w' = (hidden_of (dev_major d, dev_minor d), dev_major d, dev_minor d) # sd_nodes w)"
  using assms
  by (auto simp: attach_device_def Let_def syscall_def change_dev_def advance_def make_node_point_def
      attach_node_def hidden_of_def split: option.splits if_splits)

lemma unpublish_tracked:
  assumes inv: "tracked s w" and step: "unpublish K k s w = (r, s', w')"
  shows "tracked s' w' \<and> only_device k s s' \<and> (bt_has (sv_devices s') k \<longrightarrow> stuck_node k s') \<and>
    (r = Inr () \<longrightarrow> \<not> bt_has (sv_devices s') k)"
proof (cases "bt_get (sv_devices s) k")
  case None
  then show ?thesis using inv step by (auto simp: unpublish_def bt_has_def)
next
  case (Some p)
  define ws where "ws = fold (\<lambda>n. unlink_if_ours K n (link_target n (pub_hidden p))) (pub_names p) w"
  have p: "pub_hidden p = hidden_of k" and ok: "bt_ok (sv_devices s)" and pending: "pending_ok s"
    using inv Some by (auto simp: tracked_def)
  obtain q wd where q: "detach_node K (pub_hidden p) ws = (q, wd)" by force
  have nodes: "sd_nodes ws = sd_nodes w" by (simp add: ws_def)
  show ?thesis
  proof (cases q)
    case (Inl e)
    have same: "sd_nodes wd = sd_nodes w"
      using detach_node_cases [OF q] Inl nodes by auto
    have out: "s' = add_unapplied (removal_reason p k)
        (s\<lparr>sv_devices := bt_insert (sv_devices s) k (p\<lparr>pub_complete := False\<rparr>)\<rparr>)" "w' = wd" "r \<noteq> Inr ()"
      using step q Inl by (auto simp: unpublish_def Some Let_def ws_def)
    have reason: "removal_reason (p\<lparr>pub_complete := False\<rparr>) k = removal_reason p k"
      by (simp add: removal_reason_def)
    show ?thesis
      using inv ok pending p Some same
      by (auto simp: out tracked_def only_device_def stuck_node_def add_unapplied_def pending_ok_def
          bt_get_insert bt_has_def reason)
  next
    case (Inr u)
    obtain n where n: "n \<in> set (sd_nodes w)" "fst n = hidden_of k" "sd_nodes wd = remove1 n (sd_nodes w)"
      using detach_node_cases [OF q] Inr nodes p by auto
    have nk: "n = (hidden_of k, k)"
    proof (cases n)
      case (fields h a b)
      with n(1) inv have "h = hidden_of (a, b)" by (simp add: tracked_def)
      with n(2) fields show ?thesis by simp
    qed
    have out: "s' = drop_unapplied (removal_reason p k) (s\<lparr>sv_devices := bt_remove
          (bt_insert (sv_devices s) k (p\<lparr>pub_complete := False\<rparr>)) k\<rparr>)"
        "sd_nodes w' = sd_nodes wd" "r = Inr ()"
      using step q Inr by (auto simp: unpublish_def Some Let_def ws_def)
    have gone: "bt_get (sv_devices s') k' = (if k' = k then None else bt_get (sv_devices s) k')" for k'
      using ok by (simp add: out drop_unapplied_def bt_get_remove bt_get_insert)
    have "set (sd_nodes wd) = set (sd_nodes w) - {n}" "distinct (sd_nodes wd)"
      using inv n by (auto simp: tracked_def)
    moreover have "bt_ok (sv_devices s')" "pending_ok s'"
      using ok pending by (auto simp: out drop_unapplied_def pending_ok_def)
    moreover have "only_device k s s'"
      by (auto simp: only_device_def gone) (auto simp: out drop_unapplied_def)
    ultimately show ?thesis
      using inv gone out(2,3) nk by (auto simp: tracked_def bt_has_def)
  qed
qed

lemma tracked_insert:
  assumes "tracked s w" and "pub_hidden p = hidden_of k"
    and "\<And>h k'. (h, k') \<in> set (sd_nodes w') \<longleftrightarrow> (h, k') = (hidden_of k, k) \<or> (h, k') \<in> set (sd_nodes w)"
    and "distinct (sd_nodes w')"
  shows "tracked (s\<lparr>sv_devices := bt_insert (sv_devices s) k p\<rparr>) w'"
  using assms by (auto simp: tracked_def pending_ok_def bt_get_insert bt_has_def)

lemma only_device_insert:
  "bt_ok (sv_devices s) \<Longrightarrow> only_device k s (s\<lparr>sv_devices := bt_insert (sv_devices s) k p\<rparr>)"
  by (simp add: only_device_def bt_get_insert)

lemma bt_ok_tracked: "tracked s w \<Longrightarrow> bt_ok (sv_devices s)"
  by (simp add: tracked_def)

lemma record_of_hidden [simp]: "pub_hidden (record_of d classes) = hidden_of (dev_major d, dev_minor d)"
  by (simp add: record_of_def hidden_of_def)

lemma publish_tracked:
  assumes inv: "tracked s w" and new: "\<not> bt_has (sv_devices s) (dev_major d, dev_minor d)"
    and step: "publish K d classes s w = (r, s', w')"
  shows "tracked s' w' \<and> only_device (dev_major d, dev_minor d) s s'"
proof -
  let ?k = "(dev_major d, dev_minor d)" and ?p = "record_of d classes"
  obtain q wa where q: "attach_device K d w = (q, wa)" by force
  show ?thesis
  proof (cases q)
    case (Inl e)
    with attach_device_nodes [OF q] step q inv show ?thesis
      by (auto simp: publish_def tracked_def)
  next
    case (Inr u)
    then have nodes: "sd_nodes wa = (hidden_of ?k, ?k) # sd_nodes w"
      using attach_device_nodes [OF q] by auto
    have fresh: "(hidden_of ?k, ?k) \<notin> set (sd_nodes w)" using inv new by (simp add: tracked_def)
    define t where "t = s\<lparr>sv_devices := bt_insert (sv_devices s) ?k ?p\<rparr>"
    obtain l wl where l: "publish_links K (pub_hidden ?p) (pub_names ?p) wa = (l, wl)" by force
    have same: "sd_nodes wl = sd_nodes wa" using publish_links_nodes [OF l] .
    have ok: "bt_ok (sv_devices s)" using inv by (rule bt_ok_tracked)
    have t: "tracked t wl" unfolding t_def
      by (rule tracked_insert [OF inv]) (use inv fresh in \<open>auto simp: same nodes tracked_def\<close>)
    have ot: "only_device ?k s t" unfolding t_def by (rule only_device_insert [OF ok])
    show ?thesis
    proof (cases l)
      case None
      then have out: "s' = t\<lparr>sv_devices := bt_insert (sv_devices t) ?k (?p\<lparr>pub_complete := True\<rparr>)\<rparr>" "w' = wl"
        using step q Inr l by (auto simp: publish_def Let_def t_def bt_insert_twice)
      have "tracked s' w'" unfolding out
        by (rule tracked_insert [OF t]) (use t same nodes in \<open>auto simp: tracked_def\<close>)
      then show ?thesis
        using only_device_trans [OF ot only_device_insert] bt_ok_tracked [OF t] by (simp add: out)
    next
      case (Some ne)
      obtain r' where un: "unpublish K ?k t wl = (r', s', w')"
        using step q Inr l Some by (cases ne; cases "unpublish K ?k t wl") (auto simp: publish_def Let_def t_def)
      from unpublish_tracked [OF t un] only_device_trans [OF ot] show ?thesis by blast
    qed
  qed
qed

text \<open>A node stays only when the host has its device with a class of the config, or it is stuck.\<close>

definition wanted :: "device option \<Rightarrow> sv \<Rightarrow> bool" where
  "wanted dev s \<longleftrightarrow> (\<exists>d. dev = Some d \<and> classify d (plan_node_classes (sv_plan s)) \<noteq> [])"

lemma reconcile_node_tracked:
  assumes inv: "tracked s w" and step: "reconcile_node K dev k s w = (r, s', w')"
    and key: "\<And>d. dev = Some d \<Longrightarrow> (dev_major d, dev_minor d) = k"
  shows "tracked s' w' \<and> only_device k s s' \<and>
    (bt_has (sv_devices s') k \<longrightarrow> wanted dev s' \<or> stuck_node k s')"
proof -
  define classes where "classes = (case dev of None \<Rightarrow> [] | Some d \<Rightarrow> classify d (plan_node_classes (sv_plan s)))"
  obtain q t wt where q: "(if incomplete k s then unpublish K k s w else (Inr (), s, w)) = (q, t, wt)"
    by (metis prod.exhaust)
  have t: "tracked t wt \<and> only_device k s t \<and> (q \<noteq> Inr () \<longrightarrow> bt_has (sv_devices t) k \<longrightarrow> stuck_node k t)"
    using q inv unpublish_tracked [OF inv, of K k q t wt] by (auto split: if_splits)
  note step' = step [unfolded reconcile_node_def Let_def classes_def [symmetric] q]
  have wants: "wanted dev u \<longleftrightarrow> dev \<noteq> None \<and> classes \<noteq> []" if "only_device k s u" for u
    using that by (auto simp: wanted_def classes_def only_device_def split: option.splits)
  show ?thesis
  proof (cases q)
    case (Inl e)
    with step' t show ?thesis by auto
  next
    case (Inr u)
    consider (gone) "unpublish K k t wt = (r, s', w')" | (new) d where "dev = Some d" "classes \<noteq> []"
        "\<not> bt_has (sv_devices t) k" "publish K d classes t wt = (r, s', w')"
      | (kept) "dev \<noteq> None" "classes \<noteq> []" "s' = t" "w' = wt"
      | (none) "\<not> bt_has (sv_devices t) k" "s' = t" "w' = wt"
      using step' Inr
      by (cases dev; cases "classes = []"; cases "bt_has (sv_devices t) k") (auto simp: classes_def)
    then show ?thesis
    proof cases
      case gone
      from unpublish_tracked [OF _ this] t only_device_trans show ?thesis by blast
    next
      case new
      from publish_tracked [of t wt d K classes r s' w'] new key t
      have "tracked s' w' \<and> only_device k t s'" by auto
      with t only_device_trans have "tracked s' w' \<and> only_device k s s'" by blast
      with wants new show ?thesis by blast
    qed (use t wants in auto)
  qed
qed

section \<open>All devices\<close>

lemma db_line_key: "dev_major (fst (db_line l x)) = dev_major (fst x) \<and> dev_minor (fst (db_line l x)) = dev_minor (fst x)"
  by (cases x) (simp add: db_line_def Let_def split: option.split prod.split)

lemma fold_db_line_key:
  "dev_major (fst (fold db_line ls x)) = dev_major (fst x) \<and> dev_minor (fst (fold db_line ls x)) = dev_minor (fst x)"
  by (induction ls arbitrary: x) (simp_all add: db_line_key)

lemma read_node_key: "read_node fs h a b = Some d \<Longrightarrow> (dev_major d, dev_minor d) = (a, b)"
  using fold_db_line_key
  by (auto simp: read_node_def Let_def prod_eq_iff split: bind_splits if_splits prod.splits)

lemma read_device_key:
  assumes "read_device n fs h a b = Some (Some d)"
  shows "(dev_major d, dev_minor d) = (a, b)"
proof (cases n)
  case 0
  with assms show ?thesis by simp
next
  case (Suc m)
  with assms obtain e where "read_node fs h a b = Some e" "d = e \<or> (\<exists>g. d = e\<lparr>gamepad_hid := g\<rparr>)"
    by (auto split: option.splits if_splits)
  with read_node_key show ?thesis by auto
qed

text \<open>What the host says of a device, and that the sandbox agrees.\<close>

definition agrees :: "nat \<Rightarrow> dev_fs \<Rightarrow> host_paths \<Rightarrow> sv \<Rightarrow> nat \<times> nat \<Rightarrow> bool" where
  "agrees fuel fs h s k \<longleftrightarrow> bt_has (sv_devices s) k \<longrightarrow>
     (\<exists>dev. read_device fuel fs h (fst k) (snd k) = Some dev \<and> wanted dev s) \<or> stuck_node k s"

lemma reconcile_tracked:
  assumes "tracked s w" and "reconcile fuel fs h K k s w = Some (s', w')"
  shows "tracked s' w' \<and> only_device k s s' \<and> agrees fuel fs h s' k"
proof -
  obtain dev where dev: "read_device fuel fs h (fst k) (snd k) = Some dev"
    and out: "(s', w') = snd (reconcile_node K dev k s w)"
    using assms(2) by (auto simp: reconcile_def)
  obtain r where step: "reconcile_node K dev k s w = (r, s', w')" using out by (metis prod.collapse)
  have "(dev_major d, dev_minor d) = k" if "dev = Some d" for d
    using read_device_key [of fuel fs h "fst k" "snd k" d] dev that by simp
  from reconcile_node_tracked [OF assms(1) step this] dev show ?thesis by (auto simp: agrees_def)
qed

lemma agrees_kept:
  assumes "only_device k s s'" and "k' \<noteq> k"
  shows "agrees fuel fs h s' k' = agrees fuel fs h s k'"
  using assms stuck_node_kept [OF assms] by (simp add: agrees_def wanted_def only_device_def bt_has_def)

lemma reconcile_each_tracked:
  assumes "tracked s w" and "reconcile_each fuel fs h K ks s w = Some (s', w')"
  shows "tracked s' w' \<and> (\<forall>k \<in> set ks. agrees fuel fs h s' k) \<and>
    (\<forall>k. k \<notin> set ks \<longrightarrow> agrees fuel fs h s' k = agrees fuel fs h s k \<and>
       bt_has (sv_devices s') k = bt_has (sv_devices s) k)"
  using assms
proof (induction ks arbitrary: s w)
  case (Cons k ks)
  then obtain t v where step: "reconcile fuel fs h K k s w = Some (t, v)"
    and rest: "reconcile_each fuel fs h K ks t v = Some (s', w')"
    by (auto split: bind_splits)
  note one = reconcile_tracked [OF Cons.prems(1) step]
  note all = Cons.IH [OF _ rest]
  have other: "agrees fuel fs h t k' = agrees fuel fs h s k' \<and> bt_has (sv_devices t) k' = bt_has (sv_devices s) k'"
    if "k' \<noteq> k" for k'
    using one that agrees_kept [of k s t k' fuel fs h] by (auto simp: only_device_def bt_has_def)
  show ?case using one all other by (cases "k \<in> set ks") auto
qed simp

lemma map_fst_has: "k \<in> set (map fst m) \<longleftrightarrow> bt_has m k"
  by (induction m) (auto simp: bt_has_def)

lemma reconcile_all_tracked:
  assumes "tracked s w" and "reconcile_all fuel fs h K s w = Some (s', w')"
  shows "tracked s' w' \<and> agrees fuel fs h s' k"
proof -
  from reconcile_each_tracked [OF assms(1) assms(2) [unfolded reconcile_all_def]]
  have all: "tracked s' w'" "k \<in> set (scan fs h @ map fst (sv_devices s)) \<longrightarrow> agrees fuel fs h s' k"
    "k \<notin> set (scan fs h @ map fst (sv_devices s)) \<longrightarrow> bt_has (sv_devices s') k = bt_has (sv_devices s) k"
    by simp_all
  show ?thesis using all map_fst_has [of k "sv_devices s"] by (auto simp: agrees_def)
qed

text \<open>The sandbox runs: a device event, or the config's classes change and all are reconciled.\<close>

inductive devices_run :: "sv \<Rightarrow> sandbox_dev \<Rightarrow> bool" where
  start: "sv_devices s = [] \<Longrightarrow> sd_nodes w = [] \<Longrightarrow> pending_ok s \<Longrightarrow> devices_run s w"
| event: "devices_run s w \<Longrightarrow> device_event fuel fs h K c s w = Some (s', w') \<Longrightarrow> devices_run s' w'"
| reload: "devices_run s w \<Longrightarrow>
    devices_run (s\<lparr>sv_plan := p, sv_unapplied := sv_unapplied s @ failed,
      sv_pending := reasons @ sv_unapplied s @ failed\<rparr>) w"

lemma devices_run_tracked: "devices_run s w \<Longrightarrow> tracked s w"
proof (induction rule: devices_run.induct)
  case (start s w)
  then show ?case by (simp add: tracked_def bt_has_def)
next
  case (event s w fuel fs h K c s' w')
  note one = reconcile_tracked [OF event.IH, of fuel fs h K _ s' w']
    and all = reconcile_all_tracked [OF event.IH, of fuel fs h K s' w']
  from event.hyps(2) one all show ?case by (cases c) (simp_all add: device_event_def)
next
  case (reload s w p failed reasons)
  then show ?case by (auto simp: tracked_def pending_ok_def)
qed

text \<open>
  C33. Whatever fails, whenever it fails: a device node is attached in the sandbox exactly when
  the supervisor has a record of it, once and at its own hidden name, so that it can always be
  removed; and whatever could not be applied stays among the reasons to restart.
\<close>

theorem nodes_tracked:
  assumes "devices_run s w"
  shows "distinct (sd_nodes w) \<and> set (sv_unapplied s) \<subseteq> set (sv_pending s) \<and>
    (\<forall>h a b. (h, a, b) \<in> set (sd_nodes w) \<longleftrightarrow> h = hidden_name a b \<and> bt_has (sv_devices s) (a, b))"
  using devices_run_tracked [OF assms] by (simp add: tracked_def hidden_of_def pending_ok_def)



section \<open>When nothing fails\<close>

definition steady :: "kernel \<Rightarrow> bool" where
  "steady K \<longleftrightarrow> (\<forall>n. fails_at K n = None)"

lemma publish_links_steady:
  assumes "steady K" and "publish_links K h ns w = (r, w')"
  shows "r = None \<and> (\<forall>n. sd_links w' n = (if n \<in> set ns then Some (link_target n h) else sd_links w n))"
  using assms(2)
proof (induction ns arbitrary: w)
  case (Cons n ns)
  have "publish_link K n (link_target n h) w =
      (Inr (), (advance w)\<lparr>sd_links := (sd_links w)(n \<mapsto> link_target n h)\<rparr>)"
    using assms(1) by (simp add: publish_link_def change_dev_def syscall_def steady_def advance_def)
  with Cons show ?case by auto
qed simp

lemma attach_device_steady:
  assumes "steady K" and "\<And>n. stat_at K n (host_node d) = (True, dev_major d, dev_minor d)"
    and "attach_device K d w = (r, w')"
  shows "r = Inr ()"
  using assms by (auto simp: attach_device_def Let_def syscall_def change_dev_def steady_def split: if_splits)

lemma reconcile_published:
  assumes "tracked s w" and "read_device fuel fs h a b = Some (Some d)"
    and "classify d (plan_node_classes (sv_plan s)) \<noteq> []" and "bt_get (sv_devices s) (a, b) = None"
    and "steady K" and "\<And>n. stat_at K n (host_node d) = (True, a, b)"
    and "reconcile fuel fs h K (a, b) s w = Some (s', w')"
  shows "(hidden_name a b, a, b) \<in> set (sd_nodes w') \<and>
    (\<exists>p. bt_get (sv_devices s') (a, b) = Some p \<and> pub_complete p) \<and>
    (\<forall>n \<in> set (devname d # dev_links d). sd_links w' n = Some (link_target n (hidden_name a b)))"
proof -
  let ?cs = "classify d (plan_node_classes (sv_plan s))" and ?p = "record_of d (classify d (plan_node_classes (sv_plan s)))"
  have key: "dev_major d = a" "dev_minor d = b" using read_device_key [OF assms(2)] by simp_all
  have ok: "bt_ok (sv_devices s)" using assms(1) by (rule bt_ok_tracked)
  obtain wa where a: "attach_device K d w = (Inr (), wa)"
    using attach_device_steady [OF assms(5), of d w] assms(6) key by (metis surj_pair)
  obtain l wl where l: "publish_links K (pub_hidden ?p) (pub_names ?p) wa = (l, wl)" by force
  note links = publish_links_steady [OF assms(5) l]
  have "reconcile_node K (Some d) (a, b) s w = publish K d ?cs s w"
    using assms(3,4) by (simp add: reconcile_node_def incomplete_def Let_def bt_has_def)
  moreover have "snd (publish K d ?cs s w) =
      (s\<lparr>sv_devices := bt_insert (sv_devices s) (a, b) (?p\<lparr>pub_complete := True\<rparr>)\<rparr>, wl)"
    using a l links key by (simp add: publish_def Let_def)
  ultimately have out: "s' = s\<lparr>sv_devices := bt_insert (sv_devices s) (a, b) (?p\<lparr>pub_complete := True\<rparr>)\<rparr>" "w' = wl"
    using assms(2,7) by (auto simp: reconcile_def)
  have "sd_nodes wl = (hidden_name a b, a, b) # sd_nodes w"
    using publish_links_nodes [OF l] attach_device_nodes [OF a] key by (simp add: hidden_of_def)
  then show ?thesis
    using links ok key by (simp add: out bt_get_insert record_of_def)
qed

text \<open>
  C35. When no call fails and the node is the device udev described, a device the config allows
  is published completely: its node attached and all its names linked to it.
\<close>

theorem device_published:
  assumes "devices_run s w" and "read_device fuel fs h a b = Some (Some d)"
    and "classify d (plan_node_classes (sv_plan s)) \<noteq> []" and "bt_get (sv_devices s) (a, b) = None"
    and "steady K" and "\<And>n. stat_at K n (host_node d) = (True, a, b)"
    and "reconcile fuel fs h K (a, b) s w = Some (s', w')"
  shows "(hidden_name a b, a, b) \<in> set (sd_nodes w') \<and>
    (\<exists>p. bt_get (sv_devices s') (a, b) = Some p \<and> pub_complete p) \<and>
    (\<forall>n \<in> set (devname d # dev_links d). sd_links w' n = Some (link_target n (hidden_name a b)))"
  by (rule reconcile_published [OF devices_run_tracked [OF assms(1)] assms(2-7)])

section \<open>An example\<close>

definition gpu_host :: dev_fs where
  "gpu_host = example_dev_fs\<lparr>dev_dir := (\<lambda>p. if p = path_of ''/run/udev/data'' then Some [''c226:128''] else None)\<rparr>"

definition gpu_kernel :: kernel where
  "gpu_kernel = \<lparr> fails_at = (\<lambda>n. None), stat_at = (\<lambda>n p. (True, 226, 128)) \<rparr>"

definition gpu_sv :: sv where
  "gpu_sv = \<lparr> sv_plan = shared_plan\<lparr>plan_node_classes := [Gpu]\<rparr>, sv_clients = 0, sv_mounts = [],
     sv_devices = [], sv_spawned = [], sv_launches = [], sv_next_launch = 0, sv_docs = 0,
     sv_served = False, sv_pending = [], sv_unapplied = [], sv_sockets = [] \<rparr>"

definition empty_dev :: sandbox_dev where
  "empty_dev = \<lparr> sd_clock = 0, sd_nodes = [], sd_points = [], sd_links = Map.empty \<rparr>"

lemma gpu_start: "devices_run gpu_sv empty_dev"
  by (rule devices_run.start) (simp_all add: gpu_sv_def empty_dev_def pending_ok_def)

lemma gpu_read: "read_device 2 gpu_host system_paths 226 128 = Some (Some example_device)"
  by code_simp

lemma gpu_classes: "classify example_device (plan_node_classes (sv_plan gpu_sv)) \<noteq> []"
proof -
  have "classify example_device [Gpu] \<noteq> []" by code_simp
  then show ?thesis by (simp add: gpu_sv_def)
qed

lemma gpu_steady: "steady gpu_kernel" "stat_at gpu_kernel n p = (True, 226, 128)" "bt_get (sv_devices gpu_sv) k = None"
  by (simp_all add: steady_def gpu_kernel_def gpu_sv_def)

lemma gpu_devices: "sv_devices gpu_sv = []"
  by (simp add: gpu_sv_def)

lemma gpu_scan: "scan gpu_host system_paths = [(226, 128)]"
proof -
  have "dec 226 = ''226''" "dec 128 = ''128''" by code_simp+
  then have "parse_db_name ''c226:128'' = Some (226, 128)" using db_name_roundtrip [of 226 128] by simp
  then show ?thesis by (simp add: scan_def gpu_host_def system_paths_def List.map_filter_simps)
qed

lemma gpu_one:
  "\<exists>s w. reconcile 2 gpu_host system_paths gpu_kernel (226, 128) gpu_sv empty_dev = Some (s, w) \<and>
    reconcile_all 2 gpu_host system_paths gpu_kernel gpu_sv empty_dev = Some (s, w) \<and>
    (hidden_name 226 128, 226, 128) \<in> set (sd_nodes w)"
proof -
  obtain s w where step: "reconcile 2 gpu_host system_paths gpu_kernel (226, 128) gpu_sv empty_dev = Some (s, w)"
    by (metis fst_conv gpu_read option.simps(9) reconcile_def snd_conv surj_pair)
  moreover have "reconcile_all 2 gpu_host system_paths gpu_kernel gpu_sv empty_dev = Some (s, w)"
    using step gpu_devices by (simp add: reconcile_all_def gpu_scan)
  ultimately show ?thesis
    using reconcile_published [OF devices_run_tracked [OF gpu_start] gpu_read gpu_classes gpu_steady(3,1,2) step] by blast
qed


theorem nodes_tracked_witness:
  "\<exists>s w. devices_run s w \<and> bt_has (sv_devices s) (226, 128)"
proof -
  obtain s w where step: "reconcile_all 2 gpu_host system_paths gpu_kernel gpu_sv empty_dev = Some (s, w)"
    and nodes: "(hidden_name 226 128, 226, 128) \<in> set (sd_nodes w)"
    using gpu_one by blast
  have run: "devices_run s w"
    by (rule devices_run.event [OF gpu_start, of 2 gpu_host system_paths gpu_kernel Rescan])
      (simp add: device_event_def step)
  from nodes_tracked [OF run] nodes have "bt_has (sv_devices s) (226, 128)" by blast
  with run show ?thesis by blast
qed

theorem device_published_witness:
  "\<exists>s w. reconcile 2 gpu_host system_paths gpu_kernel (226, 128) gpu_sv empty_dev = Some (s, w) \<and>
    sd_links w ''dri/renderD128'' = Some (link_target ''dri/renderD128'' (hidden_name 226 128))"
proof -
  obtain s w where step: "reconcile 2 gpu_host system_paths gpu_kernel (226, 128) gpu_sv empty_dev = Some (s, w)"
    using gpu_one by blast
  from device_published [OF gpu_start gpu_read gpu_classes gpu_steady(3,1,2) step] step show ?thesis
    by (auto simp: example_device_def)
qed

end
