(* ===== verification/Supervisor_Mounts.thy ===== *)
theory Supervisor_Mounts
  imports Supervisor_State "HOL-Library.Multiset"
begin

text \<open>
  The mounts of a running sandbox (\<open>src/src/supervisor.rs\<close>): live mounts, reloading a config,
  re-attached sockets, and where a host path already appears in the sandbox
  (\<open>visible_through\<close>). The kernel's mount table is a list in the order the mounts were made;
  what its calls answer is a parameter, indexed by a clock.
\<close>

section \<open>The mount table\<close>

datatype entry = Plan_Entry plan_mount | Live_Entry live_mount

fun at_of :: "entry \<Rightarrow> path" where
  "at_of (Plan_Entry m) = dst m"
| "at_of (Live_Entry m) = path_of (live_at m)"

text \<open>A mount made later covers everything beneath its place: what a path shows is the last one.\<close>

definition top_at :: "('a \<Rightarrow> path) \<Rightarrow> 'a list \<Rightarrow> path \<Rightarrow> 'a option" where
  "top_at place t p = (let es = filter (\<lambda>e. path_starts_with p (place e)) t in if es = [] then None else Some (last es))"

datatype errno = Enoent | Einval | Errno string

fun strerror :: "errno \<Rightarrow> string" where
  "strerror Enoent = ''No such file or directory (os error 2)''"
| "strerror Einval = ''Invalid argument (os error 22)''"
| "strerror (Errno e) = e"

text \<open>
  Lazily unmounting a path takes the mount whose root is there, and every later one beneath it.
\<close>

fun detach_top :: "path \<Rightarrow> entry list \<Rightarrow> entry list" where
  "detach_top p [] = []"
| "detach_top p (e # t) =
     (if at_of e = p \<and> (\<forall>x \<in> set t. at_of x \<noteq> p) then filter (\<lambda>x. \<not> path_starts_with (at_of x) p) t
      else e # detach_top p t)"

text \<open>
  The kernel's answers: the error of the \<open>n\<close>-th call, and what opening a host path gives
  then, under a guard.
\<close>

datatype source = Source bool | No_Source | Symlink_Source | Source_Error string

record mount_kernel =
  mk_error :: "nat \<Rightarrow> errno option"
  mk_source :: "nat \<Rightarrow> path \<Rightarrow> path option \<Rightarrow> source"

record mount_ns =
  ns_clock :: nat
  ns_table :: "entry list"

definition ns_call :: "mount_kernel \<Rightarrow> (entry list \<Rightarrow> entry list) \<Rightarrow> mount_ns \<Rightarrow> (errno + unit) \<times> mount_ns" where
  "ns_call K f w =
     (let w' = w\<lparr>ns_clock := ns_clock w + 1\<rparr> in
      case mk_error K (ns_clock w) of
        Some e \<Rightarrow> (Inl e, w')
      | None \<Rightarrow> (Inr (), w'\<lparr>ns_table := f (ns_table w)\<rparr>))"

definition ns_attach :: "mount_kernel \<Rightarrow> entry \<Rightarrow> mount_ns \<Rightarrow> (errno + unit) \<times> mount_ns" where
  "ns_attach K e w = ns_call K (\<lambda>t. t @ [e]) w"

definition ns_detach :: "mount_kernel \<Rightarrow> path \<Rightarrow> mount_ns \<Rightarrow> (errno + unit) \<times> mount_ns" where
  "ns_detach K p w =
     (case top_at at_of (ns_table w) p of
        Some e \<Rightarrow> if at_of e = p then ns_call K (detach_top p) w
          else (Inl Einval, w\<lparr>ns_clock := ns_clock w + 1\<rparr>)
      | None \<Rightarrow> (Inl Einval, w\<lparr>ns_clock := ns_clock w + 1\<rparr>))"

definition ns_source :: "mount_kernel \<Rightarrow> path \<Rightarrow> path option \<Rightarrow> mount_ns \<Rightarrow> source \<times> mount_ns" where
  "ns_source K p guard w = (mk_source K (ns_clock w) p guard, w\<lparr>ns_clock := ns_clock w + 1\<rparr>)"

section \<open>Live mounts\<close>

definition context_of :: "string \<Rightarrow> errno + 'a \<Rightarrow> string + 'a" where
  "context_of what r = (case r of Inl e \<Rightarrow> Inl (what @ strerror e) | Inr x \<Rightarrow> Inr x)"

text \<open>The tree of a live mount: its source opened under its guard, cloned, its attributes set.\<close>

definition live_tree :: "mount_kernel \<Rightarrow> plan \<Rightarrow> path \<Rightarrow> mount_ns \<Rightarrow> (string + bool) \<times> mount_ns" where
  "live_tree K p src w = (case ns_source K src (source_guard p src) w of
      (No_Source, w) \<Rightarrow> (Inl ''it doesn't exist'', w)
    | (Symlink_Source, w) \<Rightarrow> (Inl ''it goes through a symlink in a directory the sandbox can write to'', w)
    | (Source_Error e, w) \<Rightarrow> (Inl (''source '' @ show_path src @ '': '' @ e), w)
    | (Source dir, w) \<Rightarrow> (case ns_call K id w of
        (Inl e, w) \<Rightarrow> (Inl (strerror e), w)
      | (Inr _, w) \<Rightarrow> (case ns_call K id w of
        (Inl e, w) \<Rightarrow> (Inl (strerror e), w)
      | (Inr _, w) \<Rightarrow> (Inr dir, w))))"

definition plain_absolute :: "path \<Rightarrow> bool" where
  "plain_absolute p \<longleftrightarrow> is_absolute p \<and> Up \<notin> set p"

definition live_place_ok :: "path \<Rightarrow> bool" where
  "live_place_ok p \<longleftrightarrow> p \<noteq> [Root] \<and> \<not> path_starts_with p (path_of ''/proc'') \<and> \<not> path_starts_with p (path_of ''/dev'')"

definition check_live :: "string \<Rightarrow> string \<Rightarrow> mount_mode \<Rightarrow> string + unit" where
  "check_live src at mode =
     (if mode \<notin> {Read_Only, Read_Write} then Inl ''live mounts are read-only or read-write''
      else if \<not> plain_absolute (path_of src) then Inl (src @ '' must be an absolute path without '' @ squoted ''..'')
      else if \<not> plain_absolute (path_of at) then Inl (at @ '' must be an absolute path without '' @ squoted ''..'')
      else if \<not> live_place_ok (path_of at) then Inl (''cannot mount at '' @ at)
      else Inr ())"

text \<open>Making the mount point is one call here, whose error names the point.\<close>

definition live_mount_at ::
  "mount_kernel \<Rightarrow> string \<Rightarrow> string \<Rightarrow> mount_mode \<Rightarrow> sv \<Rightarrow> mount_ns \<Rightarrow> (string + unit) \<times> sv \<times> mount_ns" where
  "live_mount_at K src at mode s w = (case check_live src at mode of
      Inl e \<Rightarrow> (Inl e, s, w)
    | Inr _ \<Rightarrow> (case live_tree K (sv_plan s) (path_of src) w of
      (Inl e, w) \<Rightarrow> (Inl e, s, w)
    | (Inr dir, w) \<Rightarrow> (case ns_call K id w of
      (Inl e, w) \<Rightarrow> (Inl (strerror e), s, w)
    | (Inr _, w) \<Rightarrow>
        let lm = \<lparr> live_host = src, live_at = at, live_mode = mode \<rparr> in
        (case ns_attach K (Live_Entry lm) w of
          (Inl e, w) \<Rightarrow> (Inl (''attach: '' @ strerror e), s, w)
        | (Inr _, w) \<Rightarrow> (Inr (), s\<lparr>sv_mounts := sv_mounts s @ [lm]\<rparr>, w)))))"

text \<open>The components of the request's path, collected again, are compared with the records' text.\<close>

definition collected :: "string \<Rightarrow> string" where
  "collected at = show_path (path_of at)"

fun remove_first :: "('a \<Rightarrow> bool) \<Rightarrow> 'a list \<Rightarrow> 'a list" where
  "remove_first P [] = []"
| "remove_first P (x # xs) = (if P x then xs else x # remove_first P xs)"

definition umount :: "mount_kernel \<Rightarrow> string \<Rightarrow> sv \<Rightarrow> mount_ns \<Rightarrow> (string + unit) \<times> sv \<times> mount_ns" where
  "umount K at s w =
     (let to = collected at; same = (\<lambda>m. live_at m = to) in
      if \<not> list_ex same (sv_mounts s) then (Inl (to @ '' is not a live mount''), s, w)
      else (case ns_detach K (path_of to) w of
        (Inl e, w) \<Rightarrow> (Inl (''detach: '' @ strerror e), s, w)
      | (Inr _, w) \<Rightarrow> (Inr (), s\<lparr>sv_mounts := remove_first same (sv_mounts s)\<rparr>, w)))"

section \<open>Where a host path already appears\<close>

text \<open>
  The mounts are given as their writable source, if they have one, and their place. A bind
  counts when it is the last mount containing the path it maps to, and the only one at the
  deepest place containing it.
\<close>

type_synonym seen_mount = "path option \<times> path"

definition containing :: "seen_mount list \<Rightarrow> path \<Rightarrow> (nat \<times> nat) list" where
  "containing ms p = map (\<lambda>(i, m). (i, length (snd m)))
     (filter (\<lambda>(i, m). path_starts_with p (snd m)) (enumerate 0 ms))"

definition top_mount :: "seen_mount list \<Rightarrow> path \<Rightarrow> nat option" where
  "top_mount ms p = (case containing ms p of
      [] \<Rightarrow> None
    | cs \<Rightarrow> let (i, depth) = last cs
        in if list_all (\<lambda>c. snd c \<le> depth) cs \<and> length (filter (\<lambda>c. snd c = depth) cs) = 1
           then Some i else None)"

definition mapped :: "seen_mount list \<Rightarrow> path \<Rightarrow> nat \<times> seen_mount \<Rightarrow> (nat \<times> path) option" where
  "mapped ms h im = (case fst (snd im) of
      None \<Rightarrow> None
    | Some src \<Rightarrow> Option.bind (strip_path h src) (\<lambda>rel.
        let p = path_join (snd (snd im)) rel
        in if top_mount ms p = Some (fst im) then Some (length src, p) else None))"

definition visible_through :: "seen_mount list \<Rightarrow> path \<Rightarrow> path option" where
  "visible_through ms h = map_option snd (max_by fst (List.map_filter (mapped ms h) (enumerate 0 ms)))"

definition seen_plan :: "plan_mount \<Rightarrow> seen_mount" where
  "seen_plan m = (case m of Bind src d False _ \<Rightarrow> (Some src, d) | _ \<Rightarrow> (None, dst m))"

definition seen_live :: "live_mount \<Rightarrow> seen_mount" where
  "seen_live m = (if live_mode m = Read_Write then Some (path_of (live_host m)) else None, path_of (live_at m))"

definition visible_at :: "sv \<Rightarrow> path \<Rightarrow> path option" where
  "visible_at s h = visible_through (map seen_plan (plan_mounts (sv_plan s)) @ map seen_live (sv_mounts s)) h"

text \<open>The place a file dialog's answer is mounted at, when it is not visible yet.\<close>

definition doc_path :: "plan \<Rightarrow> nat \<Rightarrow> string \<Rightarrow> path" where
  "doc_path p n f = plan_runtime_dir p @ [Normal ''doc'', Normal (dec n), Normal f]"

text \<open>\<open>exists\<close> says whether the path is there, \<open>made\<close> what creating it answers.\<close>

definition expose ::
  "mount_kernel \<Rightarrow> (path \<Rightarrow> bool) \<Rightarrow> (path \<Rightarrow> string option) \<Rightarrow> path \<Rightarrow> bool \<Rightarrow> sv \<Rightarrow> mount_ns \<Rightarrow>
     (string + path) \<times> sv \<times> mount_ns" where
  "expose K present made h create s w =
     (case (if create \<and> \<not> present h then made h else None) of
        Some e \<Rightarrow> (Inl e, s, w)
      | None \<Rightarrow> (case visible_at s h of
          Some p \<Rightarrow> (Inr p, s, w)
        | None \<Rightarrow>
            let s = s\<lparr>sv_docs := sv_docs s + 1\<rparr>
            in case file_name h of
              None \<Rightarrow> (Inl ''path has no file name'', s, w)
            | Some f \<Rightarrow>
                let at = doc_path (sv_plan s) (sv_docs s) f
                in case live_mount_at K (show_path h) (show_path at) Read_Write s w of
                  (Inl e, s, w) \<Rightarrow> (Inl e, s, w)
                | (Inr _, s, w) \<Rightarrow> (Inr at, s, w)))"

section \<open>Reloading a config\<close>

text \<open>
  The detached tree of a plan mount; \<open>Inr None\<close> when an optional source is missing.
\<close>

definition open_planned ::
  "mount_kernel \<Rightarrow> plan \<Rightarrow> path \<Rightarrow> bool \<Rightarrow> mount_ns \<Rightarrow> (string + bool option) \<times> mount_ns" where
  "open_planned K p src optional w = (case ns_source K src (source_guard p src) w of
      (Source dir, w) \<Rightarrow> (Inr (Some dir), w)
    | (No_Source, w) \<Rightarrow> if optional then (Inr None, w)
        else (Inl (''source '' @ show_path src @ '': '' @ strerror Enoent), w)
    | (Symlink_Source, w) \<Rightarrow>
        (Inl (''source '' @ show_path src @ '': Too many levels of symbolic links (os error 40)''), w)
    | (Source_Error e, w) \<Rightarrow> (Inl (''source '' @ show_path src @ '': '' @ e), w))"

fun calls :: "mount_kernel \<Rightarrow> nat \<Rightarrow> mount_ns \<Rightarrow> (string + unit) \<times> mount_ns" where
  "calls K 0 w = (Inr (), w)"
| "calls K (Suc n) w = (case ns_call K id w of
      (Inl e, w) \<Rightarrow> (Inl (strerror e), w) | (Inr _, w) \<Rightarrow> calls K n w)"

definition after_calls :: "mount_kernel \<Rightarrow> nat \<Rightarrow> 'a \<Rightarrow> mount_ns \<Rightarrow> (string + 'a) \<times> mount_ns" where
  "after_calls K n x w = (case calls K n w of (Inl e, w) \<Rightarrow> (Inl e, w) | (Inr _, w) \<Rightarrow> (Inr x, w))"

definition prepare_plan_mount ::
  "mount_kernel \<Rightarrow> plan \<Rightarrow> plan_mount \<Rightarrow> mount_ns \<Rightarrow> (string + bool) \<times> mount_ns" where
  "prepare_plan_mount K p m w = (case m of
      Bind src _ _ optional \<Rightarrow> (case open_planned K p src optional w of
          (Inl e, w) \<Rightarrow> (Inl e, w)
        | (Inr None, w) \<Rightarrow> (Inr False, w)
        | (Inr (Some _), w) \<Rightarrow> after_calls K 3 True w)
    | Tmpfs _ _ \<Rightarrow> after_calls K 1 True w
    | Overlay_Mount lower _ optional \<Rightarrow> (case open_planned K p lower optional w of
          (Inl e, w) \<Rightarrow> (Inl e, w)
        | (Inr None, w) \<Rightarrow> (Inr False, w)
        | (Inr (Some _), w) \<Rightarrow> after_calls K 1 True w)
    | _ \<Rightarrow> (Inl (''cannot attach '' @ show_path (dst m) @ '' live''), w))"

definition place_mount :: "mount_kernel \<Rightarrow> plan_mount \<Rightarrow> mount_ns \<Rightarrow> (string + unit) \<times> mount_ns" where
  "place_mount K m w = (case ns_call K id w of
      (Inl e, w) \<Rightarrow> (Inl (strerror e), w)
    | (Inr _, w) \<Rightarrow> (case ns_attach K (Plan_Entry m) w of
      (Inl e, w) \<Rightarrow> (Inl (''attach '' @ show_path (dst m) @ '': '' @ strerror e), w)
    | (Inr _, w) \<Rightarrow> (Inr (), w)))"

definition forwarded_socket :: "path \<Rightarrow> plan_mount \<Rightarrow> path option" where
  "forwarded_socket runtime m = (case m of
      Bind src _ _ _ \<Rightarrow> if path_starts_with src runtime then Some src else None | _ \<Rightarrow> None)"

definition never_attached :: "plan_mount \<Rightarrow> errno \<Rightarrow> bool" where
  "never_attached m e \<longleftrightarrow> (case m of Bind _ _ _ opt \<Rightarrow> opt | _ \<Rightarrow> False) \<and> e \<in> {Enoent, Einval}"

definition drop_socket :: "plan_mount \<Rightarrow> sv \<Rightarrow> sv" where
  "drop_socket m s = s\<lparr>sv_sockets := filter (\<lambda>d. d \<noteq> dst m) (sv_sockets s)\<rparr>"

definition add_socket :: "plan_mount \<Rightarrow> sv \<Rightarrow> sv" where
  "add_socket m s = (if dst m \<in> set (sv_sockets s) then s else s\<lparr>sv_sockets := dst m # sv_sockets s\<rparr>)"

text \<open>The trees of the new mounts, before anything is detached: the first failure stops.\<close>

fun prepare_all ::
  "mount_kernel \<Rightarrow> plan \<Rightarrow> plan_mount list \<Rightarrow> mount_ns \<Rightarrow> (string + (plan_mount \<times> bool) list) \<times> mount_ns" where
  "prepare_all K p [] w = (Inr [], w)"
| "prepare_all K p (m # ms) w = (case prepare_plan_mount K p m w of
      (Inl e, w) \<Rightarrow> (Inl e, w)
    | (Inr b, w) \<Rightarrow> (case prepare_all K p ms w of
        (Inl e, w) \<Rightarrow> (Inl e, w) | (Inr xs, w) \<Rightarrow> (Inr ((m, b) # xs), w)))"

text \<open>What could not be detached or attached is collected.\<close>

fun detach_each ::
  "mount_kernel \<Rightarrow> plan_mount list \<Rightarrow> sv \<Rightarrow> mount_ns \<Rightarrow> string list \<times> sv \<times> mount_ns" where
  "detach_each K [] s w = ([], s, w)"
| "detach_each K (m # ms) s w = (case ns_detach K (dst m) w of
      (Inl e, w) \<Rightarrow>
        if never_attached m e then detach_each K ms (drop_socket m s) w
        else (case detach_each K ms s w of (failed, s, w) \<Rightarrow> (mount_reason m # failed, s, w))
    | (Inr _, w) \<Rightarrow> detach_each K ms (drop_socket m s) w)"

fun place_each ::
  "mount_kernel \<Rightarrow> path \<Rightarrow> (plan_mount \<times> bool) list \<Rightarrow> sv \<Rightarrow> mount_ns \<Rightarrow> string list \<times> sv \<times> mount_ns" where
  "place_each K rt [] s w = ([], s, w)"
| "place_each K rt ((m, prepared) # ms) s w =
     (if \<not> prepared then place_each K rt ms s w
      else case place_mount K m w of
        (Inl e, w) \<Rightarrow> (case place_each K rt ms s w of (failed, s, w) \<Rightarrow> (mount_reason m # failed, s, w))
      | (Inr _, w) \<Rightarrow> place_each K rt ms (if forwarded_socket rt m \<noteq> None then add_socket m s else s) w)"

fun remount_each ::
  "mount_kernel \<Rightarrow> live_mount list \<Rightarrow> sv \<Rightarrow> mount_ns \<Rightarrow> sv \<times> mount_ns" where
  "remount_each K [] s w = (s, w)"
| "remount_each K (m # ms) s w =
     (case live_mount_at K (live_host m) (live_at m) (live_mode m) s w of (_, s, w) \<Rightarrow> remount_each K ms s w)"

text \<open>Live mounts beneath what was detached or attached: they went with it, or are covered by it.\<close>

definition lost_mount :: "change \<Rightarrow> live_mount \<Rightarrow> bool" where
  "lost_mount c lm \<longleftrightarrow> list_ex (\<lambda>m. path_starts_with (path_of (live_at lm)) (dst m)) (detach c @ attach c)"

definition apply_mounts ::
  "mount_kernel \<Rightarrow> path \<Rightarrow> plan \<Rightarrow> change \<Rightarrow> (plan_mount \<times> bool) list \<Rightarrow> sv \<Rightarrow> mount_ns \<Rightarrow> sv \<times> mount_ns" where
  "apply_mounts K rt new c prepared s w =
     (let (gone, s, w) = detach_each K (detach c) s w;
          (unplaced, s, w) = place_each K rt prepared s w;
          lost = filter (lost_mount c) (sv_mounts s);
          s = s\<lparr>sv_plan := new, sv_mounts := filter (\<lambda>lm. \<not> lost_mount c lm) (sv_mounts s)\<rparr>;
          (s, w) = remount_each K lost s w;
          unapplied = sv_unapplied s @ gone @ unplaced
      in (s\<lparr>sv_unapplied := unapplied, sv_pending := unapplied\<rparr>, w))"

text \<open>
  Applying a plan built from the reloaded config: \<open>ready\<close> makes its directories and runs
  the preflight. The last component says whether the device classes changed.
\<close>

definition apply_plan ::
  "mount_kernel \<Rightarrow> path \<Rightarrow> (plan \<Rightarrow> string option) \<Rightarrow> plan \<Rightarrow> sv \<Rightarrow> mount_ns \<Rightarrow> (string + bool) \<times> sv \<times> mount_ns" where
  "apply_plan K rt ready new s w = (case ready new of
      Some e \<Rightarrow> (Inl e, s, w)
    | None \<Rightarrow>
        let old = sv_plan s; c = diff old new in
        if restart c \<noteq> [] then (Inr False, s\<lparr>sv_pending := restart c @ sv_unapplied s\<rparr>, w)
        else (case prepare_all K new (attach c) w of
          (Inl e, w) \<Rightarrow> (Inl e, s, w)
        | (Inr prepared, w) \<Rightarrow>
            (case apply_mounts K rt new c prepared s w of
              (s, w) \<Rightarrow> (Inr (plan_node_classes old \<noteq> plan_node_classes new), s, w))))"

definition apply_config ::
  "mount_kernel \<Rightarrow> identity \<Rightarrow> host_env \<Rightarrow> (plan \<Rightarrow> string option) \<Rightarrow> spec \<Rightarrow> sv \<Rightarrow> mount_ns \<Rightarrow>
     (string + bool) \<times> sv \<times> mount_ns" where
  "apply_config K i h ready spec s w = (case build i spec h of
      Inl e \<Rightarrow> (Inl e, s, w)
    | Inr new \<Rightarrow> apply_plan K (env_runtime_dir h) ready new s w)"

text \<open>What the running sandbox can write of the host: no file its config reads may be in it.\<close>

definition writable_now :: "sv \<Rightarrow> path list" where
  "writable_now s =
     List.map_filter (\<lambda>m. case m of Bind src _ False _ \<Rightarrow> Some src | _ \<Rightarrow> None) (plan_mounts (sv_plan s))
     @ map (\<lambda>m. path_of (live_host m)) (filter (\<lambda>m. live_mode m = Read_Write) (sv_mounts s))"

section \<open>What a path shows\<close>

lemma top_at_append: "top_at place (t @ [e]) p = (if path_starts_with p (place e) then Some e else top_at place t p)"
  by (simp add: top_at_def Let_def)

lemma top_at_Some: "top_at place t p = Some e \<Longrightarrow> e \<in> set t \<and> path_starts_with p (place e)"
proof -
  assume "top_at place t p = Some e"
  then have "filter (\<lambda>e. path_starts_with p (place e)) t \<noteq> []"
    "last (filter (\<lambda>e. path_starts_with p (place e)) t) = e"
    by (auto simp: top_at_def Let_def split: if_splits)
  then have "e \<in> set (filter (\<lambda>e. path_starts_with p (place e)) t)" using last_in_set by fastforce
  then show ?thesis by simp
qed

text \<open>A host path is shown at a sandbox path when the mount seen there maps it there.\<close>

definition shows_host :: "seen_mount list \<Rightarrow> path \<Rightarrow> path \<Rightarrow> bool" where
  "shows_host ms q h = (case top_at snd ms q of
      Some (Some src, d) \<Rightarrow> (case strip_path h src of Some rel \<Rightarrow> q = path_join d rel | None \<Rightarrow> False)
    | _ \<Rightarrow> False)"

text \<open>An order of mounting in which no mount comes after one whose place is inside its own.\<close>

definition nested_order :: "seen_mount list \<Rightarrow> bool" where
  "nested_order ms \<longleftrightarrow> sorted_wrt (\<lambda>a b. \<not> strict_prefix (snd b) (snd a)) ms"

lemma filter_enumerate: "map snd (filter (\<lambda>(i, m). P m) (enumerate n xs)) = filter P xs"
  by (induction xs arbitrary: n) simp_all

lemma top_mount_Some:
  assumes "top_mount ms q = Some i"
  defines "C \<equiv> filter (\<lambda>m. path_starts_with q (snd m)) ms"
  shows "i < length ms \<and> C \<noteq> [] \<and> last C = ms ! i \<and> (\<forall>c \<in> set C. length (snd c) \<le> length (snd (ms ! i))) \<and>
    length (filter (\<lambda>c. length (snd c) = length (snd (ms ! i))) C) = 1"
proof -
  define E where "E = filter (\<lambda>(i, m). path_starts_with q (snd m)) (enumerate 0 ms)"
  have C: "map snd E = C" by (simp add: E_def C_def filter_enumerate)
  have cont: "containing ms q = map (\<lambda>(i, m). (i, length (snd m))) E"
    by (simp add: containing_def E_def)
  then have E: "E \<noteq> []" using assms(1) by (auto simp: top_mount_def)
  obtain j m where last: "last E = (j, m)" by (cases "last E")
  have "(j, m) \<in> set (enumerate 0 ms)" using last_in_set [OF E] last by (simp add: E_def)
  then have nth: "j < length ms" "ms ! j = m" by (auto simp: in_set_enumerate_eq)
  have depths: "map snd (containing ms q) = map (\<lambda>c. length (snd c)) C"
    by (simp add: cont C [symmetric] split_def)
  have lastC: "last C = m" using E last by (simp add: C [symmetric] last_map)
  have lc: "last (containing ms q) = (j, length (snd m))" "containing ms q \<noteq> []"
    using E last by (simp_all add: cont last_map)
  have cond: "list_all (\<lambda>c. snd c \<le> length (snd m)) (containing ms q)"
    "length (filter (\<lambda>c. snd c = length (snd m)) (containing ms q)) = 1" "i = j"
    using assms(1) lc by (auto simp: top_mount_def Let_def split: list.splits if_splits)
  have "\<forall>d \<in> set (map snd (containing ms q)). d \<le> length (snd m)"
    using cond(1) by (auto simp: list_all_iff)
  then have all: "\<forall>c \<in> set C. length (snd c) \<le> length (snd m)" by (simp add: depths)
  have "length (filter (\<lambda>d. d = length (snd m)) (map snd (containing ms q))) = 1"
    using cond(2) by (simp add: filter_map comp_def)
  then have "length (filter (\<lambda>c. length (snd c) = length (snd m)) C) = 1"
    by (simp add: depths filter_map comp_def)
  with all E nth lastC cond(3) C show ?thesis by auto
qed

lemma visible_through_Some:
  assumes "visible_through ms h = Some q"
  shows "\<exists>i src. i < length ms \<and> fst (ms ! i) = Some src \<and> top_mount ms q = Some i \<and>
    (\<exists>rel. strip_path h src = Some rel \<and> q = path_join (snd (ms ! i)) rel)"
proof -
  obtain d where "max_by fst (List.map_filter (mapped ms h) (enumerate 0 ms)) = Some (d, q)"
    using assms by (auto simp: visible_through_def)
  from max_by_Some [OF this] obtain i m where im: "(i, m) \<in> set (enumerate 0 ms)" "mapped ms h (i, m) = Some (d, q)"
    by (auto simp: map_filter_set)
  then have "i < length ms" "ms ! i = m" by (auto simp: in_set_enumerate_eq)
  with im(2) show ?thesis
    by (auto simp: mapped_def Let_def split: option.splits bind_splits if_splits)
qed

text \<open>
  C36. A sandbox path handed out for a host path (to a file dialog) shows that very path: the
  mount seen there is a bind that maps the one to the other. That holds for the mounts in the
  listed order, and in any other order in which no mount came after one inside its place.
\<close>

theorem visible_path_shows:
  assumes "visible_through ms h = Some q"
  shows "shows_host ms q h \<and> (\<forall>ms'. mset ms' = mset ms \<longrightarrow> nested_order ms' \<longrightarrow> shows_host ms' q h)"
proof -
  obtain i src rel where i: "i < length ms" "fst (ms ! i) = Some src" "top_mount ms q = Some i"
    and rel: "strip_path h src = Some rel" "q = path_join (snd (ms ! i)) rel"
    using visible_through_Some [OF assms] by blast
  define m where "m = ms ! i"
  define C where "C = filter (\<lambda>m. path_starts_with q (snd m)) ms"
  have C: "C \<noteq> []" "last C = m" "\<forall>c \<in> set C. length (snd c) \<le> length (snd m)"
    "length (filter (\<lambda>c. length (snd c) = length (snd m)) C) = 1"
    using top_mount_Some [OF i(3)] unfolding C_def m_def by blast+
  have shows_m: "shows_host ms' q h" if "top_at snd ms' q = Some m" for ms'
    using that i(2) rel by (cases m) (simp add: shows_host_def m_def)
  have "shows_host ms' q h" if perm: "mset ms' = mset ms" and nested: "nested_order ms'" for ms'
  proof (rule shows_m)
    define D where "D = filter (\<lambda>m. path_starts_with q (snd m)) ms'"
    have mD: "mset D = mset C" by (simp add: D_def C_def perm mset_filter)
    then have setD: "set D = set C" by (rule mset_eq_setD)
    have D: "D \<noteq> []" using C(1) mD by auto
    have one: "length (filter (\<lambda>c. length (snd c) = length (snd m)) D) = 1"
      using C(4) mD by (metis mset_filter size_mset)
    have sorted: "sorted_wrt (\<lambda>a b. \<not> strict_prefix (snd b) (snd a)) D"
      using nested by (simp add: D_def nested_order_def sorted_wrt_filter)
    have "last D = m"
    proof (rule ccontr)
      assume other: "last D \<noteq> m"
      have D': "D = butlast D @ [last D]" using D by simp
      have inD: "m \<in> set D" using C(1,2) setD last_in_set [of C] by auto
      then have m: "m \<in> set D" "m \<in> set (butlast D)"
        using other arg_cong [OF D', of set] by auto
      have "\<not> strict_prefix (snd (last D)) (snd m)"
        using sorted m(2) by (subst (asm) D') (simp add: sorted_wrt_append)
      moreover have pre: "prefix (snd (last D)) q" "prefix (snd m) q"
        using last_in_set [OF D] m(1) by (simp_all add: D_def)
      have "length (snd (last D)) \<le> length (snd m)" using C(3) last_in_set [OF D] setD by simp
      ultimately have same: "length (snd (last D)) = length (snd m)"
        using pre by (metis le_neq_implies_less nat_less_le prefix_length_prefix prefix_order.less_le)
      have "filter (\<lambda>c. length (snd c) = length (snd m)) (butlast D) \<noteq> []"
        using m(2) by (auto simp: filter_empty_conv)
      moreover have "filter (\<lambda>c. length (snd c) = length (snd m)) (butlast D @ [last D])
          = filter (\<lambda>c. length (snd c) = length (snd m)) (butlast D) @ [last D]"
        using same by (simp only: filter_append) simp
      ultimately show False using one by (simp only: D' [symmetric]) simp
    qed
    then show "top_at snd ms' q = Some m" using D by (simp add: top_at_def Let_def D_def)
  qed
  moreover have "top_at snd ms q = Some m"
    using C(1,2) by (simp add: top_at_def Let_def C_def)
  ultimately show ?thesis using shows_m by blast
qed

definition dialog_mounts :: "seen_mount list" where
  "dialog_mounts =
     [(Some (path_of ''/home/u/Sandbox/app''), path_of ''/home/u''),
      (Some (path_of ''/home/u/Downloads''), path_of ''/home/u/Downloads''),
      (None, path_of ''/home/u/Downloads/private'')]"

theorem visible_path_shows_witness:
  "shows_host dialog_mounts (path_of ''/home/u/Downloads/a.pdf'') (path_of ''/home/u/Downloads/a.pdf'')"
proof -
  have "visible_through dialog_mounts (path_of ''/home/u/Downloads/a.pdf'') = Some (path_of ''/home/u/Downloads/a.pdf'')"
    by code_simp
  from visible_path_shows [OF this] show ?thesis by blast
qed

section \<open>Recorded live mounts are what the sandbox sees\<close>

abbreviation place_of :: "live_mount \<Rightarrow> path" where
  "place_of lm \<equiv> path_of (live_at lm)"

definition apart :: "path \<Rightarrow> path \<Rightarrow> bool" where
  "apart p q \<longleftrightarrow> \<not> prefix p q \<and> \<not> prefix q p"

definition live_ok :: "sv \<Rightarrow> mount_ns \<Rightarrow> bool" where
  "live_ok s w \<longleftrightarrow> sorted_wrt (\<lambda>a b. apart (place_of a) (place_of b)) (sv_mounts s) \<and>
     (\<forall>lm \<in> set (sv_mounts s). top_at at_of (ns_table w) (place_of lm) = Some (Live_Entry lm) \<and>
        check_live (live_host lm) (live_at lm) (live_mode lm) = Inr ())"

lemma ns_call_table:
  "ns_call K f w = (r, w') \<Longrightarrow> ns_table w' = (if r = Inr () then f (ns_table w) else ns_table w)"
  by (auto simp: ns_call_def Let_def split: option.splits)

lemma ns_attach_table:
  "ns_attach K e w = (r, w') \<Longrightarrow> ns_table w' = (if r = Inr () then ns_table w @ [e] else ns_table w)"
  unfolding ns_attach_def by (rule ns_call_table)

lemma live_tree_table: "live_tree K p src w = (r, w') \<Longrightarrow> ns_table w' = ns_table w"
  by (auto simp: live_tree_def ns_source_def dest!: ns_call_table split: source.splits prod.splits sum.splits)

lemma calls_table: "calls K n w = (r, w') \<Longrightarrow> ns_table w' = ns_table w"
  by (induction n arbitrary: w) (auto dest!: ns_call_table split: prod.splits sum.splits)

lemma after_calls_table: "after_calls K n x w = (r, w') \<Longrightarrow> ns_table w' = ns_table w"
  by (auto simp: after_calls_def dest!: calls_table split: prod.splits sum.splits)

lemma open_planned_table: "open_planned K p src opt w = (r, w') \<Longrightarrow> ns_table w' = ns_table w"
  by (auto simp: open_planned_def ns_source_def split: source.splits if_splits)

lemma prepare_plan_mount_table: "prepare_plan_mount K p m w = (r, w') \<Longrightarrow> ns_table w' = ns_table w"
  by (auto simp: prepare_plan_mount_def dest!: open_planned_table after_calls_table
      split: plan_mount.splits prod.splits sum.splits option.splits)

lemma prepare_all_table:
  "prepare_all K p ms w = (r, w') \<Longrightarrow> ns_table w' = ns_table w \<and> (\<forall>xs. r = Inr xs \<longrightarrow> map fst xs = ms)"
  by (induction ms arbitrary: w r) (fastforce dest!: prepare_plan_mount_table split: prod.splits sum.splits)+

text \<open>Detaching a place leaves what other paths show, unless they are beneath it.\<close>

lemma filter_detach_top:
  assumes "\<not> prefix p q"
  shows "filter (\<lambda>e. prefix (at_of e) q) (detach_top p t) = filter (\<lambda>e. prefix (at_of e) q) t"
proof (induction t)
  case (Cons e t)
  have "filter (\<lambda>e. prefix (at_of e) q) (filter (\<lambda>x. \<not> prefix p (at_of x)) t) = filter (\<lambda>e. prefix (at_of e) q) t"
    using assms by (auto simp: filter_filter intro!: filter_cong dest: prefix_order.trans)
  with Cons assms show ?case by auto
qed simp

lemma top_at_detach:
  assumes "ns_detach K p w = (r, w')" and "\<not> prefix p q"
  shows "top_at at_of (ns_table w') q = top_at at_of (ns_table w) q"
  using assms
  by (auto simp: ns_detach_def top_at_def filter_detach_top dest!: ns_call_table split: option.splits if_splits)

lemma top_at_attach:
  assumes "ns_attach K e w = (r, w')" and "\<not> prefix (at_of e) q"
  shows "top_at at_of (ns_table w') q = top_at at_of (ns_table w) q"
  using ns_attach_table [OF assms(1)] assms(2) by (simp add: top_at_append)

lemma live_mount_at_cases:
  assumes "live_mount_at K src at mode s w = (r, s', w')"
  obtains (failed) e where "r = Inl e" "s' = s" "ns_table w' = ns_table w"
  | (made) "r = Inr ()" "check_live src at mode = Inr ()"
      "s' = s\<lparr>sv_mounts := sv_mounts s @ [\<lparr> live_host = src, live_at = at, live_mode = mode \<rparr>]\<rparr>"
      "ns_table w' = ns_table w @ [Live_Entry \<lparr> live_host = src, live_at = at, live_mode = mode \<rparr>]"
proof (cases "check_live src at mode")
  case (Inl e)
  with assms have "r = Inl e" "s' = s" "ns_table w' = ns_table w" by (auto simp: live_mount_at_def)
  then show ?thesis by (rule that(1))
next
  case (Inr u)
  with assms that show ?thesis
    by (auto simp: live_mount_at_def Let_def dest!: live_tree_table ns_attach_table ns_call_table
        split: sum.splits prod.splits)
qed

lemma live_mount_at_ok:
  assumes ok: "live_ok s w" and apart: "\<forall>lm \<in> set (sv_mounts s). apart (place_of lm) (path_of at)"
    and step: "live_mount_at K src at mode s w = (r, s', w')"
  shows "live_ok s' w'"
  using step
proof (cases rule: live_mount_at_cases)
  case failed
  with ok show ?thesis by (simp add: live_ok_def)
next
  case made
  with ok apart show ?thesis
    by (auto simp: live_ok_def top_at_append sorted_wrt_append apart_def)
qed


lemma remove_first_set: "set (remove_first P xs) \<subseteq> set xs"
  by (induction xs) auto

lemma remove_first_split:
  "list_ex P xs \<Longrightarrow> \<exists>us x vs. xs = us @ x # vs \<and> P x \<and> remove_first P xs = us @ vs"
proof (induction xs)
  case (Cons x xs)
  show ?case
  proof (cases "P x")
    case True
    then show ?thesis by (intro exI [of _ "[]"]) simp
  next
    case False
    with Cons obtain us y vs where "xs = us @ y # vs" "P y" "remove_first P xs = us @ vs" by auto
    with False show ?thesis by (intro exI [of _ "x # us"]) auto
  qed
qed simp

lemma umount_ok:
  assumes ok: "live_ok s w" and step: "umount K at s w = (r, s', w')"
  shows "live_ok s' w'"
proof (cases "list_ex (\<lambda>m. live_at m = collected at) (sv_mounts s)")
  case False
  with ok step show ?thesis by (simp add: umount_def)
next
  case True
  obtain q wd where q: "ns_detach K (path_of (collected at)) w = (q, wd)" by force
  show ?thesis
  proof (cases q)
    case (Inl e)
    then have "ns_table wd = ns_table w"
      using q by (auto simp: ns_detach_def dest!: ns_call_table split: option.splits if_splits)
    with ok step q Inl True show ?thesis by (simp add: umount_def Let_def live_ok_def)
  next
    case (Inr u)
    obtain us x vs where parts: "sv_mounts s = us @ x # vs" "live_at x = collected at"
      "remove_first (\<lambda>m. live_at m = collected at) (sv_mounts s) = us @ vs"
      using remove_first_split [OF True] by blast
    have out: "s' = s\<lparr>sv_mounts := us @ vs\<rparr>" "w' = wd"
      using step q Inr True by (auto simp: umount_def Let_def parts(3))
    have "apart (place_of x) (place_of lm)" if "lm \<in> set us \<union> set vs" for lm
      using ok that by (auto simp: live_ok_def parts(1) sorted_wrt_append apart_def)
    then have "top_at at_of (ns_table wd) (place_of lm) = top_at at_of (ns_table w) (place_of lm)"
      if "lm \<in> set us \<union> set vs" for lm
      using that top_at_detach [OF q] parts(2) by (auto simp: apart_def)
    with ok show ?thesis by (auto simp: live_ok_def out parts(1) sorted_wrt_append)
  qed
qed

lemma detach_each_kept:
  assumes "detach_each K ms s w = (f, s', w')"
  shows "sv_mounts s' = sv_mounts s \<and> sv_unapplied s' = sv_unapplied s \<and>
    ((\<forall>m \<in> set ms. \<not> prefix (dst m) q) \<longrightarrow> top_at at_of (ns_table w') q = top_at at_of (ns_table w) q)"
  using assms
  by (induction ms arbitrary: s w f)
    (fastforce simp: drop_socket_def dest: top_at_detach split: sum.splits prod.splits if_splits)+

lemma place_mount_kept:
  assumes "place_mount K m w = (r, w')" and "\<not> prefix (dst m) q"
  shows "top_at at_of (ns_table w') q = top_at at_of (ns_table w) q"
  using assms
  by (auto simp: place_mount_def top_at_append dest!: ns_call_table ns_attach_table split: sum.splits prod.splits)

lemma place_each_kept:
  assumes "place_each K rt ms s w = (f, s', w')"
  shows "sv_mounts s' = sv_mounts s \<and> sv_unapplied s' = sv_unapplied s \<and>
    ((\<forall>m \<in> fst ` set ms. \<not> prefix (dst m) q) \<longrightarrow> top_at at_of (ns_table w') q = top_at at_of (ns_table w) q)"
  using assms
  by (induction ms arbitrary: s w f)
    (fastforce simp: add_socket_def dest: place_mount_kept split: sum.splits prod.splits if_splits)+

lemma remount_each_ok:
  assumes "live_ok s w" and "remount_each K ms s w = (s', w')"
    and "sorted_wrt (\<lambda>a b. apart (place_of a) (place_of b)) (sv_mounts s @ ms)"
  shows "live_ok s' w' \<and> sv_unapplied s' = sv_unapplied s"
  using assms
proof (induction ms arbitrary: s w)
  case (Cons m ms)
  obtain r t v where m: "live_mount_at K (live_host m) (live_at m) (live_mode m) s w = (r, t, v)"
    by (metis prod.exhaust)
  have t: "live_ok t v"
    using live_mount_at_ok [OF Cons.prems(1) _ m] Cons.prems(3) by (auto simp: sorted_wrt_append)
  have rest: "remount_each K ms t v = (s', w')" using Cons.prems(2) m by simp
  from m show ?case
  proof (cases rule: live_mount_at_cases)
    case failed
    with Cons.IH [OF t rest] Cons.prems(3) show ?thesis by (simp add: sorted_wrt_append)
  next
    case made
    with Cons.IH [OF t rest] Cons.prems(3) show ?thesis by (simp add: sorted_wrt_append)
  qed
qed simp

lemma sorted_wrt_filter_app:
  assumes "sorted_wrt P xs" and "\<And>x y. P x y \<Longrightarrow> P y x"
  shows "sorted_wrt P (filter (\<lambda>x. \<not> Q x) xs @ filter Q xs)"
  using assms(1) by (induction xs) (auto simp: sorted_wrt_append intro: assms(2))

lemma apply_mounts_ok:
  assumes ok: "live_ok s w" and prepared: "map fst prepared = attach c"
    and step: "apply_mounts K rt new c prepared s w = (s', w')"
  shows "live_ok s' w'"
proof -
  obtain gone sa wa where a: "detach_each K (detach c) s w = (gone, sa, wa)" by (metis prod.exhaust)
  obtain unplaced sb wb where b: "place_each K rt prepared sa wa = (unplaced, sb, wb)" by (metis prod.exhaust)
  define sc where "sc = sb\<lparr>sv_plan := new, sv_mounts := filter (\<lambda>lm. \<not> lost_mount c lm) (sv_mounts sb)\<rparr>"
  obtain sd wd where d: "remount_each K (filter (lost_mount c) (sv_mounts sb)) sc wb = (sd, wd)" by (metis prod.exhaust)
  have out: "sv_mounts s' = sv_mounts sd" "w' = wd"
    using step by (auto simp: apply_mounts_def Let_def a b sc_def [symmetric] d)
  have same: "sv_mounts sb = sv_mounts s"
    using detach_each_kept [OF a] place_each_kept [OF b] by simp
  have places: "fst ` set prepared = set (attach c)" using prepared by (metis set_map)
  have "top_at at_of (ns_table wb) (place_of lm) = top_at at_of (ns_table w) (place_of lm)"
    if "\<not> lost_mount c lm" for lm
    using that detach_each_kept [OF a, of "place_of lm"] place_each_kept [OF b, of "place_of lm"] places
    by (auto simp: lost_mount_def list_ex_iff)
  moreover have "sorted_wrt (\<lambda>a b. apart (place_of a) (place_of b)) (sv_mounts s)"
    using ok by (simp add: live_ok_def)
  ultimately have "live_ok sc wb"
    using ok by (auto simp: live_ok_def sc_def same sorted_wrt_filter)
  moreover have "sorted_wrt (\<lambda>a b. apart (place_of a) (place_of b))
      (sv_mounts sc @ filter (lost_mount c) (sv_mounts sb))"
    using ok unfolding sc_def same live_ok_def by (auto intro!: sorted_wrt_filter_app simp: apart_def)
  ultimately have "live_ok sd wd" using remount_each_ok [OF _ d] by blast
  then show ?thesis by (simp add: live_ok_def out)
qed

lemma apply_plan_ok:
  assumes "live_ok s w" and "apply_plan K rt ready new s w = (r, s', w')"
  shows "live_ok s' w'"
proof -
  obtain q wp where q: "prepare_all K new (attach (diff (sv_plan s) new)) w = (q, wp)" by force
  note table = prepare_all_table [OF q]
  then have ok: "live_ok s wp" using assms(1) by (simp add: live_ok_def)
  show ?thesis
    using assms q table apply_mounts_ok [OF ok]
    by (auto simp: apply_plan_def Let_def live_ok_def split: option.splits if_splits sum.splits prod.splits)
qed

text \<open>
  A sandbox's live mounts over time: a live mount (or a file dialog's) at a place of its own,
  an unmount, a reload, and anything else that leaves the records and the table alone.
\<close>

inductive mounts_run :: "sv \<Rightarrow> mount_ns \<Rightarrow> bool" where
  start: "sv_mounts s = [] \<Longrightarrow> mounts_run s w"
| mount: "mounts_run s w \<Longrightarrow> live_mount_at K src at mode s w = (r, s', w') \<Longrightarrow>
    (\<forall>lm \<in> set (sv_mounts s). apart (place_of lm) (path_of at)) \<Longrightarrow> mounts_run s' w'"
| unmount: "mounts_run s w \<Longrightarrow> umount K at s w = (r, s', w') \<Longrightarrow> mounts_run s' w'"
| reload: "mounts_run s w \<Longrightarrow> apply_plan K rt ready new s w = (r, s', w') \<Longrightarrow> mounts_run s' w'"
| other: "mounts_run s w \<Longrightarrow> sv_mounts s' = sv_mounts s \<Longrightarrow> ns_table w' = ns_table w \<Longrightarrow> mounts_run s' w'"

lemma mounts_run_ok: "mounts_run s w \<Longrightarrow> live_ok s w"
proof (induction rule: mounts_run.induct)
  case (start s w)
  then show ?case by (simp add: live_ok_def)
next
  case (other s w s' w')
  then show ?case by (simp add: live_ok_def)
qed (blast intro: live_mount_at_ok umount_ok apply_plan_ok)+



section \<open>What unmounting misses\<close>

text \<open>
  The three lemmas below state behaviour that is surely not meant. First: a live mount keeps
  the place as the request wrote it, but an unmount looks for the place written normally, so
  one made at \<open>/a/b/\<close> is not found under that name.
\<close>

lemma umount_misses_spelling:
  assumes "live_mount_at K src at mode s w = (Inr (), s', w')" and "collected at \<noteq> at"
    and "\<forall>lm \<in> set (sv_mounts s). live_at lm \<noteq> collected at"
  shows "umount K at s' w' = (Inl (collected at @ '' is not a live mount''), s', w')"
  using assms(1)
proof (cases rule: live_mount_at_cases)
  case made
  with assms(2,3) show ?thesis by (auto simp: umount_def Let_def list_ex_iff)
qed simp

lemma detach_top_last:
  "at_of e = p \<Longrightarrow> \<forall>x \<in> set ys. at_of x \<noteq> p \<Longrightarrow>
     detach_top p (xs @ e # ys) = xs @ filter (\<lambda>x. \<not> prefix p (at_of x)) ys"
  by (induction xs) auto

lemma ns_call_steady:
  "\<forall>n. mk_error K n = None \<Longrightarrow>
     ns_call K f v = (Inr (), v\<lparr>ns_clock := ns_clock v + 1, ns_table := f (ns_table v)\<rparr>)"
  by (simp add: ns_call_def)

lemma trailing_slash: "collected ''/a/b/'' = ''/a/b''"
  by code_simp

text \<open>
  Second: of two live mounts at one place, the kernel unmounts the later, the record removed is
  the earlier one's. The sandbox keeps the first mount and psbox believes it has the second,
  also when it asks what the sandbox can write.
\<close>

lemma umount_drops_older:
  assumes "sv_mounts s = [a, b]" and "live_at a = p" and "live_at b = p" and "collected p = p"
    and "ns_table w = t @ [Live_Entry a, Live_Entry b]" and "\<forall>n. mk_error K n = None"
  shows "\<exists>s' w'. umount K p s w = (Inr (), s', w') \<and> sv_mounts s' = [b] \<and>
    top_at at_of (ns_table w') (path_of p) = Some (Live_Entry a)"
proof -
  have "detach_top (path_of p) (ns_table w) = t @ [Live_Entry a]"
    using detach_top_last [of "Live_Entry b" "path_of p" "[]" "t @ [Live_Entry a]"] assms(3,5) by simp
  then show ?thesis
    using assms by (simp add: umount_def Let_def ns_detach_def ns_call_steady top_at_def)
qed

text \<open>
  Third: a share attached above a live mount hides the mount that was there, which is made
  again on top. When the user unmounts it, only the new one goes, and when the share goes too,
  the hidden one is back, with no record of it.
\<close>

lemma unmounted_reappears:
  fixes m :: plan_mount and lm :: live_mount and rt :: path
  assumes s: "sv_mounts s = [lm]" and w: "ns_table w = t @ [Live_Entry lm]" and K: "\<forall>n. mk_error K n = None"
    and src: "\<forall>n g. mk_source K n (path_of (live_host lm)) g = Source True"
    and lm: "check_live (live_host lm) (live_at lm) (live_mode lm) = Inr ()" "collected (live_at lm) = live_at lm"
    and m: "prefix (dst m) (place_of lm)" "dst m \<noteq> place_of lm"
  shows "\<exists>s1 w1 s2 w2 s3 w3.
    apply_mounts K rt with_m \<lparr> restart = [], detach = [], attach = [m] \<rparr> [(m, True)] s w = (s1, w1) \<and>
    umount K (live_at lm) s1 w1 = (Inr (), s2, w2) \<and>
    apply_mounts K rt without_m \<lparr> restart = [], detach = [m], attach = [] \<rparr> [] s2 w2 = (s3, w3) \<and>
    sv_mounts s3 = [] \<and> top_at at_of (ns_table w3) (place_of lm) = Some (Live_Entry lm)"
proof -
  let ?L = "Live_Entry lm" and ?M = "Plan_Entry m"
  let ?add = "\<lparr> restart = [], detach = [], attach = [m] \<rparr>" and ?drop = "\<lparr> restart = [], detach = [m], attach = [] \<rparr>"
  note steady = ns_call_steady [OF K]
  have eta: "\<lparr> live_host = live_host lm, live_at = live_at lm, live_mode = live_mode lm \<rparr> = lm" by simp
  have made: "\<exists>u. live_mount_at K (live_host lm) (live_at lm) (live_mode lm) r v
      = (Inr (), r\<lparr>sv_mounts := sv_mounts r @ [lm]\<rparr>, u) \<and> ns_table u = ns_table v @ [?L]" for r v
    using lm(1) src by (simp add: live_mount_at_def live_tree_def ns_source_def ns_attach_def steady eta Let_def)
  obtain s1 w1 where one: "apply_mounts K rt with_m ?add [(m, True)] s w = (s1, w1)" by force
  have lost: "lost_mount ?add lm" "lost_mount ?drop lm" using m(1) by (simp_all add: lost_mount_def)
  obtain sp wp where placed: "place_each K rt [(m, True)] s w = ([], sp, wp)" "sv_mounts sp = [lm]"
    "ns_table wp = t @ [?L, ?M]"
    using s w by (simp add: place_mount_def ns_attach_def steady add_socket_def)
  obtain u where u: "live_mount_at K (live_host lm) (live_at lm) (live_mode lm)
      (sp\<lparr>sv_plan := with_m, sv_mounts := []\<rparr>) wp = (Inr (), sp\<lparr>sv_plan := with_m, sv_mounts := [lm]\<rparr>, u)"
    "ns_table u = t @ [?L, ?M, ?L]"
    using made [of "sp\<lparr>sv_plan := with_m, sv_mounts := []\<rparr>" wp] placed(3) by auto
  have s1: "sv_mounts s1 = [lm]" "ns_table w1 = t @ [?L, ?M, ?L]"
    using one placed u lost(1) by (auto simp: apply_mounts_def Let_def)
  have top: "top_at at_of (ns_table w1) (place_of lm) = Some ?L"
    using top_at_append [of at_of "t @ [?L, ?M]" ?L "place_of lm"] s1(2) by simp
  obtain r s2 w2 where two: "umount K (live_at lm) s1 w1 = (r, s2, w2)" by (metis prod.exhaust)
  have "detach_top (place_of lm) (ns_table w1) = t @ [?L, ?M]"
    using detach_top_last [of ?L "place_of lm" "[]" "t @ [?L, ?M]"] s1(2) by simp
  then have s2: "r = Inr ()" "sv_mounts s2 = []" "ns_table w2 = t @ [?L, ?M]"
    using two s1(1) lm(2) by (auto simp: umount_def Let_def ns_detach_def steady top)
  have top2: "top_at at_of (ns_table w2) (dst m) = Some ?M"
    using top_at_append [of at_of "t @ [?L]" ?M "dst m"] s2(3) by simp
  obtain s3 w3 where three: "apply_mounts K rt without_m ?drop [] s2 w2 = (s3, w3)" by force
  have "detach_top (dst m) (ns_table w2) = t @ [?L]"
    using detach_top_last [of ?M "dst m" "[]" "t @ [?L]"] s2(3) by simp
  then have "sv_mounts s3 = []" "ns_table w3 = t @ [?L]"
    using three s2(2) by (auto simp: apply_mounts_def Let_def ns_detach_def steady top2 drop_socket_def)
  moreover from this(2) have "top_at at_of (ns_table w3) (place_of lm) = Some ?L"
    using top_at_append [of at_of t ?L "place_of lm"] by simp
  ultimately show ?thesis using one two s2(1) three by blast
qed

section \<open>An example\<close>

definition calm_kernel :: mount_kernel where
  "calm_kernel = \<lparr> mk_error = (\<lambda>n. None), mk_source = (\<lambda>n p g. Source True) \<rparr>"

definition quiet_sv :: "plan \<Rightarrow> sv" where
  "quiet_sv p = \<lparr> sv_plan = p, sv_clients = 0, sv_mounts = [], sv_devices = [], sv_spawned = [],
     sv_launches = [], sv_next_launch = 0, sv_docs = 0, sv_served = False, sv_pending = [],
     sv_unapplied = [], sv_sockets = [] \<rparr>"

lemma movies_mounted:
  "\<exists>s w. live_mount_at calm_kernel ''/srv/m'' ''/mnt/m'' Read_Only (quiet_sv p) \<lparr> ns_clock = 0, ns_table = [] \<rparr>
     = (Inr (), s, w) \<and> sv_mounts s = [\<lparr> live_host = ''/srv/m'', live_at = ''/mnt/m'', live_mode = Read_Only \<rparr>]"
proof -
  have "check_live ''/srv/m'' ''/mnt/m'' Read_Only = Inr ()" by code_simp
  then show ?thesis
    by (simp add: live_mount_at_def live_tree_def ns_source_def ns_attach_def ns_call_def calm_kernel_def
        quiet_sv_def Let_def)
qed


end
