(* ===== verification/Supervisor_Launches.thy ===== *)
theory Supervisor_Launches
  imports Supervisor_State
begin

text \<open>
  Launches and their cgroups (\<open>src/src/sys/cgroup.rs\<close>, and of \<open>src/src/supervisor.rs\<close> the
  records \<open>serve_spawn\<close> keeps, \<open>remove_finished_launches\<close>, \<open>watch_idle\<close> and the
  gateway's \<open>identity\<close>). What the kernel does with processes is a step relation: a process
  starts in its launch's cgroup, its children stay there, and a cgroup with a process cannot
  be removed.
\<close>

section \<open>Cgroups\<close>

record cgroups =
  cg_supervisor :: path
  cg_infra :: path
  cg_init :: path
  cg_bus :: path
  cg_display :: path
  cg_connector :: path
  cg_workload :: path

definition cgroups_under :: "path \<Rightarrow> cgroups" where
  "cgroups_under base =
     (let infra = base @ [Normal ''infra''] in
      \<lparr> cg_supervisor = base @ [Normal ''supervisor''], cg_infra = infra, cg_init = infra @ [Normal ''init''],
        cg_bus = infra @ [Normal ''bus''], cg_display = infra @ [Normal ''display''],
        cg_connector = infra @ [Normal ''connector''], cg_workload = base @ [Normal ''workload''] \<rparr>)"

text \<open>The base from \<open>/proc/self/cgroup\<close>; a supervisor already inside is refused.\<close>

definition own_cgroup :: "string \<Rightarrow> string + path" where
  "own_cgroup own = (case find_map (strip_prefix ''0::'') (lines own) of
      None \<Rightarrow> Inl ''no cgroup v2 entry in /proc/self/cgroup''
    | Some rel \<Rightarrow>
        let base = path_join (path_of ''/sys/fs/cgroup'') (path_of (trim_start_matches ''/'' rel))
        in if file_name base = Some ''supervisor''
           then Inl (''already inside a psbox supervisor cgroup: '' @ show_path base) else Inr base)"

definition launch_dir :: "cgroups \<Rightarrow> nat \<Rightarrow> path" where
  "launch_dir cg n = cg_workload cg @ [Normal (''launch-'' @ dec n)]"

definition parse_u64 :: "string \<Rightarrow> nat option" where
  "parse_u64 = parse_unsigned 10 18446744073709551616"

definition launch_of :: "cgroups \<Rightarrow> path \<Rightarrow> nat option" where
  "launch_of cg p = Option.bind (strip_path p (cg_workload cg)) (\<lambda>rest. case rest of
      Normal s # _ \<Rightarrow> Option.bind (strip_prefix ''launch-'' s) parse_u64
    | _ \<Rightarrow> None)"

text \<open>The fields of a mount line, and whether cgroup v2 is mounted with \<open>nsdelegate\<close>.\<close>

definition nsdelegate_in :: "string \<Rightarrow> string + bool" where
  "nsdelegate_in mounts =
     (case find (\<lambda>f. 4 \<le> length f \<and> f ! 1 = ''/sys/fs/cgroup'' \<and> f ! 2 = ''cgroup2'')
             (map split_whitespace (lines mounts)) of
        Some f \<Rightarrow> Inr (''nsdelegate'' \<in> set (split_on (CHR '','') (f ! 3)))
      | None \<Rightarrow> Inl ''cgroup v2 is not mounted at /sys/fs/cgroup'')"

text \<open>A process's cgroup from \<open>/proc/<pid>/cgroup\<close>, when it is still the process asked about.\<close>

definition pid_of_fdinfo :: "string \<Rightarrow> nat option" where
  "pid_of_fdinfo info = Option.bind (find_map (strip_prefix ''Pid:'') (lines info)) (\<lambda>s.
     Option.bind (parse_unsigned 10 2147483648 (trim s)) (\<lambda>pid. if 0 < pid then Some pid else None))"

definition process_cgroup :: "string option \<Rightarrow> (nat \<Rightarrow> string option) \<Rightarrow> string option \<Rightarrow> path option" where
  "process_cgroup info cgroup_file info' = do {
     pid \<leftarrow> Option.bind info pid_of_fdinfo;
     t \<leftarrow> cgroup_file pid;
     rel \<leftarrow> find_map (strip_prefix ''0::'') (lines t);
     if Option.bind info' pid_of_fdinfo = Some pid
       then Some (path_join (path_of ''/sys/fs/cgroup'') (path_of (trim_start_matches ''/'' rel))) else None
   }"

section \<open>The records of launches\<close>

definition client_came :: "sv \<Rightarrow> sv" where
  "client_came s = s\<lparr>sv_clients := sv_clients s + 1, sv_served := True\<rparr>"

definition client_left :: "sv \<Rightarrow> sv" where
  "client_left s = s\<lparr>sv_clients := sv_clients s - 1\<rparr>"

definition record_launch :: "string option \<Rightarrow> sv \<Rightarrow> nat \<times> sv" where
  "record_launch i s =
     (let n = sv_next_launch s + 1 in
      (n, s\<lparr>sv_next_launch := n,
            sv_launches := bt_insert (sv_launches s) n \<lparr> launch_identity = i, launch_started = False \<rparr>\<rparr>))"

definition launch_failed :: "nat \<Rightarrow> sv \<Rightarrow> sv" where
  "launch_failed n s = s\<lparr>sv_launches := bt_remove (sv_launches s) n\<rparr>"

definition launch_began :: "nat \<Rightarrow> nat \<Rightarrow> string \<Rightarrow> sv \<Rightarrow> sv" where
  "launch_began n pid label s =
     s\<lparr>sv_spawned := bt_insert (sv_spawned s) pid label,
       sv_launches := (case bt_get (sv_launches s) n of
          Some l \<Rightarrow> bt_insert (sv_launches s) n (l\<lparr>launch_started := True\<rparr>) | None \<Rightarrow> sv_launches s)\<rparr>"

definition launch_exited :: "nat \<Rightarrow> sv \<Rightarrow> sv" where
  "launch_exited pid s = s\<lparr>sv_spawned := bt_remove (sv_spawned s) pid\<rparr>"

text \<open>
  A launch is over when its first process has started and its cgroup is empty; its record goes
  with the cgroup, or with an error other than a process still in it.
\<close>

datatype removal = Group_Removed | Group_Busy | Group_Error

definition finished_launches :: "(nat \<Rightarrow> bool) \<Rightarrow> sv \<Rightarrow> nat list" where
  "finished_launches populated s = map fst (filter (\<lambda>(n, l). launch_started l \<and> \<not> populated n) (sv_launches s))"

definition remove_finished_launches :: "(nat \<Rightarrow> bool) \<Rightarrow> (nat \<Rightarrow> removal) \<Rightarrow> sv \<Rightarrow> sv" where
  "remove_finished_launches populated rm s =
     fold (\<lambda>n s. if rm n = Group_Busy then s else s\<lparr>sv_launches := bt_remove (sv_launches s) n\<rparr>)
       (finished_launches populated s) s"

text \<open>The portal identity of a connecting process, by its cgroup.\<close>

definition host_identity :: "cgroups \<Rightarrow> string option \<Rightarrow> sv \<Rightarrow> path \<Rightarrow> string option" where
  "host_identity cg bus_identity s p = (case launch_of cg p of
      Some n \<Rightarrow> Option.bind (bt_get (sv_launches s) n) launch_identity
    | None \<Rightarrow> if path_starts_with p (cg_bus cg) then bus_identity else None)"

section \<open>Stopping when idle\<close>

definition UNSERVED_TIMEOUT :: nat where "UNSERVED_TIMEOUT = 10"

text \<open>
  What the watch sees each second: the time since it started, and whether the workload has a
  process. It stops the sandbox, or goes on with the time since which it has been idle.
\<close>

datatype watch = Stop_Unserved | Stop_Pending "string list" | Stop_Idle | Watch "nat option"

definition watch_idle :: "nat \<Rightarrow> bool \<Rightarrow> sv \<Rightarrow> nat option \<Rightarrow> watch" where
  "watch_idle now populated s since =
     (let timeout = unat (plan_idle_timeout (sv_plan s)) in
      if timeout = 0 \<and> \<not> sv_served s
      then (if sv_clients s = 0 \<and> UNSERVED_TIMEOUT \<le> now then Stop_Unserved else Watch since)
      else if 0 < sv_clients s \<or> populated then Watch None
      else if sv_pending s \<noteq> [] then Stop_Pending (sv_pending s)
      else let t = (case since of Some t \<Rightarrow> t | None \<Rightarrow> now)
           in if timeout \<le> now - t then Stop_Idle else Watch (Some t))"

fun watch_all :: "(nat \<times> bool \<times> sv) list \<Rightarrow> nat option \<Rightarrow> watch" where
  "watch_all [] since = Watch since"
| "watch_all ((now, populated, s) # obs) since = (case watch_idle now populated s since of
      Watch since \<Rightarrow> watch_all obs since | stop \<Rightarrow> stop)"

section \<open>A launch's cgroup names it\<close>

lemma launch_of_dir:
  assumes "n < 18446744073709551616"
  shows "launch_of cg (launch_dir cg n @ rest) = Some n"
  using assms
  by (simp add: launch_of_def launch_dir_def strip_path_def parse_u64_def parse_dec
      strip_prefix_append [of "''launch-''", simplified])

text \<open>
  The workload: the processes, each in the cgroup of its launch (or below), and what was decided
  when each launch started.
\<close>

record workload =
  wl_procs :: "(nat \<times> nat) list"
  wl_decided :: "nat \<Rightarrow> string option"

definition populated_in :: "workload \<Rightarrow> nat \<Rightarrow> bool" where
  "populated_in w n \<longleftrightarrow> n \<in> snd ` set (wl_procs w)"

inductive launches_run :: "sv \<Rightarrow> workload \<Rightarrow> bool" where
  start: "sv_launches s = [] \<Longrightarrow> wl_procs w = [] \<Longrightarrow> launches_run s w"
| recorded: "launches_run s w \<Longrightarrow> record_launch i s = (n, s') \<Longrightarrow>
    launches_run s' (w\<lparr>wl_decided := (wl_decided w)(n := i)\<rparr>)"
| clone: "launches_run s w \<Longrightarrow> bt_get (sv_launches s) n = Some l \<Longrightarrow> \<not> launch_started l \<Longrightarrow>
    launches_run s (w\<lparr>wl_procs := (pid, n) # wl_procs w\<rparr>)"
| began: "launches_run s w \<Longrightarrow> launches_run (launch_began n pid label s) w"
| failed: "launches_run s w \<Longrightarrow> \<not> populated_in w n \<Longrightarrow> launches_run (launch_failed n s) w"
| fork: "launches_run s w \<Longrightarrow> (pid, n) \<in> set (wl_procs w) \<Longrightarrow>
    launches_run s (w\<lparr>wl_procs := (pid', n) # wl_procs w\<rparr>)"
| ends: "launches_run s w \<Longrightarrow> launches_run s (w\<lparr>wl_procs := remove1 e (wl_procs w)\<rparr>)"
| sweep: "launches_run s w \<Longrightarrow> launches_run (remove_finished_launches (populated_in w) rm s) w"
| other: "launches_run s w \<Longrightarrow> sv_launches s' = sv_launches s \<Longrightarrow> sv_next_launch s' = sv_next_launch s \<Longrightarrow>
    launches_run s' w"

definition launches_ok :: "sv \<Rightarrow> workload \<Rightarrow> bool" where
  "launches_ok s w \<longleftrightarrow> bt_ok (sv_launches s) \<and>
     (\<forall>n l. bt_get (sv_launches s) n = Some l \<longrightarrow> n \<le> sv_next_launch s \<and> launch_identity l = wl_decided w n) \<and>
     (\<forall>e \<in> set (wl_procs w). bt_has (sv_launches s) (snd e))"

lemma fold_remove_get:
  "bt_get (sv_launches (fold (\<lambda>n s. if P n then s else s\<lparr>sv_launches := bt_remove (sv_launches s) n\<rparr>) ns s)) k
     = (if k \<in> set ns \<and> \<not> P k then None else bt_get (sv_launches s) k)"
  by (induction ns arbitrary: s) (auto simp: bt_get_remove)

lemma fold_remove_rest:
  defines "f \<equiv> \<lambda>P n s. if P n then s else s\<lparr>sv_launches := bt_remove (sv_launches s) n\<rparr>"
  shows "sv_next_launch (fold (f P) ns s) = sv_next_launch s \<and>
    (bt_ok (sv_launches s) \<longrightarrow> bt_ok (sv_launches (fold (f P) ns s)))"
  by (induction ns arbitrary: s) (auto simp: f_def)

lemma swept_get:
  "bt_ok (sv_launches s) \<Longrightarrow> bt_get (sv_launches (remove_finished_launches populated rm s)) k =
     (case bt_get (sv_launches s) k of
        Some l \<Rightarrow> if launch_started l \<and> \<not> populated k \<and> rm k \<noteq> Group_Busy then None else Some l
      | None \<Rightarrow> None)"
  by (auto simp: remove_finished_launches_def fold_remove_get finished_launches_def image_iff
      bt_get_mem [symmetric] split: option.split)

lemma swept_rest:
  "sv_next_launch (remove_finished_launches populated rm s) = sv_next_launch s \<and>
    (bt_ok (sv_launches s) \<longrightarrow> bt_ok (sv_launches (remove_finished_launches populated rm s)))"
  unfolding remove_finished_launches_def by (rule fold_remove_rest)

lemma launches_run_ok: "launches_run s w \<Longrightarrow> launches_ok s w"
proof (induction rule: launches_run.induct)
  case (recorded s w i n s')
  have fresh: "\<not> bt_has (sv_launches s) n"
  proof (cases "bt_get (sv_launches s) n")
    case (Some l)
    with recorded have "n \<le> sv_next_launch s" by (simp add: launches_ok_def)
    with recorded(2) show ?thesis by (auto simp: record_launch_def Let_def)
  qed (simp add: bt_has_def)
  with recorded show ?case
    by (auto simp: launches_ok_def record_launch_def Let_def bt_get_insert bt_has_def split: if_splits)
      fastforce+
next
  case (sweep s w rm)
  then show ?case
    by (auto simp: launches_ok_def swept_get swept_rest bt_has_def populated_in_def image_iff
        split: option.splits)
qed (auto simp: launches_ok_def bt_has_def launch_began_def launch_failed_def bt_get_insert bt_get_remove
    populated_in_def image_iff split: option.splits dest: notin_set_remove1)




section \<open>An idle sandbox stops\<close>

text \<open>The sandbox is stopped only without clients, and without a process or before any was asked for.\<close>

lemma watch_stops_only_idle:
  assumes "watch_all obs since = r" and "\<And>t. r \<noteq> Watch t"
  shows "\<exists>(now, populated, s) \<in> set obs. sv_clients s = 0 \<and> (populated \<longrightarrow> \<not> sv_served s)"
  using assms
proof (induction obs arbitrary: since)
  case (Cons x obs)
  obtain now populated s where x: "x = (now, populated, s)" by (cases x)
  show ?case
  proof (cases "watch_idle now populated s since")
    case (Watch t)
    with Cons x show ?thesis by auto
  qed (auto simp: x watch_idle_def Let_def split: if_splits option.splits)
qed auto

definition idle_at :: "nat \<Rightarrow> nat \<times> bool \<times> sv \<Rightarrow> bool" where
  "idle_at timeout o1 = (case o1 of (now, populated, s) \<Rightarrow> sv_clients s = 0 \<and> \<not> populated \<and>
     unat (plan_idle_timeout (sv_plan s)) = timeout \<and> (timeout = 0 \<longrightarrow> sv_served s))"

lemma watch_idle_since:
  assumes "\<forall>x \<in> set obs. idle_at timeout x" and "\<exists>x \<in> set obs. t0 + timeout \<le> fst x"
  shows "watch_all obs (Some t0) = Stop_Idle \<or> (\<exists>rs. watch_all obs (Some t0) = Stop_Pending rs)"
  using assms
proof (induction obs)
  case (Cons x obs)
  obtain now populated s where x: "x = (now, populated, s)" by (cases x)
  with Cons show ?case by (auto simp: idle_at_def watch_idle_def Let_def)
qed simp

text \<open>
  C39. A sandbox that stays idle is stopped: no client and no process for the idle timeout, and
  for tasks (whose timeout is zero) a process served before; at once when a change waits for a
  restart.
\<close>

theorem idle_stops:
  assumes "\<forall>x \<in> set (first # obs). idle_at timeout x"
    and "\<exists>x \<in> set (first # obs). fst first + timeout \<le> fst x"
  shows "watch_all (first # obs) None = Stop_Idle \<or> (\<exists>rs. watch_all (first # obs) None = Stop_Pending rs)"
proof -
  obtain now populated s where first: "first = (now, populated, s)" by (cases first)
  have "watch_all (first # obs) None = watch_all (first # obs) (Some now)"
    using assms(1) by (auto simp: first idle_at_def watch_idle_def)
  with watch_idle_since [OF assms(1), of now] assms(2) first show ?thesis by simp
qed

definition task_sv :: "plan \<Rightarrow> sv" where
  "task_sv p = \<lparr>sv_plan = p\<lparr>plan_idle_timeout := 0\<rparr>, sv_clients = 0, sv_mounts = [], sv_devices = [],
     sv_spawned = [], sv_launches = [], sv_next_launch = 2, sv_docs = 0, sv_served = True,
     sv_pending = [], sv_unapplied = [], sv_sockets = []\<rparr>"

theorem idle_stops_witness: "watch_all [(3, False, task_sv shared_plan)] None = Stop_Idle"
  using idle_stops [of "(3, False, task_sv shared_plan)" "[]" 0]
  by (auto simp: idle_at_def watch_idle_def task_sv_def Let_def)

end
