(* ===== verification/Gateway_Client.thy ===== *)
theory Gateway_Client
  imports Portal Dbus_Conn Btree
begin

text \<open>
  \<open>src/src/gateway.rs\<close>, one client: what the gateway keeps for a client of the private bus
  (its host connection, the calls waiting for a reply, its portal registration) and each step of
  its threads, one function for each stretch of code under one lock. \<open>Gateway\<close> runs the threads.
  The log of messages put on the host connection and the log of those put on the private bus
  stand for the two sockets; a send on the private bus always succeeds (when it fails the bus of
  the sandbox is gone, and the gateway's threads end). A hash map is an ordered map, a hash set
  a list without order.
\<close>

section \<open>State\<close>

datatype via = Via_Portal | Via_Talk nat

type_synonym call = "message \<times> fd list \<times> via"

record gw_pending =
  pd_caller :: u32
  pd_file :: "file_request option"
  pd_via :: via
  pd_opens :: bool

record portal_state =
  ps_app_id :: "string option"
  ps_owner :: "string option"
  ps_registering :: "u32 option"
  ps_draining :: bool
  ps_held :: "call list"

text \<open>
  \<open>cl_serial\<close> is the serial counter of the host connection, \<open>cl_closed\<close> that it was shut down;
  \<open>cl_sent\<close> keeps with each message the call it forwards, none for a registration and a refusal.
\<close>

record gw_client =
  cl_name :: string
  cl_private_seg :: string
  cl_host_seg :: string
  cl_pending :: "(u32, gw_pending) btree"
  cl_files :: "(string, file_request) btree"
  cl_opens :: "string list"
  cl_gone :: bool
  cl_owners :: "(string, string) btree"
  cl_portal :: portal_state
  cl_serial :: u32
  cl_closed :: bool
  cl_sent :: "(u32 \<times> call option \<times> message) list"
  cl_private :: "(via \<times> message) list"

text \<open>
  What is outside the client: the names of \<open>dbus.talk\<close>, the portal connection's unique name, the
  introspection of a connection without identity (an asset), the text of a refusal (it quotes a
  scheme with Rust's debug format) and of a failed send, and what \<open>Host::expose\<close> returns.
\<close>

record gw_env =
  ge_talk :: "string list"
  ge_unique :: string
  ge_introspection :: string
  ge_reason :: "reason \<Rightarrow> string"
  ge_failure :: string
  ge_expose :: "byte list \<Rightarrow> bool \<Rightarrow> byte list option"

abbreviation failed_name :: string where "failed_name \<equiv> ''org.freedesktop.DBus.Error.Failed''"

text \<open>
  \<open>None\<close> is the panic of \<^const>\<open>encode_body\<close> on an ill-formed array. The bodies built here have
  none (\<open>register_built\<close>, \<open>error_reply_built\<close>, \<open>rewrite_paths_args\<close>, \<open>forwarded_args_encode\<close>); the
  message is kept as it was.
\<close>

definition or_keep :: "message \<Rightarrow> message option \<Rightarrow> message" where
  "or_keep m r = (case r of None \<Rightarrow> m | Some m' \<Rightarrow> m')"

section \<open>Messages of the gateway\<close>

definition REGISTRY_IFACE :: string where "REGISTRY_IFACE = ''org.freedesktop.host.portal.Registry''"
definition OPEN_URI_IFACE :: string where "OPEN_URI_IFACE = ''org.freedesktop.portal.OpenURI''"

definition register_msg :: "string \<Rightarrow> message option" where
  "register_msg app_id =
     method_call PORTAL_NAME PORTAL_PATH REGISTRY_IFACE ''Register'' [Str app_id, Dict ''s'' ''v'' []]"

lemma register_built: "\<exists>m. register_msg app_id = Some m"
  by (auto simp: register_msg_def method_call_def set_body_def encode_body_def w_array_def Let_def)

lemma error_reply_built: "\<exists>m. error_reply to name text = Some m \<and> msg_reply_serial m = Some (msg_serial to)"
  by (auto simp: error_reply_def set_body_def encode_body_def)

text \<open>\<open>reply_error\<close>.\<close>

definition gw_reply_error :: "via \<Rightarrow> message \<Rightarrow> string \<Rightarrow> string \<Rightarrow> gw_client \<Rightarrow> gw_client" where
  "gw_reply_error via to name text c =
     (if expects_reply to
      then c\<lparr>cl_private := cl_private c @ [(via, or_keep message_default (error_reply to name text))]\<rparr>
      else c)"

text \<open>A send on the host connection: the serial is taken before the write, which may fail.\<close>

definition host_send :: "bool \<Rightarrow> call option \<Rightarrow> message \<Rightarrow> gw_client \<Rightarrow> u32 option \<times> gw_client" where
  "host_send ok origin m c =
     (let serial = cl_serial c; c = c\<lparr>cl_serial := serial + 1\<rparr>
      in if cl_closed c \<or> \<not> ok then (None, c)
         else (Some serial, c\<lparr>cl_sent := cl_sent c @ [(serial, origin, m)]\<rparr>))"

definition close_if_done :: "gw_client \<Rightarrow> gw_client" where
  "close_if_done c =
     (if cl_gone c \<and> \<not> list_ex (pd_opens \<circ> snd) (cl_pending c) \<and> cl_opens c = []
      then c\<lparr>cl_closed := True\<rparr> else c)"

section \<open>Calls from the sandbox: \<open>forward\<close>\<close>

text \<open>
  The portal's gate, under the lock of the portal state: a call is held while a registration is
  outstanding or the held calls are passed on; a registered client's call goes to the portal
  instance that accepted the registration, and when that is gone a new registration is sent and
  the call waits for its answer.
\<close>

datatype gated = Held_back | Handed_back | Goes "string option" | Gate_failed

definition hold :: "call \<Rightarrow> gw_client \<Rightarrow> gw_client" where
  "hold call c = c\<lparr>cl_portal := (cl_portal c)\<lparr>ps_held := ps_held (cl_portal c) @ [call]\<rparr>\<rparr>"

definition to_portal :: "call \<Rightarrow> bool" where
  "to_portal call =
     (case call of (msg, _, via) \<Rightarrow> via = Via_Portal \<and> msg_destination msg = Some PORTAL_NAME)"

definition portal_gate :: "bool \<Rightarrow> bool \<Rightarrow> call \<Rightarrow> gw_client \<Rightarrow> gated \<times> gw_client" where
  "portal_gate ok from_held call c =
     (let st = cl_portal c; dest = msg_destination (fst call) in
      if \<not> to_portal call then (Goes dest, c)
      else if \<not> from_held \<and> (ps_registering st \<noteq> None \<or> ps_draining st) then (Held_back, hold call c)
      else case ps_app_id st of
        None \<Rightarrow> (Goes dest, c)
      | Some app_id \<Rightarrow>
          if ps_owner st \<noteq> None \<and> ps_owner st = bt_get (cl_owners c) PORTAL_NAME
          then (Goes (ps_owner st), c)
          else case host_send ok None (or_keep message_default (register_msg app_id)) c of
            (None, c) \<Rightarrow> (Gate_failed, c)
          | (Some serial, c) \<Rightarrow>
              let c = c\<lparr>cl_portal := (cl_portal c)\<lparr>ps_registering := Some serial\<rparr>\<rparr>
              in if from_held then (Handed_back, c) else (Held_back, hold call c))"

text \<open>
  Then the verdict, from the policy read at that moment, and the message that goes out. A closed
  request gets no response.
\<close>

datatype judged = Answered | Sends message "file_request option"

definition outgoing_msg :: "message \<Rightarrow> string option \<Rightarrow> message" where
  "outgoing_msg msg dest =
     message_default\<lparr>msg_kind := METHOD_CALL, msg_flags := msg_flags msg, msg_path := msg_path msg,
       msg_interface := msg_interface msg, msg_member := msg_member msg, msg_destination := dest,
       msg_signature := msg_signature msg, msg_body := msg_body msg\<rparr>"

definition judge :: "gw_env \<Rightarrow> policy \<Rightarrow> call \<Rightarrow> string option \<Rightarrow> gw_client \<Rightarrow> judged \<times> gw_client" where
  "judge env policy call dest c =
     (case call of (msg, fds, via) \<Rightarrow>
      let identified = ps_app_id (cl_portal c) \<noteq> None;
          verdict = (case via of Via_Portal \<Rightarrow> check policy identified msg | Via_Talk _ \<Rightarrow> forward)
      in case verdict of
        Deny why \<Rightarrow>
          (Answered, gw_reply_error via msg ''org.freedesktop.DBus.Error.AccessDenied'' (ge_reason env why) c)
      | Missing why \<Rightarrow>
          (Answered, gw_reply_error via msg ''org.freedesktop.DBus.Error.UnknownInterface'' why c)
      | Introspect \<Rightarrow>
          (Answered,
           if expects_reply msg
           then c\<lparr>cl_private := cl_private c
                   @ [(via, or_keep (method_return msg) (set_body [Str (ge_introspection env)] (method_return msg)))]\<rparr>
           else c)
      | Forward args file \<Rightarrow>
          let out = outgoing_msg msg dest;
              out = (case args of None \<Rightarrow> out | Some as \<Rightarrow> or_keep out (set_body as out))
          in if via = Via_Portal then
               let out = or_keep out (rewrite_paths out (cl_private_seg c) (cl_host_seg c));
                   opens = (case msg_path out of
                              Some p \<Rightarrow> if msg_is out ''org.freedesktop.portal.Request'' ''Close''
                                        then removeAll p (cl_opens c) else cl_opens c
                            | None \<Rightarrow> cl_opens c)
               in (Sends out file, c\<lparr>cl_opens := opens\<rparr>)
             else (Sends out file, c))"

text \<open>The send, under the lock of the pending calls.\<close>

definition dispatch :: "gw_env \<Rightarrow> bool \<Rightarrow> call \<Rightarrow> message \<Rightarrow> file_request option \<Rightarrow> gw_client \<Rightarrow> gw_client" where
  "dispatch env ok call out file c =
     (case call of (msg, fds, via) \<Rightarrow>
      case host_send ok (Some call) out c of
        (None, c) \<Rightarrow> gw_reply_error via msg failed_name (ge_failure env) c
      | (Some serial, c) \<Rightarrow>
          if expects_reply msg then
            c\<lparr>cl_pending := bt_insert (cl_pending c) serial
                \<lparr>pd_caller = msg_serial msg, pd_file = file, pd_via = via,
                 pd_opens = (via = Via_Portal \<and> msg_interface msg = Some OPEN_URI_IFACE)\<rparr>\<rparr>
          else c)"

section \<open>Answers and signals from the host: \<open>serve_host\<close>\<close>

definition owner_changed :: "dvalue list \<Rightarrow> (string, string) btree \<Rightarrow> (string, string) btree" where
  "owner_changed args owners =
     (case (Option.bind (nth_opt args 0) as_str, Option.bind (nth_opt args 2) as_str) of
        (Some name, Some new) \<Rightarrow>
          if name \<notin> set GATEWAY_NAMES then owners
          else if new = '''' then bt_remove owners name
          else bt_insert owners name new
      | _ \<Rightarrow> owners)"

text \<open>\<open>registered\<close>, up to the loop that passes the held calls on.\<close>

definition registered :: "message \<Rightarrow> gw_client \<Rightarrow> gw_client" where
  "registered reply c =
     (let st = (cl_portal c)\<lparr>ps_registering := None, ps_draining := True\<rparr>
      in c\<lparr>cl_portal :=
             (if msg_kind reply = METHOD_RETURN then st\<lparr>ps_owner := msg_sender reply\<rparr>
              else st\<lparr>ps_app_id := None, ps_owner := None\<rparr>)\<rparr>)"

definition relay_reply :: "message \<Rightarrow> gw_client \<Rightarrow> gw_client" where
  "relay_reply msg c =
     (case msg_reply_serial msg of
        None \<Rightarrow> c
      | Some serial \<Rightarrow>
          (case bt_get (cl_pending c) serial of
             None \<Rightarrow> c
           | Some p \<Rightarrow>
               let handle = (if msg_kind msg = METHOD_RETURN then first_arg_str msg else None);
                   files = (case (pd_file p, handle) of
                              (Some kind, Some h) \<Rightarrow> bt_insert (cl_files c) h kind | _ \<Rightarrow> cl_files c);
                   opens = (case handle of
                              Some h \<Rightarrow> if pd_opens p then List.insert h (cl_opens c) else cl_opens c
                            | None \<Rightarrow> cl_opens c);
                   c = c\<lparr>cl_pending := bt_remove (cl_pending c) serial, cl_files := files, cl_opens := opens\<rparr>
               in if cl_gone c then close_if_done c
                  else let out = message_default\<lparr>msg_kind := msg_kind msg,
                             msg_flags := FLAG_NO_REPLY_EXPECTED, msg_error_name := msg_error_name msg,
                             msg_reply_serial := Some (pd_caller p), msg_destination := Some (cl_name c),
                             msg_signature := msg_signature msg, msg_body := msg_body msg\<rparr>;
                           out = (if pd_via p = Via_Portal
                                  then or_keep out (rewrite_paths out (cl_host_seg c) (cl_private_seg c))
                                  else out)
                       in c\<lparr>cl_private := cl_private c @ [(pd_via p, out)]\<rparr>))"

text \<open>\<open>fail_pending\<close>: every waiting call is answered with an error, unless the client has left.\<close>

definition no_reply :: "gw_client \<Rightarrow> gw_pending \<Rightarrow> via \<times> message" where
  "no_reply c p =
     (let e = message_default\<lparr>msg_kind := ERROR, msg_flags := FLAG_NO_REPLY_EXPECTED,
                msg_error_name := Some ''org.freedesktop.DBus.Error.NoReply'',
                msg_reply_serial := Some (pd_caller p), msg_destination := Some (cl_name c)\<rparr>
      in (pd_via p, or_keep e (set_body [Str ''the host bus connection closed''] e)))"

definition fail_pending :: "gw_client \<Rightarrow> gw_client" where
  "fail_pending c =
     (let pending = map snd (cl_pending c); c = c\<lparr>cl_pending := []\<rparr>
      in if cl_gone c then c
         else c\<lparr>cl_private := cl_private c @ map (no_reply c) pending\<rparr>)"

text \<open>\<open>end_request\<close>, and \<open>end_open_requests\<close> for all of them.\<close>

definition end_request :: "gw_client \<Rightarrow> string \<Rightarrow> via \<times> message" where
  "end_request c path =
     (let out = message_default\<lparr>msg_kind := SIGNAL, msg_flags := FLAG_NO_REPLY_EXPECTED,
                  msg_path := Some path, msg_interface := Some ''org.freedesktop.portal.Request'',
                  msg_member := Some ''Response'', msg_destination := Some (cl_name c)\<rparr>;
          out = or_keep out (set_body [U32 2, Dict ''s'' ''v'' []] out)
      in (Via_Portal, or_keep out (rewrite_paths out (cl_host_seg c) (cl_private_seg c))))"

definition end_open_requests :: "gw_client \<Rightarrow> gw_client" where
  "end_open_requests c =
     (let ended = cl_opens c; c = c\<lparr>cl_opens := []\<rparr>
      in if cl_gone c then c else c\<lparr>cl_private := cl_private c @ map (end_request c) ended\<rparr>)"

text \<open>\<open>map_file_results\<close>.\<close>

definition expose_uri :: "gw_env \<Rightarrow> file_request \<Rightarrow> string \<Rightarrow> string option" where
  "expose_uri env kind uri =
     do {
       path \<leftarrow> uri_to_path uri;
       p \<leftarrow> ge_expose env path (kind = Save);
       Some (path_to_uri p)
     }"

definition map_file_results :: "gw_env \<Rightarrow> dvalue list \<Rightarrow> file_request \<Rightarrow> dvalue list" where
  "map_file_results env args kind =
     (if Option.bind (nth_opt args 0) as_u32 \<noteq> Some 0 then args
      else case nth_opt args 1 of
        None \<Rightarrow> args
      | Some results \<Rightarrow>
          if kind = Screenshot then
            (case Option.bind (Option.bind (dict_get results ''uri'') as_str) (expose_uri env kind) of
               Some uri \<Rightarrow> args[1 := dict_set results ''uri'' (Str uri)]
             | None \<Rightarrow> args[1 := dict_remove results ''uri''])
          else (case dict_get results ''uris'' of
              Some (Array _ uris) \<Rightarrow>
                args[1 := dict_set results ''uris''
                  (Array ''s'' (map Str (List.map_filter (expose_uri env kind) (List.map_filter as_str uris))))]
            | _ \<Rightarrow> args))"

text \<open>
  \<open>relay_signal\<close>: only signals of the gateway names' owners, on their objects. A response to a file
  request has its files exposed to the sandbox; one whose body does not decode is not relayed.
\<close>

definition relay_signal :: "gw_env \<Rightarrow> message \<Rightarrow> gw_client \<Rightarrow> gw_client" where
  "relay_signal env msg c =
     (if (case msg_sender msg of None \<Rightarrow> True | Some s \<Rightarrow> s \<notin> snd ` set (cl_owners c))
         \<or> \<not> signal_forwarded (or_default (msg_path msg)) (or_default (msg_interface msg))
      then c
      else
        let response = msg_is msg ''org.freedesktop.portal.Request'' ''Response'';
            c = (case msg_path msg of
                   Some p \<Rightarrow> if response then c\<lparr>cl_opens := removeAll p (cl_opens c)\<rparr> else c
                 | None \<Rightarrow> c)
        in if cl_gone c then close_if_done c
           else
             let out = message_default\<lparr>msg_kind := SIGNAL, msg_flags := FLAG_NO_REPLY_EXPECTED,
                         msg_path := msg_path msg, msg_interface := msg_interface msg,
                         msg_member := msg_member msg, msg_destination := Some (cl_name c),
                         msg_signature := msg_signature msg, msg_body := msg_body msg\<rparr>;
                 kind = (if response then Option.bind (msg_path msg) (bt_get (cl_files c)) else None);
                 c = (case (response, msg_path msg) of
                        (True, Some p) \<Rightarrow> c\<lparr>cl_files := bt_remove (cl_files c) p\<rparr> | _ \<Rightarrow> c);
                 pass = (\<lambda>out. c\<lparr>cl_private := cl_private c
                    @ [(Via_Portal, or_keep out (rewrite_paths out (cl_host_seg c) (cl_private_seg c)))]\<rparr>)
             in case kind of
                  None \<Rightarrow> pass out
                | Some k \<Rightarrow>
                    (case msg_args msg of
                       Inl _ \<Rightarrow> c
                     | Inr args \<Rightarrow> pass (or_keep out (set_body (map_file_results env args k) out))))"

text \<open>A method call from the host is refused; an undecodable reply answers its caller.\<close>

definition refuse_call :: "bool \<Rightarrow> message \<Rightarrow> gw_client \<Rightarrow> gw_client" where
  "refuse_call ok msg c =
     (if expects_reply msg
      then snd (host_send ok None
             (or_keep message_default
               (error_reply msg ''org.freedesktop.DBus.Error.UnknownMethod'' ''not supported'')) c)
      else c)"

definition undecodable_reply :: "u32 \<Rightarrow> message" where
  "undecodable_reply serial =
     message_default\<lparr>msg_kind := ERROR, msg_error_name := Some failed_name,
       msg_reply_serial := Some serial\<rparr>"

definition portal_left :: "dvalue list \<Rightarrow> gw_client \<Rightarrow> gw_client" where
  "portal_left args c =
     (let c = c\<lparr>cl_owners := owner_changed args (cl_owners c)\<rparr>
      in if Option.bind (nth_opt args 0) as_str = Some PORTAL_NAME
         then close_if_done (end_open_requests c) else c)"

text \<open>
  One round of \<open>serve_host\<close>: what \<^const>\<open>recv\<close> returned, and whether a refusal can be sent. A
  reply to the outstanding registration starts passing on the held calls; an error that is not an
  undecodable message ends the connection.
\<close>

datatype host_next = Next | Drain | Ended

definition host_round ::
  "gw_env \<Rightarrow> bool \<Rightarrow> conn_error + message \<times> fd list \<Rightarrow> gw_client \<Rightarrow> host_next \<times> gw_client" where
  "host_round env ok res c =
     (case res of
        Inl (Undecodable u _) \<Rightarrow>
          (Next, case msg_reply_serial u of
                   None \<Rightarrow> c | Some serial \<Rightarrow> relay_reply (undecodable_reply serial) c)
      | Inl _ \<Rightarrow> (Ended, end_open_requests (fail_pending (c\<lparr>cl_closed := True\<rparr>)))
      | Inr (msg, fds) \<Rightarrow>
          if msg_kind msg = METHOD_RETURN \<or> msg_kind msg = ERROR then
            (if ps_registering (cl_portal c) \<noteq> None
                \<and> msg_reply_serial msg = ps_registering (cl_portal c)
             then (Drain, registered msg c)
             else (Next, relay_reply msg c))
          else if msg_kind msg = SIGNAL then
            (if msg_sender msg = Some BUS_NAME then
               (Next, if msg_is msg BUS_NAME ''NameOwnerChanged''
                      then (case msg_args msg of Inl _ \<Rightarrow> c | Inr args \<Rightarrow> portal_left args c) else c)
             else (Next, relay_signal env msg c))
          else if msg_kind msg = METHOD_CALL then (Next, refuse_call ok msg c)
          else (Next, c))"

section \<open>A new client\<close>

text \<open>\<open>process_fd\<close>: the index of the process's descriptor in the bus's credentials.\<close>

definition process_fd :: "dvalue list \<Rightarrow> nat option" where
  "process_fd args =
     do {
       creds \<leftarrow> nth_opt args 0;
       fd \<leftarrow> dict_get creds ''ProcessFD'';
       case fd of Fd i \<Rightarrow> Some (unat i) | _ \<Rightarrow> None
     }"

text \<open>
  \<open>client\<close>: the identity and what the portal answered to its registration, the owners the bus
  named, and the two unique names; \<open>serial\<close> is the first serial left.
\<close>

definition new_client ::
  "string \<Rightarrow> string \<Rightarrow> string option \<Rightarrow> conn_error + message \<Rightarrow> (string \<Rightarrow> string option) \<Rightarrow> u32 \<Rightarrow> gw_client" where
  "new_client sender host_unique identity reply owner_of serial =
     \<lparr>cl_name = sender, cl_private_seg = escape_unique sender, cl_host_seg = escape_unique host_unique,
      cl_pending = [], cl_files = [], cl_opens = [], cl_gone = False,
      cl_owners = fold (\<lambda>name owners. case owner_of name of None \<Rightarrow> owners | Some o' \<Rightarrow> bt_insert owners name o')
                    GATEWAY_NAMES [],
      cl_portal = (case (identity, reply) of
          (Some app_id, Inr r) \<Rightarrow>
            \<lparr>ps_app_id = Some app_id, ps_owner = msg_sender r, ps_registering = None, ps_draining = False, ps_held = []\<rparr>
        | _ \<Rightarrow> \<lparr>ps_app_id = None, ps_owner = None, ps_registering = None, ps_draining = False, ps_held = []\<rparr>),
      cl_serial = serial, cl_closed = False, cl_sent = [], cl_private = []\<rparr>"

text \<open>\<open>name_changed\<close>: the client a \<open>NameOwnerChanged\<close> on the private bus says has left.\<close>

definition left_name :: "message \<Rightarrow> string option" where
  "left_name msg =
     (case msg_args msg of
        Inl _ \<Rightarrow> None
      | Inr args \<Rightarrow>
          (case (Option.bind (nth_opt args 0) as_str, Option.bind (nth_opt args 2) as_str) of
             (Some name, Some new) \<Rightarrow> if starts_with name '':'' \<and> new = '''' then Some name else None
           | _ \<Rightarrow> None))"

definition client_departed :: "gw_client \<Rightarrow> gw_client" where
  "client_departed c = close_if_done (c\<lparr>cl_gone := True\<rparr>)"

text \<open>\<open>own\<close>: whether the bus's answer to \<open>RequestName\<close> made the gateway the owner.\<close>

definition PRIMARY_OWNER :: u32 where "PRIMARY_OWNER = 1"

definition owned :: "message \<Rightarrow> bool" where
  "owned reply \<longleftrightarrow>
     (case msg_args reply of Inl _ \<Rightarrow> False
      | Inr args \<Rightarrow> Option.bind (nth_opt args 0) as_u32 = Some PRIMARY_OWNER)"

end
