(* ===== verification/Gateway.thy ===== *)
theory Gateway
  imports Gateway_Client "HOL-Library.Multiset" "HOL-Library.Sublist"
begin

text \<open>
  \<open>src/src/gateway.rs\<close>: the threads that serve one client. The portal connection's thread takes
  the client's portal and notification calls, one at a time; each talk name's thread takes the
  calls to that name; the host connection's thread relays replies and signals and, after a
  registration, passes on the calls held for it. A thread is at a point between two stretches of
  code that run under one lock, and an event lets one thread run its next stretch, in any order.
\<close>

section \<open>Threads\<close>

text \<open>A thread inside \<open>forward\<close>: with the client found, past the gate, or past the verdict.\<close>

datatype stage =
    Found call
  | Gated call "string option"
  | Judged call message "file_request option"

fun stage_call :: "stage \<Rightarrow> call" where
  "stage_call (Found call) = call"
| "stage_call (Gated call _) = call"
| "stage_call (Judged call _ _) = call"

text \<open>
  The host thread inside \<open>registered\<close>: about to take the held calls, with a batch of them, inside
  \<open>forward\<close> for one of them, or about to put back a call that has to wait again.
\<close>

datatype drain = Waiting | Taking | Batch "call list" | Passing stage "call list" | Handing call "call list" | Over

fun drain_calls :: "drain \<Rightarrow> call list" where
  "drain_calls (Batch rest) = rest"
| "drain_calls (Passing s rest) = stage_call s # rest"
| "drain_calls (Handing call rest) = call # rest"
| "drain_calls _ = []"

text \<open>
  \<open>gw_listed\<close>: the client is in the gateway's map. The last two fields only record what
  happened: the calls read from the private bus, and the portal calls settled (sent to the host or
  answered), in order.
\<close>

record gw =
  gw_client :: gw_client
  gw_portal :: "stage option"
  gw_talk :: "nat \<Rightarrow> stage option"
  gw_drain :: drain
  gw_listed :: bool
  gw_received :: "call list"
  gw_settled :: "call list"

text \<open>
  What lets a thread run: a call read, the gate (a registration's send works or not), a verdict
  under the policy of that moment, a send, what the host connection's \<^const>\<open>recv\<close> returns, and the
  client leaving.
\<close>

datatype event =
    Portal_call message "fd list"
  | Portal_gate bool
  | Portal_judge policy
  | Portal_send bool
  | Talk_call nat message "fd list"
  | Talk_judge nat policy
  | Talk_send nat bool
  | Client_leaves
  | Host_recv "conn_error + message \<times> fd list" bool
  | Drain_take
  | Drain_next
  | Drain_gate bool
  | Drain_judge policy
  | Drain_send bool
  | Drain_back

definition settle :: "call \<Rightarrow> gw \<Rightarrow> gw" where
  "settle call g = (if to_portal call then g\<lparr>gw_settled := gw_settled g @ [call]\<rparr> else g)"

text \<open>
  \<open>serve\<close> takes a call: its destination is found and its client looked up. A call whose client
  has left is answered with an error (a new host connection is closed again, the bus knowing the
  client no more); a call to no object of the gateway too.
\<close>

definition fail_call :: "gw_env \<Rightarrow> call \<Rightarrow> gw \<Rightarrow> gw" where
  "fail_call env call g =
     settle call (g\<lparr>gw_client := gw_reply_error (snd (snd call)) (fst call) failed_name (ge_failure env) (gw_client g)\<rparr>)"

definition serve_portal :: "gw_env \<Rightarrow> message \<Rightarrow> fd list \<Rightarrow> gw \<Rightarrow> gw" where
  "serve_portal env msg fds g =
     (case service_for (or_default (msg_destination msg)) (ge_unique env) (or_default (msg_path msg)) of
        None \<Rightarrow>
          g\<lparr>gw_received := gw_received g @ [(msg\<lparr>msg_destination := None\<rparr>, fds, Via_Portal)],
            gw_client := gw_reply_error Via_Portal msg ''org.freedesktop.DBus.Error.UnknownObject''
              ''no such object'' (gw_client g)\<rparr>
      | Some dest \<Rightarrow>
          let call = (msg\<lparr>msg_destination := Some dest\<rparr>, fds, Via_Portal)
          in g\<lparr>gw_received := gw_received g @ [call], gw_portal := Some (Found call)\<rparr>)"

text \<open>The gate, on the portal connection's thread.\<close>

definition gate_stage :: "gw_env \<Rightarrow> bool \<Rightarrow> call \<Rightarrow> gw \<Rightarrow> gw" where
  "gate_stage env ok call g =
     (case portal_gate ok False call (gw_client g) of
        (Goes d, c) \<Rightarrow> g\<lparr>gw_client := c, gw_portal := Some (Gated call d)\<rparr>
      | (Gate_failed, c) \<Rightarrow> fail_call env call (g\<lparr>gw_client := c, gw_portal := None\<rparr>)
      | (_, c) \<Rightarrow> g\<lparr>gw_client := c, gw_portal := None\<rparr>)"

text \<open>The two stretches after the gate, for any thread; the second leaves \<open>forward\<close>.\<close>

definition judge_stage :: "gw_env \<Rightarrow> policy \<Rightarrow> call \<Rightarrow> string option \<Rightarrow> gw \<Rightarrow> stage option \<times> gw" where
  "judge_stage env policy call dest g =
     (case judge env policy call dest (gw_client g) of
        (Sends out file, c) \<Rightarrow> (Some (Judged call out file), g\<lparr>gw_client := c\<rparr>)
      | (Answered, c) \<Rightarrow> (None, settle call (g\<lparr>gw_client := c\<rparr>)))"

definition send_stage :: "gw_env \<Rightarrow> bool \<Rightarrow> call \<Rightarrow> message \<Rightarrow> file_request option \<Rightarrow> gw \<Rightarrow> gw" where
  "send_stage env ok call out file g =
     settle call (g\<lparr>gw_client := dispatch env ok call out file (gw_client g)\<rparr>)"

text \<open>The loop of \<open>registered\<close>.\<close>

definition take_held :: "gw \<Rightarrow> gw" where
  "take_held g =
     (let c = gw_client g; st = cl_portal c
      in if ps_held st = [] then
           g\<lparr>gw_client := c\<lparr>cl_portal := st\<lparr>ps_draining := False\<rparr>\<rparr>, gw_drain := Waiting\<rparr>
         else g\<lparr>gw_client := c\<lparr>cl_portal := st\<lparr>ps_held := []\<rparr>\<rparr>, gw_drain := Batch (ps_held st)\<rparr>)"

definition next_held :: "gw_env \<Rightarrow> call list \<Rightarrow> gw \<Rightarrow> gw" where
  "next_held env batch g =
     (case batch of
        [] \<Rightarrow> g\<lparr>gw_drain := Taking\<rparr>
      | call # rest \<Rightarrow>
          if gw_listed g then g\<lparr>gw_drain := Passing (Found call) rest\<rparr>
          else fail_call env call (g\<lparr>gw_drain := Batch rest\<rparr>))"

definition gate_held :: "gw_env \<Rightarrow> bool \<Rightarrow> call \<Rightarrow> call list \<Rightarrow> gw \<Rightarrow> gw" where
  "gate_held env ok call rest g =
     (case portal_gate ok True call (gw_client g) of
        (Goes d, c) \<Rightarrow> g\<lparr>gw_client := c, gw_drain := Passing (Gated call d) rest\<rparr>
      | (Gate_failed, c) \<Rightarrow> fail_call env call (g\<lparr>gw_client := c, gw_drain := Batch rest\<rparr>)
      | (_, c) \<Rightarrow> g\<lparr>gw_client := c, gw_drain := Handing call rest\<rparr>)"

definition put_back :: "call \<Rightarrow> call list \<Rightarrow> gw \<Rightarrow> gw" where
  "put_back call rest g =
     (let c = gw_client g; st = cl_portal c
      in g\<lparr>gw_client := c\<lparr>cl_portal := st\<lparr>ps_held := call # rest @ ps_held st, ps_draining := False\<rparr>\<rparr>,
           gw_drain := Waiting\<rparr>)"

definition host_event :: "gw_env \<Rightarrow> conn_error + message \<times> fd list \<Rightarrow> bool \<Rightarrow> gw \<Rightarrow> gw" where
  "host_event env res ok g =
     (case host_round env ok res (gw_client g) of
        (Next, c) \<Rightarrow> g\<lparr>gw_client := c\<rparr>
      | (Drain, c) \<Rightarrow> g\<lparr>gw_client := c, gw_drain := Taking\<rparr>
      | (Ended, c) \<Rightarrow> g\<lparr>gw_client := c, gw_drain := Over, gw_listed := False\<rparr>)"

text \<open>One event; \<open>None\<close> when the thread is not at that point.\<close>

fun step :: "gw_env \<Rightarrow> event \<Rightarrow> gw \<Rightarrow> gw option" where
  "step env (Portal_call msg fds) g =
     (if gw_portal g = None \<and> gw_listed g \<and> msg_kind msg = METHOD_CALL
      then Some (serve_portal env msg fds g) else None)"
| "step env (Portal_gate ok) g =
     (case gw_portal g of Some (Found call) \<Rightarrow> Some (gate_stage env ok call g) | _ \<Rightarrow> None)"
| "step env (Portal_judge policy) g =
     (case gw_portal g of
        Some (Gated call d) \<Rightarrow>
          (case judge_stage env policy call d g of (s, g) \<Rightarrow> Some (g\<lparr>gw_portal := s\<rparr>))
      | _ \<Rightarrow> None)"
| "step env (Portal_send ok) g =
     (case gw_portal g of
        Some (Judged call out file) \<Rightarrow> Some ((send_stage env ok call out file g)\<lparr>gw_portal := None\<rparr>)
      | _ \<Rightarrow> None)"
| "step env (Talk_call i msg fds) g =
     (if i < length (ge_talk env) \<and> gw_talk g i = None \<and> gw_listed g \<and> msg_kind msg = METHOD_CALL then
        let dest = Some (ge_talk env ! i); call = (msg\<lparr>msg_destination := dest\<rparr>, fds, Via_Talk i)
        in Some (g\<lparr>gw_received := gw_received g @ [call], gw_talk := (gw_talk g)(i := Some (Gated call dest))\<rparr>)
      else None)"
| "step env (Talk_judge i policy) g =
     (case gw_talk g i of
        Some (Gated call d) \<Rightarrow>
          (case judge_stage env policy call d g of (s, g) \<Rightarrow> Some (g\<lparr>gw_talk := (gw_talk g)(i := s)\<rparr>))
      | _ \<Rightarrow> None)"
| "step env (Talk_send i ok) g =
     (case gw_talk g i of
        Some (Judged call out file) \<Rightarrow>
          Some ((send_stage env ok call out file g)\<lparr>gw_talk := (gw_talk g)(i := None)\<rparr>)
      | _ \<Rightarrow> None)"
| "step env Client_leaves g =
     (if gw_portal g = None \<and> gw_listed g
      then Some (g\<lparr>gw_client := client_departed (gw_client g), gw_listed := False\<rparr>) else None)"
| "step env (Host_recv res ok) g =
     (if gw_drain g = Waiting then Some (host_event env res ok g) else None)"
| "step env Drain_take g = (if gw_drain g = Taking then Some (take_held g) else None)"
| "step env Drain_next g =
     (case gw_drain g of Batch batch \<Rightarrow> Some (next_held env batch g) | _ \<Rightarrow> None)"
| "step env (Drain_gate ok) g =
     (case gw_drain g of Passing (Found call) rest \<Rightarrow> Some (gate_held env ok call rest g) | _ \<Rightarrow> None)"
| "step env (Drain_judge policy) g =
     (case gw_drain g of
        Passing (Gated call d) rest \<Rightarrow>
          (case judge_stage env policy call d g of
             (s, g) \<Rightarrow> Some (g\<lparr>gw_drain := (case s of None \<Rightarrow> Batch rest | Some s \<Rightarrow> Passing s rest)\<rparr>))
      | _ \<Rightarrow> None)"
| "step env (Drain_send ok) g =
     (case gw_drain g of
        Passing (Judged call out file) rest \<Rightarrow>
          Some ((send_stage env ok call out file g)\<lparr>gw_drain := Batch rest\<rparr>)
      | _ \<Rightarrow> None)"
| "step env Drain_back g =
     (case gw_drain g of Handing call rest \<Rightarrow> Some (put_back call rest g) | _ \<Rightarrow> None)"

definition run :: "gw_env \<Rightarrow> event list \<Rightarrow> gw \<Rightarrow> gw option" where
  "run env = fold_opt (step env)"

text \<open>A client just made.\<close>

definition start :: "gw_client \<Rightarrow> gw" where
  "start c = \<lparr>gw_client = c, gw_portal = None, gw_talk = (\<lambda>_. None), gw_drain = Waiting, gw_listed = True,
     gw_received = [], gw_settled = []\<rparr>"

definition fresh :: "gw_client \<Rightarrow> bool" where
  "fresh c \<longleftrightarrow> cl_pending c = [] \<and> cl_opens c = [] \<and> \<not> cl_gone c \<and> \<not> cl_closed c \<and> cl_sent c = [] \<and> cl_private c = []
     \<and> ps_registering (cl_portal c) = None \<and> \<not> ps_draining (cl_portal c) \<and> ps_held (cl_portal c) = []"

lemma new_client_fresh: "fresh (new_client sender host_unique identity reply owner_of serial)"
  by (auto simp: fresh_def new_client_def split: option.split sum.split)

lemma run_Nil [simp]: "run env [] g = Some g"
  by (simp add: run_def)

lemma run_snoc: "run env (evs @ [e]) g = Option.bind (run env evs g) (step env e)"
  by (simp add: run_def fold_opt_append Option.bind_map_option)
    (cases "fold_opt (step env) evs g"; simp; cases "step env e (the (fold_opt (step env) evs g))"; simp)

text \<open>Induction over the events of a run, from its end.\<close>

lemma run_invariant [consumes 1, case_names start step]:
  assumes "run env evs g = Some g'" and "P [] g"
    and "\<And>evs e g1 g2. run env evs g = Some g1 \<Longrightarrow> P evs g1 \<Longrightarrow> step env e g1 = Some g2 \<Longrightarrow> P (evs @ [e]) g2"
  shows "P evs g'"
  using assms(1)
proof (induction evs arbitrary: g' rule: rev_induct)
  case Nil
  with assms(2) show ?case by simp
next
  case (snoc e evs)
  then obtain g1 where "run env evs g = Some g1" "step env e g1 = Some g'"
    by (auto simp: run_snoc bind_eq_Some_conv)
  with snoc.IH assms(3) show ?case by blast
qed

section \<open>What each stretch leaves alone\<close>

declare split_paired_All [simp del] split_paired_Ex [simp del]

text \<open>The portal state, the owners and the calls sent, across the handlers that do not touch them.\<close>

lemma gw_reply_error_simps [simp]:
  "cl_portal (gw_reply_error via m name text c) = cl_portal c"
  "cl_sent (gw_reply_error via m name text c) = cl_sent c"
  "cl_pending (gw_reply_error via m name text c) = cl_pending c"
  "cl_serial (gw_reply_error via m name text c) = cl_serial c"
  "cl_gone (gw_reply_error via m name text c) = cl_gone c"
  "cl_closed (gw_reply_error via m name text c) = cl_closed c"
  by (simp_all add: gw_reply_error_def)

lemma close_if_done_simps [simp]:
  "cl_portal (close_if_done c) = cl_portal c"
  "cl_sent (close_if_done c) = cl_sent c"
  "cl_pending (close_if_done c) = cl_pending c"
  "cl_serial (close_if_done c) = cl_serial c"
  "cl_gone (close_if_done c) = cl_gone c"
  "cl_private (close_if_done c) = cl_private c"
  "cl_closed c \<Longrightarrow> cl_closed (close_if_done c)"
  by (simp_all add: close_if_done_def)

lemma end_open_requests_simps [simp]:
  "cl_portal (end_open_requests c) = cl_portal c"
  "cl_sent (end_open_requests c) = cl_sent c"
  "cl_pending (end_open_requests c) = cl_pending c"
  "cl_serial (end_open_requests c) = cl_serial c"
  "cl_gone (end_open_requests c) = cl_gone c"
  "cl_closed (end_open_requests c) = cl_closed c"
  by (simp_all add: end_open_requests_def Let_def)

lemma fail_pending_simps [simp]:
  "cl_portal (fail_pending c) = cl_portal c"
  "cl_sent (fail_pending c) = cl_sent c"
  "cl_pending (fail_pending c) = []"
  "cl_serial (fail_pending c) = cl_serial c"
  "cl_gone (fail_pending c) = cl_gone c"
  "cl_closed (fail_pending c) = cl_closed c"
  by (simp_all add: fail_pending_def Let_def)

lemma relay_reply_simps [simp]:
  "cl_portal (relay_reply msg c) = cl_portal c"
  "cl_sent (relay_reply msg c) = cl_sent c"
  "cl_serial (relay_reply msg c) = cl_serial c"
  "cl_gone (relay_reply msg c) = cl_gone c"
  "cl_closed c \<Longrightarrow> cl_closed (relay_reply msg c)"
  by (simp_all add: relay_reply_def Let_def split: option.split)

lemma relay_signal_simps [simp]:
  "cl_portal (relay_signal env msg c) = cl_portal c"
  "cl_sent (relay_signal env msg c) = cl_sent c"
  "cl_pending (relay_signal env msg c) = cl_pending c"
  "cl_serial (relay_signal env msg c) = cl_serial c"
  "cl_gone (relay_signal env msg c) = cl_gone c"
  "cl_closed c \<Longrightarrow> cl_closed (relay_signal env msg c)"
  by (simp_all add: relay_signal_def Let_def split: option.split sum.split bool.split)

lemma portal_left_simps [simp]:
  "cl_portal (portal_left args c) = cl_portal c"
  "cl_sent (portal_left args c) = cl_sent c"
  "cl_pending (portal_left args c) = cl_pending c"
  "cl_serial (portal_left args c) = cl_serial c"
  "cl_gone (portal_left args c) = cl_gone c"
  "cl_closed c \<Longrightarrow> cl_closed (portal_left args c)"
  by (simp_all add: portal_left_def Let_def)

lemma host_send_simps [simp]:
  "cl_portal (snd (host_send ok call m c)) = cl_portal c"
  "cl_pending (snd (host_send ok call m c)) = cl_pending c"
  "cl_gone (snd (host_send ok call m c)) = cl_gone c"
  "cl_closed (snd (host_send ok call m c)) = cl_closed c"
  "cl_private (snd (host_send ok call m c)) = cl_private c"
  "cl_owners (snd (host_send ok call m c)) = cl_owners c"
  by (simp_all add: host_send_def Let_def)

lemma judge_keeps:
  assumes "judge env policy call d c = (j, c')"
  shows "cl_portal c' = cl_portal c" "cl_sent c' = cl_sent c" "cl_pending c' = cl_pending c"
    "cl_serial c' = cl_serial c" "cl_gone c' = cl_gone c" "cl_closed c' = cl_closed c"
  using assms by (auto simp: judge_def Let_def split: prod.splits verdict.splits via.splits if_splits)

lemma dispatch_keeps [simp]:
  "cl_portal (dispatch env ok call out file c) = cl_portal c"
  "cl_gone (dispatch env ok call out file c) = cl_gone c"
  "cl_closed (dispatch env ok call out file c) = cl_closed c"
  by (simp_all add: dispatch_def host_send_def Let_def split: prod.split)

lemma dispatch_sent:
  "cl_sent (dispatch env ok call out file c) =
     cl_sent c @ (if cl_closed c \<or> \<not> ok then [] else [(cl_serial c, Some call, out)])"
  by (auto simp: dispatch_def host_send_def Let_def split: prod.split)

section \<open>The order of portal calls\<close>

text \<open>The portal calls waiting: passed on again, held, and read by the portal thread, in this order.\<close>

definition waiting :: "gw \<Rightarrow> call list" where
  "waiting g = drain_calls (gw_drain g) @ ps_held (cl_portal (gw_client g))
     @ (case gw_portal g of None \<Rightarrow> [] | Some s \<Rightarrow> filter to_portal [stage_call s])"

text \<open>The portal calls put on the host connection, in the order of the wire.\<close>

definition portal_sent :: "gw_client \<Rightarrow> call list" where
  "portal_sent c = 
     filter to_portal (concat (map (\<lambda>(_, origin, _). case origin of None \<Rightarrow> [] | Some call \<Rightarrow> [call]) (cl_sent c)))"

definition past_gate :: "gw \<Rightarrow> bool" where
  "past_gate g \<longleftrightarrow>
     (case gw_portal g of None \<Rightarrow> False
      | Some s \<Rightarrow> to_portal (stage_call s) \<and> (case s of Found _ \<Rightarrow> False | _ \<Rightarrow> True))"

definition idle_drain :: "drain \<Rightarrow> bool" where
  "idle_drain d \<longleftrightarrow> d = Waiting \<or> d = Over"

text \<open>
  The threads' agreement: a portal call past the gate on the portal thread excludes a registration,
  held calls and the loop that passes them on; calls are held only while a registration is
  outstanding or that loop runs.
\<close>

definition gate_inv :: "gw \<Rightarrow> bool" where
  "gate_inv g \<longleftrightarrow>
     (let st = cl_portal (gw_client g) in
      (ps_draining st \<longleftrightarrow> \<not> idle_drain (gw_drain g))
      \<and> (past_gate g \<longrightarrow> \<not> ps_draining st \<and> ps_registering st = None \<and> ps_held st = [])
      \<and> (ps_held st \<noteq> [] \<and> \<not> ps_draining st \<longrightarrow> ps_registering st \<noteq> None)
      \<and> (\<forall>call rest. gw_drain g = Handing call rest \<longrightarrow> ps_registering st \<noteq> None)
      \<and> list_all to_portal (drain_calls (gw_drain g) @ ps_held st)
      \<and> (\<forall>i s. gw_talk g i = Some s \<longrightarrow> \<not> to_portal (stage_call s)))"

definition order_inv :: "gw \<Rightarrow> bool" where
  "order_inv g \<longleftrightarrow>
     filter to_portal (gw_received g) = gw_settled g @ waiting g
     \<and> subseq (portal_sent (gw_client g)) (gw_settled g)"

lemma gate_effect:
  assumes "portal_gate ok from_held call c = (r, c')"
  obtains (goes) d where "r = Goes d" "c' = c"
      "ps_app_id (cl_portal c) = None \<or> \<not> to_portal call \<Longrightarrow> d = msg_destination (fst call)"
      "ps_app_id (cl_portal c) \<noteq> None \<Longrightarrow> to_portal call \<Longrightarrow> d = ps_owner (cl_portal c) \<and> d \<noteq> None"
      "to_portal call \<Longrightarrow> from_held \<or> ps_registering (cl_portal c) = None \<and> \<not> ps_draining (cl_portal c)"
  | (failed) serial where "r = Gate_failed" "c' = c\<lparr>cl_serial := serial\<rparr>" "to_portal call"
      "from_held \<or> ps_registering (cl_portal c) = None \<and> \<not> ps_draining (cl_portal c)"
  | (behind) "r = Held_back" "c' = hold call c" "to_portal call" "\<not> from_held"
      "ps_registering (cl_portal c) \<noteq> None \<or> ps_draining (cl_portal c)"
  | (again) m app_id where "to_portal call"
      "r = (if from_held then Handed_back else Held_back)"
      "c' = (if from_held then id else hold call)
         (c\<lparr>cl_serial := cl_serial c + 1, cl_sent := cl_sent c @ [(cl_serial c, None, m)],
            cl_portal := (cl_portal c)\<lparr>ps_registering := Some (cl_serial c)\<rparr>\<rparr>)"
      "\<not> cl_closed c"
      "from_held \<or> ps_registering (cl_portal c) = None \<and> \<not> ps_draining (cl_portal c)"
      "ps_app_id (cl_portal c) = Some app_id" "register_msg app_id = Some m"
proof (cases "to_portal call")
  case False
  then have "portal_gate ok from_held call c = (Goes (msg_destination (fst call)), c)"
    by (simp add: portal_gate_def Let_def)
  with assms have "r = Goes (msg_destination (fst call))" "c' = c" by simp_all
  then show thesis by (rule goes) (use False in simp_all)
next
  case p: True
  show thesis
  proof (cases "\<not> from_held \<and> (ps_registering (cl_portal c) \<noteq> None \<or> ps_draining (cl_portal c))")
    case True
    with p have "portal_gate ok from_held call c = (Held_back, hold call c)"
      by (simp add: portal_gate_def Let_def)
    with assms have "r = Held_back" "c' = hold call c" by simp_all
    then show thesis by (rule behind) (use p True in simp_all)
  next
    case shut: False
    then have open_gate: "from_held \<or> ps_registering (cl_portal c) = None \<and> \<not> ps_draining (cl_portal c)"
      by blast
    show thesis
    proof (cases "ps_app_id (cl_portal c)")
      case None
      with p shut have "portal_gate ok from_held call c = (Goes (msg_destination (fst call)), c)"
        unfolding portal_gate_def Let_def by (simp only: if_True if_False option.case simp_thms)
      with assms have "r = Goes (msg_destination (fst call))" "c' = c" by simp_all
      then show thesis by (rule goes) (use None open_gate in simp_all)
    next
      case (Some app_id)
      show thesis
      proof (cases "ps_owner (cl_portal c) \<noteq> None \<and> ps_owner (cl_portal c) = bt_get (cl_owners c) PORTAL_NAME")
        case True
        have "portal_gate ok from_held call c = (Goes (ps_owner (cl_portal c)), c)"
          by (simp only: portal_gate_def Let_def p if_not_P [OF shut] Some if_P [OF True] option.case simp_thms
              if_False)
        with assms have "r = Goes (ps_owner (cl_portal c))" "c' = c" by auto
        moreover from True obtain y where "ps_owner (cl_portal c) = Some y" by blast
        ultimately show thesis by (intro goes [of "Some y"]) (use Some p open_gate in auto)
      next
        case False
        have g: "portal_gate ok from_held call c =
            (case host_send ok None (or_keep message_default (register_msg app_id)) c of
               (None, c) \<Rightarrow> (Gate_failed, c)
             | (Some serial, c) \<Rightarrow>
                 let c = c\<lparr>cl_portal := (cl_portal c)\<lparr>ps_registering := Some serial\<rparr>\<rparr>
                 in if from_held then (Handed_back, c) else (Held_back, hold call c))"
          by (simp only: portal_gate_def Let_def p if_not_P [OF shut] Some if_not_P [OF False] option.case simp_thms
              if_False)
        show thesis
        proof (cases "cl_closed c \<or> \<not> ok")
          case True
          with g assms have "r = Gate_failed" "c' = c\<lparr>cl_serial := cl_serial c + 1\<rparr>"
            by (auto simp: host_send_def Let_def)
          then show thesis by (rule failed) (use p open_gate in simp_all)
        next
          case live: False
          obtain m where m: "register_msg app_id = Some m" using register_built by blast
          let ?c = "c\<lparr>cl_serial := cl_serial c + 1, cl_sent := cl_sent c @ [(cl_serial c, None, m)],
            cl_portal := (cl_portal c)\<lparr>ps_registering := Some (cl_serial c)\<rparr>\<rparr>"
          have "portal_gate ok from_held call c
              = (if from_held then Handed_back else Held_back, (if from_held then id else hold call) ?c)"
            using g live by (simp add: host_send_def m or_keep_def Let_def)
          with assms have "r = (if from_held then Handed_back else Held_back)"
            "c' = (if from_held then id else hold call) ?c" by simp_all
          with p show thesis by (rule again) (use live open_gate Some m in simp_all)
        qed
      qed
    qed
  qed
qed

lemma hold_simps [simp]:
  "cl_sent (hold call c) = cl_sent c"
  "cl_serial (hold call c) = cl_serial c"
  "cl_pending (hold call c) = cl_pending c"
  "cl_private (hold call c) = cl_private c"
  "cl_gone (hold call c) = cl_gone c"
  "cl_closed (hold call c) = cl_closed c"
  "cl_portal (hold call c) = (cl_portal c)\<lparr>ps_held := ps_held (cl_portal c) @ [call]\<rparr>"
  by (simp_all add: hold_def)

lemma settle_simps [simp]:
  "gw_client (settle call g) = gw_client g"
  "gw_portal (settle call g) = gw_portal g"
  "gw_talk (settle call g) = gw_talk g"
  "gw_drain (settle call g) = gw_drain g"
  "gw_listed (settle call g) = gw_listed g"
  "gw_received (settle call g) = gw_received g"
  "gw_settled (settle call g) = gw_settled g @ filter to_portal [call]"
  by (simp_all add: settle_def)

lemma host_round_portal:
  assumes "host_round env ok res c = (n, c')"
  shows "(n = Drain \<and> ps_registering (cl_portal c) \<noteq> None
      \<and> (\<exists>reply fds. res = Inr (reply, fds) \<and> msg_reply_serial reply = ps_registering (cl_portal c)
            \<and> c' = registered reply c))
    \<or> (n \<noteq> Drain \<and> cl_portal c' = cl_portal c)"
  using assms by (auto simp: host_round_def refuse_call_def split: sum.splits conn_error.splits prod.splits if_splits option.splits)

lemma judge_stage_keeps:
  assumes "judge_stage env policy call d g = (s, g')"
  shows "cl_portal (gw_client g') = cl_portal (gw_client g)" "gw_portal g' = gw_portal g"
    "gw_talk g' = gw_talk g" "gw_drain g' = gw_drain g" "gw_received g' = gw_received g"
    "cl_sent (gw_client g') = cl_sent (gw_client g)"
    "cl_gone (gw_client g') = cl_gone (gw_client g)" "cl_closed (gw_client g') = cl_closed (gw_client g)"
    "cl_pending (gw_client g') = cl_pending (gw_client g)" "cl_serial (gw_client g') = cl_serial (gw_client g)"
proof -
  obtain j c where e: "judge env policy call d (gw_client g) = (j, c)" by fastforce
  note k = judge_keeps [OF e]
  show "cl_portal (gw_client g') = cl_portal (gw_client g)" "gw_portal g' = gw_portal g"
    "gw_talk g' = gw_talk g" "gw_drain g' = gw_drain g" "gw_received g' = gw_received g"
    "cl_sent (gw_client g') = cl_sent (gw_client g)"
    "cl_gone (gw_client g') = cl_gone (gw_client g)" "cl_closed (gw_client g') = cl_closed (gw_client g)"
    "cl_pending (gw_client g') = cl_pending (gw_client g)" "cl_serial (gw_client g') = cl_serial (gw_client g)"
    using assms e k by (auto simp: judge_stage_def split: judged.splits)
qed

lemma judge_stage_settled:
  assumes "judge_stage env policy call d g = (s, g')"
  shows "(s = None \<and> gw_settled g' = gw_settled g @ filter to_portal [call])
    \<or> (\<exists>out file. s = Some (Judged call out file) \<and> gw_settled g' = gw_settled g)"
  using assms by (auto simp: judge_stage_def split: prod.splits judged.splits)

lemma registered_portal [simp]:
  "ps_registering (cl_portal (registered reply c)) = None"
  "ps_draining (cl_portal (registered reply c))"
  "ps_held (cl_portal (registered reply c)) = ps_held (cl_portal c)"
  "cl_sent (registered reply c) = cl_sent c"
  "cl_pending (registered reply c) = cl_pending c"
  "cl_private (registered reply c) = cl_private c"
  "cl_serial (registered reply c) = cl_serial c"
  "cl_gone (registered reply c) = cl_gone c"
  "cl_closed (registered reply c) = cl_closed c"
  by (simp_all add: registered_def Let_def)

lemma gate_inv_frame:
  assumes "gate_inv g" and "cl_portal (gw_client g') = cl_portal (gw_client g)"
    and "gw_drain g' = gw_drain g" and "past_gate g' \<Longrightarrow> past_gate g"
    and "\<And>i s. gw_talk g' i = Some s \<Longrightarrow> gw_talk g i = Some s \<or> \<not> to_portal (stage_call s)"
  shows "gate_inv g'"
  unfolding gate_inv_def Let_def
  using assms(1)[unfolded gate_inv_def Let_def] assms(2-4) assms(5) by (metis (no_types))

lemma talk_not_portal: "gate_inv g \<Longrightarrow> gw_talk g i = Some s \<Longrightarrow> \<not> to_portal (stage_call s)"
  by (simp add: gate_inv_def Let_def)

text \<open>What an event does, thread by thread.\<close>

lemma step_cases [consumes 1]:
  assumes "step env e g = Some g'"
  obtains
    (portal_call) msg fds where "e = Portal_call msg fds" "gw_portal g = None" "gw_listed g"
      "msg_kind msg = METHOD_CALL" "g' = serve_portal env msg fds g"
  | (portal_gate) ok call where "e = Portal_gate ok" "gw_portal g = Some (Found call)"
      "g' = gate_stage env ok call g"
  | (portal_judge) policy call d s g1 where "e = Portal_judge policy" "gw_portal g = Some (Gated call d)"
      "judge_stage env policy call d g = (s, g1)" "g' = g1\<lparr>gw_portal := s\<rparr>"
  | (portal_send) ok call out req where "e = Portal_send ok" "gw_portal g = Some (Judged call out req)"
      "g' = (send_stage env ok call out req g)\<lparr>gw_portal := None\<rparr>"
  | (talk_call) i msg fds dest where "e = Talk_call i msg fds" "gw_talk g i = None" "gw_listed g"
      "msg_kind msg = METHOD_CALL" "i < length (ge_talk env)" "dest = Some (ge_talk env ! i)"
      "g' = g\<lparr>gw_received := gw_received g @ [(msg\<lparr>msg_destination := dest\<rparr>, fds, Via_Talk i)],
          gw_talk := (gw_talk g)(i := Some (Gated (msg\<lparr>msg_destination := dest\<rparr>, fds, Via_Talk i) dest))\<rparr>"
  | (talk_judge) i policy call d s g1 where "e = Talk_judge i policy" "gw_talk g i = Some (Gated call d)"
      "judge_stage env policy call d g = (s, g1)" "g' = g1\<lparr>gw_talk := (gw_talk g1)(i := s)\<rparr>"
  | (talk_send) i ok call out req where "e = Talk_send i ok" "gw_talk g i = Some (Judged call out req)"
      "g' = (send_stage env ok call out req g)\<lparr>gw_talk := (gw_talk g)(i := None)\<rparr>"
  | (leaves) "e = Client_leaves" "gw_portal g = None" "gw_listed g"
      "g' = g\<lparr>gw_client := client_departed (gw_client g), gw_listed := False\<rparr>"
  | (host) res ok n c where "e = Host_recv res ok" "gw_drain g = Waiting"
      "host_round env ok res (gw_client g) = (n, c)" "g' = host_event env res ok g"
  | (take) "e = Drain_take" "gw_drain g = Taking" "g' = take_held g"
  | (another) batch where "e = Drain_next" "gw_drain g = Batch batch" "g' = next_held env batch g"
  | (drain_gate) ok call rest where "e = Drain_gate ok" "gw_drain g = Passing (Found call) rest"
      "g' = gate_held env ok call rest g"
  | (drain_judge) policy call d rest s g1 where "e = Drain_judge policy"
      "gw_drain g = Passing (Gated call d) rest" "judge_stage env policy call d g = (s, g1)"
      "g' = g1\<lparr>gw_drain := (case s of None \<Rightarrow> Batch rest | Some s \<Rightarrow> Passing s rest)\<rparr>"
  | (drain_send) ok call out req rest where "e = Drain_send ok"
      "gw_drain g = Passing (Judged call out req) rest"
      "g' = (send_stage env ok call out req g)\<lparr>gw_drain := Batch rest\<rparr>"
  | (put) call rest where "e = Drain_back" "gw_drain g = Handing call rest" "g' = put_back call rest g"
proof (cases e)
  case Portal_call
  with assms portal_call show thesis by (auto split: if_splits)
next
  case Portal_gate
  with assms portal_gate show thesis by (auto split: option.splits stage.splits)
next
  case Portal_judge
  with assms portal_judge show thesis by (fastforce split: option.splits stage.splits prod.splits)
next
  case Portal_send
  with assms portal_send show thesis by (auto split: option.splits stage.splits)
next
  case Talk_call
  with assms talk_call show thesis by (auto simp: Let_def split: if_splits)
next
  case Talk_judge
  with assms talk_judge show thesis by (fastforce split: option.splits stage.splits prod.splits)
next
  case Talk_send
  with assms talk_send show thesis by (auto split: option.splits stage.splits)
next
  case Client_leaves
  with assms leaves show thesis by (auto split: if_splits)
next
  case (Host_recv res ok)
  obtain n c where "host_round env ok res (gw_client g) = (n, c)" by fastforce
  with assms host Host_recv show thesis by (auto split: if_splits)
next
  case Drain_take
  with assms take show thesis by (auto split: if_splits)
next
  case Drain_next
  with assms another show thesis by (auto split: drain.splits)
next
  case Drain_gate
  with assms drain_gate show thesis by (auto split: drain.splits stage.splits)
next
  case Drain_judge
  with assms drain_judge show thesis by (fastforce split: drain.splits stage.splits prod.splits)
next
  case Drain_send
  with assms drain_send show thesis by (auto split: drain.splits stage.splits)
next
  case Drain_back
  with assms put show thesis by (auto split: drain.splits)
qed

lemmas gate_simps = gate_inv_def past_gate_def idle_drain_def Let_def

lemma gate_inv_portal_gate:
  assumes inv: "gate_inv g" and p: "gw_portal g = Some (Found call)" and g': "g' = gate_stage env ok call g"
  shows "gate_inv g'"
proof -
  obtain r c where pg: "portal_gate ok False call (gw_client g) = (r, c)" by fastforce
  from pg show ?thesis
  proof (cases rule: gate_effect)
    case (goes d)
    with g' pg have "g' = g\<lparr>gw_portal := Some (Gated call d)\<rparr>" by (simp add: gate_stage_def)
    with inv p goes(5) show ?thesis by (auto simp: gate_inv_def past_gate_def Let_def)
  next
    case (failed serial)
    with g' pg inv p show ?thesis
      by (auto simp: gate_stage_def fail_call_def gate_inv_def past_gate_def Let_def)
  next
    case behind
    with g' pg inv p show ?thesis
      by (auto simp: gate_stage_def gate_inv_def past_gate_def Let_def)
  next
    case (again m)
    with g' pg inv p show ?thesis
      by (auto simp: gate_stage_def gate_inv_def past_gate_def Let_def)
  qed
qed

lemma gate_inv_drain_gate:
  assumes inv: "gate_inv g" and p: "gw_drain g = Passing (Found call) rest"
    and g': "g' = gate_held env ok call rest g"
  shows "gate_inv g'"
proof -
  obtain r c where pg: "portal_gate ok True call (gw_client g) = (r, c)" by fastforce
  from p inv have drain: "ps_draining (cl_portal (gw_client g))" and np: "\<not> past_gate g"
    by (auto simp: gate_inv_def idle_drain_def Let_def)
  from pg show ?thesis
  proof (cases rule: gate_effect)
    case (goes d)
    with g' pg have "g' = g\<lparr>gw_drain := Passing (Gated call d) rest\<rparr>" by (simp add: gate_held_def)
    with inv p drain np show ?thesis by (auto simp: gate_simps)
  next
    case (failed serial)
    with g' pg inv p drain np show ?thesis by (auto simp: gate_held_def fail_call_def gate_simps)
  next
    case (again m)
    with g' pg inv p drain np show ?thesis by (auto simp: gate_held_def gate_simps)
  qed simp
qed

lemma gate_inv_host:
  assumes inv: "gate_inv g" and w: "gw_drain g = Waiting"
    and h: "host_round env ok res (gw_client g) = (n, c)" and g': "g' = host_event env res ok g"
  shows "gate_inv g'"
proof (cases n)
  case Drain
  with host_round_portal [OF h] obtain reply
    where r: "ps_registering (cl_portal (gw_client g)) \<noteq> None" "c = registered reply (gw_client g)" by auto
  with inv have "\<not> past_gate g" by (auto simp: gate_inv_def Let_def)
  with r inv w g' h Drain show ?thesis
    by (auto simp: gate_inv_def past_gate_def host_event_def idle_drain_def Let_def)
next
  case Next
  with host_round_portal [OF h] g' h show ?thesis
    by (intro gate_inv_frame [OF inv]) (simp_all add: host_event_def past_gate_def)
next
  case Ended
  with host_round_portal [OF h] g' h inv w show ?thesis
    by (auto simp: host_event_def gate_simps)
qed

lemma gate_inv_step:
  assumes "step env e g = Some g'" and inv: "gate_inv g"
  shows "gate_inv g'"
  using assms(1)
proof (cases rule: step_cases)
  case portal_call
  then show ?thesis
    by (intro gate_inv_frame [OF inv]) (auto simp: serve_portal_def past_gate_def Let_def split: option.splits)
next
  case portal_judge
  then show ?thesis
    by (intro gate_inv_frame [OF inv])
      (use judge_stage_keeps [OF portal_judge(3)] judge_stage_settled [OF portal_judge(3)] in
       \<open>auto simp: past_gate_def\<close>)
next
  case portal_send
  then show ?thesis by (intro gate_inv_frame [OF inv]) (simp_all add: send_stage_def past_gate_def)
next
  case talk_call
  then show ?thesis
    by (intro gate_inv_frame [OF inv]) (auto simp: past_gate_def to_portal_def split: if_splits)
next
  case talk_judge
  with talk_not_portal [OF inv talk_judge(2)] show ?thesis
    by (intro gate_inv_frame [OF inv])
      (use judge_stage_keeps [OF talk_judge(3)] judge_stage_settled [OF talk_judge(3)] in
       \<open>auto simp: past_gate_def split: if_splits\<close>)
next
  case talk_send
  then show ?thesis
    by (intro gate_inv_frame [OF inv]) (auto simp: past_gate_def send_stage_def split: if_splits)
next
  case leaves
  then show ?thesis by (intro gate_inv_frame [OF inv]) (simp_all add: client_departed_def past_gate_def)
next
  case take
  with inv show ?thesis
    by (cases "ps_held (cl_portal (gw_client g)) = []") (auto simp: take_held_def gate_simps)
next
  case (another batch)
  with inv show ?thesis
    by (cases batch; cases "gw_listed g") (auto simp: next_held_def fail_call_def gate_simps)
next
  case drain_judge
  with judge_stage_keeps [OF drain_judge(3)] judge_stage_settled [OF drain_judge(3)] inv show ?thesis
    by (auto simp: gate_simps)
next
  case drain_send
  with inv show ?thesis by (auto simp: send_stage_def gate_simps)
next
  case put
  with inv show ?thesis by (auto simp: put_back_def gate_simps)
qed (use inv in \<open>blast intro: gate_inv_portal_gate gate_inv_drain_gate gate_inv_host\<close>)+

lemma gate_inv_start: "fresh c \<Longrightarrow> gate_inv (start c)"
  by (simp add: fresh_def start_def gate_simps)

lemma gate_inv_run: "run env evs (start c) = Some g \<Longrightarrow> fresh c \<Longrightarrow> gate_inv g"
  by (induction rule: run_invariant) (auto intro: gate_inv_start gate_inv_step)

text \<open>A call that takes the front of the waiting ones: nothing waits before it.\<close>

lemma gate_open_empty:
  assumes "gate_inv g" and "\<not> ps_draining (cl_portal (gw_client g))" and "ps_registering (cl_portal (gw_client g)) = None"
  shows "drain_calls (gw_drain g) = [] \<and> ps_held (cl_portal (gw_client g)) = []"
  using assms by (auto simp: gate_simps)

lemma past_gate_empty:
  assumes "gate_inv g" and "past_gate g"
  shows "drain_calls (gw_drain g) = [] \<and> ps_held (cl_portal (gw_client g)) = []"
proof (rule gate_open_empty [OF assms(1)])
  from assms show "\<not> ps_draining (cl_portal (gw_client g))"
    "ps_registering (cl_portal (gw_client g)) = None" by (auto simp: gate_inv_def Let_def)
qed

lemma portal_sent_simps [simp]:
  "portal_sent (dispatch env ok call out req c)
     = portal_sent c @ (if cl_closed c \<or> \<not> ok then [] else filter to_portal [call])"
  by (simp add: portal_sent_def dispatch_sent)

lemma drain_to_portal: "gate_inv g \<Longrightarrow> list_all to_portal (drain_calls (gw_drain g))"
  by (simp add: gate_inv_def Let_def)

lemma subseq_longer [simp]: "subseq xs ys \<Longrightarrow> subseq xs (ys @ zs)"
  by (metis append.right_neutral list_emb_Nil list_emb_append_mono)

lemma portal_sent_reply [simp]: "portal_sent (gw_reply_error via m name text c) = portal_sent c"
  by (simp add: portal_sent_def)

lemma host_round_sent:
  assumes "host_round env ok res c = (n, c')"
  shows "cl_sent c' = cl_sent c \<or> (\<exists>m. cl_sent c' = cl_sent c @ [(cl_serial c, None, m)])"
  using assms by (auto simp: host_round_def refuse_call_def host_send_def Let_def
      split: sum.splits conn_error.splits prod.splits if_splits option.splits)

lemma order_inv_step:
  assumes "step env e g = Some g'" and gate: "gate_inv g" and inv: "order_inv g"
  shows "order_inv g'"
proof -
  note order = order_inv_def waiting_def
  show ?thesis
    using assms(1)
  proof (cases rule: step_cases)
    case portal_call
    with inv show ?thesis
      by (auto simp: order serve_portal_def to_portal_def Let_def split: option.splits)
  next
    case (portal_gate ok call)
    obtain r c where pg: "portal_gate ok False call (gw_client g) = (r, c)" by fastforce
    from pg show ?thesis
    proof (cases rule: gate_effect)
      case (goes d)
      with portal_gate pg inv show ?thesis by (simp add: order gate_stage_def)
    next
      case (failed serial)
      with gate_open_empty [OF gate] portal_gate pg inv show ?thesis
        by (simp add: order gate_stage_def fail_call_def portal_sent_def)
    next
      case behind
      with portal_gate pg inv show ?thesis by (simp add: order gate_stage_def portal_sent_def)
    next
      case (again m)
      with portal_gate pg inv show ?thesis
        by (simp add: order gate_stage_def portal_sent_def)
    qed
  next
    case (portal_judge policy call d s g1)
    note keeps = judge_stage_keeps [OF portal_judge(3)] inv past_gate_empty [OF gate] portal_judge(2,4)
    from judge_stage_settled [OF portal_judge(3)] show ?thesis
    proof (elim disjE conjE exE)
      assume "s = None" "gw_settled g1 = gw_settled g @ filter to_portal [call]"
      with keeps show ?thesis
        by (cases "to_portal call") (simp_all add: order past_gate_def portal_sent_def)
    next
      fix out req assume "s = Some (Judged call out req)" "gw_settled g1 = gw_settled g"
      with keeps show ?thesis
        by (cases "to_portal call") (simp_all add: order past_gate_def portal_sent_def)
    qed
  next
    case (portal_send ok call out req)
    with inv past_gate_empty [OF gate] show ?thesis
      by (auto simp: order past_gate_def send_stage_def)
  next
    case talk_call
    with inv show ?thesis by (simp add: order to_portal_def)
  next
    case talk_judge
    with judge_stage_keeps [OF talk_judge(3)] judge_stage_settled [OF talk_judge(3)] inv
      talk_not_portal [OF gate talk_judge(2)]
    show ?thesis by (auto simp: order portal_sent_def)
  next
    case talk_send
    with inv talk_not_portal [OF gate talk_send(2)] show ?thesis by (simp add: order send_stage_def)
  next
    case leaves
    with inv show ?thesis by (simp add: order client_departed_def portal_sent_def)
  next
    case (host res ok n c)
    with host_round_sent [OF host(3)] host_round_portal [OF host(3)] inv show ?thesis
      by (cases n) (auto simp: order host_event_def portal_sent_def)
  next
    case take
    with inv show ?thesis by (simp add: order take_held_def portal_sent_def Let_def)
  next
    case (another batch)
    with inv drain_to_portal [OF gate] show ?thesis
      by (cases batch; cases "gw_listed g") (simp_all add: order next_held_def fail_call_def portal_sent_def)
  next
    case (drain_gate ok call rest)
    obtain r c where pg: "portal_gate ok True call (gw_client g) = (r, c)" by fastforce
    from pg show ?thesis
    proof (cases rule: gate_effect)
      case (goes d)
      with drain_gate pg inv show ?thesis by (simp add: order gate_held_def)
    next
      case (failed serial)
      with drain_gate pg inv show ?thesis
        by (simp add: order gate_held_def fail_call_def portal_sent_def)
    next
      case (again m)
      with drain_gate pg inv show ?thesis
        by (simp add: order gate_held_def portal_sent_def)
    qed simp
  next
    case (drain_judge policy call d rest s g1)
    with judge_stage_keeps [OF drain_judge(3)] judge_stage_settled [OF drain_judge(3)] inv
      drain_to_portal [OF gate] drain_judge(2,4)
    show ?thesis by (auto simp: order portal_sent_def)
  next
    case drain_send
    with inv drain_to_portal [OF gate] show ?thesis by (simp add: order send_stage_def)
  next
    case put
    with inv show ?thesis by (simp add: order put_back_def portal_sent_def Let_def)
  qed
qed

text \<open>
  C4. Portal calls keep their order, whatever the threads interleave and however often the portal
  restarts: the calls the portal gets from a client are, in the order of the wire, calls the client
  made, in its order, and every portal call read is settled or waits, none overtaken. A call is
  held only while a registration is outstanding or the held calls are being passed on.
\<close>

theorem calls_in_order:
  assumes "run env evs (start c) = Some g" and "fresh c"
  shows "filter to_portal (gw_received g) = gw_settled g @ waiting g
    \<and> subseq (portal_sent (gw_client g)) (gw_settled g)
    \<and> (ps_held (cl_portal (gw_client g)) \<noteq> [] \<longrightarrow>
         ps_registering (cl_portal (gw_client g)) \<noteq> None \<or> \<not> idle_drain (gw_drain g))"
proof -
  have "gate_inv g \<and> order_inv g"
    using assms(1)
  proof (induction rule: run_invariant)
    case start
    with assms(2) show ?case
      by (simp add: gate_inv_start) (simp add: order_inv_def waiting_def start_def fresh_def portal_sent_def)
  qed (blast intro: gate_inv_step order_inv_step)
  then show ?thesis unfolding order_inv_def gate_inv_def Let_def by blast
qed

text \<open>
  A call after the portal has gone: a registration is sent, the call is held, and when the answer
  comes it is passed on, to be held again, the new portal's name not yet known.
\<close>

definition example_env :: gw_env where
  "example_env = \<lparr>ge_talk = [''org.example.Talk''], ge_unique = '':1.2'', ge_introspection = '''',
     ge_reason = (\<lambda>_. ''refused''), ge_failure = ''failed'', ge_expose = (\<lambda>_ _. None)\<rparr>"

definition example_reply :: "u32 \<Rightarrow> message" where
  "example_reply serial =
     message_default\<lparr>msg_kind := METHOD_RETURN, msg_reply_serial := Some serial, msg_sender := Some '':1.3''\<rparr>"

definition example_client :: gw_client where
  "example_client =
     new_client '':1.7'' '':1.42'' (Some ''org.example.App'') (Inr (example_reply 2)) (\<lambda>_. None) 7"

definition example_call_msg :: message where
  "example_call_msg = message_default\<lparr>msg_kind := METHOD_CALL, msg_serial := 9, msg_path := Some PORTAL_PATH,
     msg_interface := Some ''org.freedesktop.DBus.Peer'', msg_member := Some ''Ping'',
     msg_sender := Some '':1.7'', msg_destination := Some PORTAL_NAME\<rparr>"

theorem calls_in_order_witness:
  "\<exists>g. run example_env [Portal_call example_call_msg [], Portal_gate True, Host_recv (Inr (example_reply 7, [])) True,
       Drain_take, Drain_next, Drain_gate True, Drain_back] (start example_client) = Some g
     \<and> gw_settled g = [] \<and> filter to_portal (gw_received g) = waiting g"
proof -
  obtain g where g: "run example_env [Portal_call example_call_msg [], Portal_gate True,
      Host_recv (Inr (example_reply 7, [])) True, Drain_take, Drain_next, Drain_gate True, Drain_back]
      (start example_client) = Some g" and "gw_settled g = []"
    by (simp add: run_def serve_portal_def start_def service_for_def example_call_msg_def or_default_def
        GATEWAY_NAMES_def gate_stage_def portal_gate_def to_portal_def example_client_def new_client_def
        host_send_def hold_def host_event_def host_round_def registered_def take_held_def next_held_def
        gate_held_def put_back_def example_reply_def kind_defs Let_def)
  moreover have "fresh example_client" unfolding example_client_def by (rule new_client_fresh)
  ultimately show ?thesis using calls_in_order [OF g] by auto
qed

end
