(* ===== verification/Gateway_Answers.thy ===== *)
theory Gateway_Answers
  imports Gateway
begin

text \<open>
  \<open>src/src/gateway.rs\<close>: every call a client makes is answered once. An answer on the private bus is
  named by the connection it goes out on and the serial it replies to; a call by the connection it
  came in on and its serial. What is owed for a call is in one place at a time: in the hands of a
  thread, in the pending calls of the host connection, or already answered.
\<close>

section \<open>Answers, and calls that expect one\<close>

definition answer_of :: "via \<times> message \<Rightarrow> (via \<times> u32) multiset" where
  "answer_of a = (case msg_reply_serial (snd a) of None \<Rightarrow> {#} | Some s \<Rightarrow> {#(fst a, s)#})"

definition call_id :: "call \<Rightarrow> (via \<times> u32) multiset" where
  "call_id call = (if expects_reply (fst call) then {#(snd (snd call), msg_serial (fst call))#} else {#})"

definition call_ids :: "call list \<Rightarrow> (via \<times> u32) multiset" where
  "call_ids calls = (\<Sum>call\<leftarrow>calls. call_id call)"

definition pending_id :: "gw_pending \<Rightarrow> via \<times> u32" where
  "pending_id p = (pd_via p, pd_caller p)"

text \<open>Answered, or to be answered when the host connection answers.\<close>

definition answered :: "gw_client \<Rightarrow> (via \<times> u32) multiset" where
  "answered c = (\<Sum>a\<leftarrow>cl_private c. answer_of a)"

definition owed :: "gw_client \<Rightarrow> (via \<times> u32) multiset" where
  "owed c = image_mset (pending_id \<circ> snd) (mset (cl_pending c))"

lemma call_ids_simps [simp]:
  "call_ids [] = {#}" "call_ids (call # calls) = call_id call + call_ids calls"
  "call_ids (xs @ ys) = call_ids xs + call_ids ys"
  by (simp_all add: call_ids_def)

lemma call_id_destination [simp]: "call_id (msg\<lparr>msg_destination := d\<rparr>, fds, via) = call_id (msg, fds, via)"
  by (simp add: call_id_def expects_reply_def)

lemma call_id_stage [simp]: "call_id (stage_call (Found call)) = call_id call"
  by simp

section \<open>Rewriting keeps what a message answers\<close>

lemma set_body_reply: "set_body args m = Some m' \<Longrightarrow> msg_reply_serial m' = msg_reply_serial m"
  by (auto simp: set_body_def split: bind_splits)

lemma rewrite_paths_reply: "rewrite_paths m a b = Some m' \<Longrightarrow> msg_reply_serial m' = msg_reply_serial m"
  by (auto simp: rewrite_paths_def Let_def split: if_splits sum.splits option.splits dest: set_body_reply)

lemma or_keep_reply [simp]:
  "msg_reply_serial (or_keep m (rewrite_paths m a b)) = msg_reply_serial m"
  "msg_reply_serial (or_keep m (set_body args m)) = msg_reply_serial m"
  "msg_reply_serial (or_keep m' (error_reply asked name why)) = Some (msg_serial asked)"
  using error_reply_built [of asked name why]
  by (auto simp: or_keep_def split: option.split dest: set_body_reply rewrite_paths_reply)

section \<open>What each handler answers\<close>

lemma answered_append [simp]:
  "answered (c\<lparr>cl_private := cl_private c @ xs\<rparr>) = answered c + (\<Sum>a\<leftarrow>xs. answer_of a)"
  by (simp add: answered_def)

lemma answered_same: "cl_private c' = cl_private c \<Longrightarrow> answered c' = answered c"
  by (simp add: answered_def)

lemma answered_reply_error [simp]:
  "answered (gw_reply_error via m name text c) = answered c + call_id (m, fds, via)"
  by (auto simp: gw_reply_error_def call_id_def answer_of_def answered_def)

lemma owed_reply_error [simp]: "owed (gw_reply_error via m name text c) = owed c"
  by (simp add: owed_def)

text \<open>The pending calls are keyed by serials already taken.\<close>

definition pending_ok :: "gw_client \<Rightarrow> bool" where
  "pending_ok c \<longleftrightarrow> bt_ok (cl_pending c) \<and> (\<forall>k \<in> fst ` set (cl_pending c). unat k < unat (cl_serial c))"

lemma mset_bt_insert:
  "k \<notin> fst ` set m \<Longrightarrow> mset (bt_insert m k v) = add_mset (k, v) (mset m)"
  by (induction m k v rule: bt_insert.induct) auto

lemma mset_bt_remove:
  "distinct (map fst m) \<Longrightarrow> bt_get m k = Some v \<Longrightarrow> mset m = add_mset (k, v) (mset (bt_remove m k))"
proof (induction m)
  case (Cons e m)
  show ?case
  proof (cases "fst e = k")
    case True
    with Cons.prems have "filter (\<lambda>e. fst e \<noteq> k) m = m" by (auto simp: filter_id_conv image_iff)
    with True Cons.prems show ?thesis by (cases e) (simp add: bt_remove_def)
  next
    case False
    with Cons show ?thesis by (simp add: bt_remove_def add_mset_commute)
  qed
qed simp

lemma judge_answers:
  assumes "judge env policy call d c = (j, c')"
  shows "owed c' = owed c"
    and "answered c' = answered c + (case j of Answered \<Rightarrow> call_id call | Sends _ _ \<Rightarrow> {#})"
  using assms
  by (auto simp: judge_def owed_def answered_def call_id_def answer_of_def gw_reply_error_def method_return_def
      Let_def split: prod.splits verdict.splits via.splits if_splits)

lemma dispatch_answers:
  assumes ok: "pending_ok c" and s: "unat (cl_serial c) + 1 < 2 ^ 32"
  shows "owed (dispatch env sent call out req c) + answered (dispatch env sent call out req c)
      = owed c + answered c + call_id call"
    and "pending_ok (dispatch env sent call out req c)"
proof -
  obtain msg fds via where call: "call = (msg, fds, via)" by (cases call)
  let ?c = "c\<lparr>cl_serial := cl_serial c + 1\<rparr>"
  from s have n: "unat (cl_serial c + 1) = unat (cl_serial c) + 1"
    by (simp add: unat_plus_if_size word_size)
  with ok have ok': "pending_ok ?c" by (auto simp: pending_ok_def)
  let ?same = "\<lambda>c'. owed c' + answered c' = owed c + answered c + call_id call \<and> pending_ok c'"
  have "?same (dispatch env sent call out req c)"
  proof (cases "cl_closed c \<or> \<not> sent")
    case True
    then have "dispatch env sent call out req c = gw_reply_error via msg failed_name (ge_failure env) ?c"
      by (auto simp: dispatch_def host_send_def call Let_def)
    with ok' show ?thesis
      by (simp add: call answered_reply_error [of _ _ _ _ _ fds])
        (auto simp: owed_def answered_def pending_ok_def)
  next
    case False
    let ?d = "?c\<lparr>cl_sent := cl_sent c @ [(cl_serial c, Some call, out)]\<rparr>"
    let ?p = "\<lparr>pd_caller = msg_serial msg, pd_file = req, pd_via = via,
                 pd_opens = (via = Via_Portal \<and> msg_interface msg = Some OPEN_URI_IFACE)\<rparr>"
    from False have d: "dispatch env sent call out req c
        = (if expects_reply msg then ?d\<lparr>cl_pending := bt_insert (cl_pending c) (cl_serial c) ?p\<rparr> else ?d)"
      by (simp add: dispatch_def host_send_def call Let_def)
    have fresh: "cl_serial c \<notin> fst ` set (cl_pending c)" using ok by (auto simp: pending_ok_def)
    show ?thesis
    proof (cases "expects_reply msg")
      case True
      with ok' fresh n show ?thesis
        by (auto simp: d [unfolded call] call call_id_def owed_def answered_def pending_ok_def mset_bt_insert pending_id_def
            keys_bt_insert)
    next
      case False
      with ok' show ?thesis by (simp add: d [unfolded call] call call_id_def owed_def answered_def pending_ok_def)
    qed
  qed
  then show "owed (dispatch env sent call out req c) + answered (dispatch env sent call out req c)
      = owed c + answered c + call_id call" "pending_ok (dispatch env sent call out req c)"
    by simp_all
qed

lemma relay_reply_answers:
  assumes ok: "pending_ok c" and "\<not> cl_gone c"
  shows "owed (relay_reply msg c) + answered (relay_reply msg c) = owed c + answered c"
proof (cases "msg_reply_serial msg")
  case None
  then show ?thesis by (simp add: relay_reply_def)
next
  case (Some serial)
  show ?thesis
  proof (cases "bt_get (cl_pending c) serial")
    case None
    with Some show ?thesis by (simp add: relay_reply_def)
  next
    case p: (Some p)
    from ok have "distinct (map fst (cl_pending c))" by (simp add: pending_ok_def bt_ok_distinct)
    note m = mset_bt_remove [OF this p]
    have "owed c = add_mset (pending_id p) (image_mset (pending_id \<circ> snd) (mset (bt_remove (cl_pending c) serial)))"
      using m by (simp add: owed_def)
    moreover from Some p assms(2)
    have "owed (relay_reply msg c) = image_mset (pending_id \<circ> snd) (mset (bt_remove (cl_pending c) serial))"
      by (simp add: relay_reply_def owed_def Let_def)
    moreover from Some p assms(2) have "answered (relay_reply msg c) = answered c + {#pending_id p#}"
      by (simp add: relay_reply_def answered_def answer_of_def pending_id_def Let_def)
    ultimately show ?thesis by simp
  qed
qed

lemma relay_reply_pending [simp]: "pending_ok c \<Longrightarrow> pending_ok (relay_reply msg c)"
  by (auto simp: pending_ok_def relay_reply_def Let_def bt_remove_def split: option.splits)

lemma fail_pending_answers:
  "\<not> cl_gone c \<Longrightarrow> owed (fail_pending c) + answered (fail_pending c) = owed c + answered c"
proof -
  have "(\<Sum>p\<leftarrow>ps. answer_of (no_reply d (snd p))) = image_mset (pending_id \<circ> snd) (mset ps)" for d ps
    by (induction ps) (simp_all add: no_reply_def answer_of_def pending_id_def Let_def)
  then show "\<not> cl_gone c \<Longrightarrow> ?thesis"
    by (simp add: fail_pending_def owed_def answered_def Let_def comp_def [of answer_of])
qed

lemma end_open_requests_answers [simp]:
  "answered (end_open_requests c) = answered c" "owed (end_open_requests c) = owed c"
proof -
  have "(\<Sum>p\<leftarrow>ps. answer_of (end_request d p)) = {#}" for d ps
    by (induction ps) (simp_all add: end_request_def answer_of_def message_default_def Let_def)
  then show "answered (end_open_requests c) = answered c" "owed (end_open_requests c) = owed c"
    by (simp_all add: end_open_requests_def owed_def answered_def Let_def comp_def)
qed

lemma close_if_done_answers [simp]:
  "answered (close_if_done c) = answered c" "owed (close_if_done c) = owed c"
  by (simp_all add: answered_def owed_def)

lemma relay_signal_answers [simp]:
  "answered (relay_signal env msg c) = answered c" "owed (relay_signal env msg c) = owed c"
  by (auto simp: relay_signal_def answered_def owed_def answer_of_def message_default_def close_if_done_def Let_def
      split: option.split sum.split bool.split)

lemma portal_left_answers [simp]:
  "answered (portal_left args c) = answered c" "owed (portal_left args c) = owed c"
  using end_open_requests_answers [of "c\<lparr>cl_owners := owner_changed args (cl_owners c)\<rparr>"]
  by (simp_all add: portal_left_def Let_def) (simp_all add: answered_def owed_def)

lemma pending_ok_frame:
  "pending_ok c \<Longrightarrow> cl_pending c' = cl_pending c \<Longrightarrow> unat (cl_serial c) \<le> unat (cl_serial c') \<Longrightarrow> pending_ok c'"
  by (fastforce simp: pending_ok_def)

lemma owed_frame:
  "cl_pending c' = cl_pending c \<Longrightarrow> cl_private c' = cl_private c \<Longrightarrow> owed c' = owed c \<and> answered c' = answered c"
  by (simp add: owed_def answered_def)

text \<open>The serial goes up by at most one.\<close>

definition serial_step :: "gw_client \<Rightarrow> gw_client \<Rightarrow> bool" where
  "serial_step c c' \<longleftrightarrow> cl_serial c' = cl_serial c \<or> cl_serial c' = cl_serial c + 1"

text \<open>A stretch of code in which what is answered or owed grows by the calls named.\<close>

definition accounts :: "(via \<times> u32) multiset \<Rightarrow> gw_client \<Rightarrow> gw_client \<Rightarrow> bool" where
  "accounts ids c c' \<longleftrightarrow>
     serial_step c c' \<and> (cl_gone c \<longrightarrow> cl_gone c') \<and> (cl_closed c \<longrightarrow> cl_closed c')
     \<and> (cl_closed c \<and> cl_pending c = [] \<longrightarrow> cl_pending c' = [])
     \<and> (unat (cl_serial c) + 1 < 2 ^ 32 \<longrightarrow> pending_ok c \<longrightarrow>
          pending_ok c' \<and> (\<not> cl_gone c' \<longrightarrow> owed c' + answered c' = owed c + answered c + ids))"

lemma serial_next: "unat (s :: u32) + 1 < 2 ^ 32 \<Longrightarrow> unat (s + 1) = unat s + 1"
  by (simp add: unat_plus_if_size word_size)

lemma accounts_frame:
  assumes "serial_step c c'" and "cl_gone c \<Longrightarrow> cl_gone c'" and "cl_closed c \<Longrightarrow> cl_closed c'"
    and "cl_pending c' = cl_pending c" and "answered c' = answered c + ids"
  shows "accounts ids c c'"
proof -
  have "owed c' = owed c" using assms(4) by (simp add: owed_def)
  moreover have "pending_ok c'" if "pending_ok c" "unat (cl_serial c) + 1 < 2 ^ 32"
    using that assms(1,4) serial_next [of "cl_serial c"]
    by (intro pending_ok_frame [of c c']) (auto simp: serial_step_def)
  ultimately show ?thesis using assms by (simp add: accounts_def)
qed

lemma serial_step_same: "cl_serial c' = cl_serial c \<Longrightarrow> serial_step c c'"
  by (simp add: serial_step_def)

lemma gate_accounts:
  assumes "portal_gate ok from_held call c = (r, c')"
  shows "accounts {#} c c'"
  using assms
proof (cases rule: gate_effect)
  case (failed serial)
  then have "c' = snd (host_send False None m c)" for m
    using assms by (auto simp: portal_gate_def host_send_def Let_def split: if_splits option.splits)
  then show ?thesis by (intro accounts_frame) (auto simp: serial_step_def host_send_def Let_def answered_def)
qed (auto intro!: accounts_frame simp: serial_step_def answered_def)

lemma judge_accounts:
  assumes "judge env policy call d c = (j, c')"
  shows "accounts (case j of Answered \<Rightarrow> call_id call | Sends _ _ \<Rightarrow> {#}) c c'"
  using judge_keeps [OF assms] judge_answers(2) [OF assms] by (intro accounts_frame) (simp_all add: serial_step_same)

lemma reply_accounts: "accounts (call_id (msg, fds, via)) c (gw_reply_error via msg name why c)"
  by (intro accounts_frame) (simp_all add: serial_step_same answered_reply_error [of _ _ _ _ _ fds])

lemma dispatch_accounts: "accounts (call_id call) c (dispatch env sent call out req c)"
proof -
  have "serial_step c (dispatch env sent call out req c)"
    and "cl_closed c \<Longrightarrow> cl_pending (dispatch env sent call out req c) = cl_pending c"
    by (auto simp: serial_step_def dispatch_def host_send_def Let_def split: prod.split)
  with dispatch_answers [of c env sent call out req] show ?thesis by (auto simp: accounts_def)
qed

lemma host_round_accounts:
  assumes "host_round env ok res c = (n, c')"
  shows "accounts {#} c c'" and "n = Ended \<Longrightarrow> cl_closed c' \<and> cl_pending c' = []"
proof -
  have "cl_pending c = [] \<Longrightarrow> cl_pending (relay_reply msg c) = []" for msg
    by (simp add: relay_reply_def split: option.split)
  then have reply: "accounts {#} c (relay_reply msg c)" for msg
    using relay_reply_answers [of c msg] by (simp add: accounts_def serial_step_def)
  have over: "accounts {#} c (end_open_requests (fail_pending (c\<lparr>cl_closed := True\<rparr>)))"
    using fail_pending_answers [of "c\<lparr>cl_closed := True\<rparr>"]
    by (simp add: accounts_def serial_step_def pending_ok_def) (simp add: owed_def answered_def)
  have refuse: "accounts {#} c (refuse_call ok msg c)" for msg
    by (intro accounts_frame) (auto simp: refuse_call_def serial_step_def host_send_def Let_def answered_def)
  have "answered (registered msg c) = answered c" for msg by (rule answered_same) simp
  then have others: "accounts {#} c (relay_signal env msg c)" "accounts {#} c (portal_left args c)"
    "accounts {#} c (registered msg c)" "accounts {#} c c" for msg args
    by (simp_all add: accounts_frame serial_step_def)
  show "accounts {#} c c'"
    using assms reply over refuse others
    by (auto simp: host_round_def split: sum.splits conn_error.splits prod.splits if_splits option.splits)
  show "cl_closed c' \<and> cl_pending c' = []" if "n = Ended"
    using assms that
    by (auto simp: host_round_def split: sum.splits conn_error.splits prod.splits if_splits option.splits)
qed

section \<open>The threads\<close>

definition stage_ids :: "stage option \<Rightarrow> (via \<times> u32) multiset" where
  "stage_ids s = (case s of None \<Rightarrow> {#} | Some s \<Rightarrow> call_id (stage_call s))"

text \<open>The calls in the hands of a thread, or held.\<close>

definition in_hand :: "gw_env \<Rightarrow> gw \<Rightarrow> (via \<times> u32) multiset" where
  "in_hand env g =
     call_ids (drain_calls (gw_drain g)) + call_ids (ps_held (cl_portal (gw_client g)))
     + stage_ids (gw_portal g) + (\<Sum>i<length (ge_talk env). stage_ids (gw_talk g i))"

definition answer_inv :: "nat \<Rightarrow> gw_env \<Rightarrow> gw \<Rightarrow> bool" where
  "answer_inv n env g \<longleftrightarrow>
     (let c = gw_client g in
      unat (cl_serial c) \<le> n \<and> pending_ok c
      \<and> (\<forall>i s. gw_talk g i = Some s \<longrightarrow> i < length (ge_talk env))
      \<and> (gw_drain g = Over \<longrightarrow> cl_closed c \<and> cl_pending c = [])
      \<and> (\<not> cl_gone c \<longrightarrow> call_ids (gw_received g) = answered c + owed c + in_hand env g))"

lemma answer_inv_next:
  assumes inv: "answer_inv n env g" and n: "Suc n < 2 ^ 32"
    and acc: "accounts ids (gw_client g) (gw_client g')"
    and eq: "call_ids (gw_received g') + in_hand env g = call_ids (gw_received g) + in_hand env g' + ids"
    and talk: "\<And>i s. gw_talk g' i = Some s \<Longrightarrow> i < length (ge_talk env) \<or> gw_talk g i \<noteq> None"
    and over: "gw_drain g' = Over \<Longrightarrow> gw_drain g = Over \<or> cl_closed (gw_client g') \<and> cl_pending (gw_client g') = []"
  shows "answer_inv (Suc n) env g'"
proof -
  let ?c = "gw_client g" and ?c' = "gw_client g'"
  from inv have i: "unat (cl_serial ?c) \<le> n" "pending_ok ?c"
    "\<And>i s. gw_talk g i = Some s \<Longrightarrow> i < length (ge_talk env)"
    "gw_drain g = Over \<Longrightarrow> cl_closed ?c \<and> cl_pending ?c = []"
    "\<not> cl_gone ?c \<Longrightarrow> call_ids (gw_received g) = answered ?c + owed ?c + in_hand env g"
    by (auto simp: answer_inv_def Let_def)
  have s: "unat (cl_serial ?c) + 1 < 2 ^ 32" using i(1) n by simp
  with acc i(2) have p: "pending_ok ?c'"
    and o': "\<not> cl_gone ?c' \<Longrightarrow> owed ?c' + answered ?c' = owed ?c + answered ?c + ids"
    by (simp_all add: accounts_def)
  from acc have "unat (cl_serial ?c') \<le> Suc n"
    using serial_next [OF s] i(1) by (auto simp: accounts_def serial_step_def)
  moreover have "gw_drain g' = Over \<Longrightarrow> cl_closed ?c' \<and> cl_pending ?c' = []"
    using over i(4) acc by (auto simp: accounts_def)
  moreover have "call_ids (gw_received g') = answered ?c' + owed ?c' + in_hand env g'" if g: "\<not> cl_gone ?c'"
  proof -
    from g acc have "\<not> cl_gone ?c" by (auto simp: accounts_def)
    from i(5) [OF this] eq have "call_ids (gw_received g') + in_hand env g
        = answered ?c + owed ?c + ids + in_hand env g' + in_hand env g" by (simp add: ac_simps)
    with o' [OF g] show ?thesis by (simp add: ac_simps)
  qed
  moreover have "gw_talk g' i = Some s \<Longrightarrow> i < length (ge_talk env)" for i s
    using talk [of i s] i(3) by auto
  ultimately show ?thesis using p by (simp add: answer_inv_def Let_def)
qed

lemma talk_ids_split:
  "i < (n :: nat) \<Longrightarrow> (\<Sum>j<n. stage_ids (f j)) = stage_ids (f i) + (\<Sum>j\<in>{..<n} - {i}. stage_ids (f j))"
  using sum.remove [of "{..<n}" i "\<lambda>j. stage_ids (f j)"] by simp

lemma talk_ids_update:
  assumes "i < (n :: nat)"
  shows "(\<Sum>j<n. stage_ids ((f(i := x)) j)) = stage_ids x + (\<Sum>j\<in>{..<n} - {i}. stage_ids (f j))"
proof -
  have "(\<Sum>j\<in>{..<n} - {i}. stage_ids ((f(i := x)) j)) = (\<Sum>j\<in>{..<n} - {i}. stage_ids (f j))"
    by (intro sum.cong) auto
  with talk_ids_split [OF assms, of "f(i := x)"] show ?thesis by simp
qed

lemma judge_stage_accounts:
  assumes "judge_stage env policy call d g = (s, g')"
  shows "accounts (case s of None \<Rightarrow> call_id call | Some _ \<Rightarrow> {#}) (gw_client g) (gw_client g')"
    and "stage_ids s + (case s of None \<Rightarrow> call_id call | Some _ \<Rightarrow> {#}) = call_id call"
proof -
  obtain j c where j: "judge env policy call d (gw_client g) = (j, c)" by fastforce
  from judge_accounts [OF j] assms j
  show "accounts (case s of None \<Rightarrow> call_id call | Some _ \<Rightarrow> {#}) (gw_client g) (gw_client g')"
    by (auto simp: judge_stage_def split: judged.splits)
  from assms j show "stage_ids s + (case s of None \<Rightarrow> call_id call | Some _ \<Rightarrow> {#}) = call_id call"
    by (auto simp: judge_stage_def stage_ids_def split: judged.splits)
qed

lemma failed_gate_accounts:
  assumes "portal_gate ok from_held call c = (Gate_failed, c')"
  shows "accounts (call_id call) c (gw_reply_error (snd (snd call)) (fst call) name why c')"
  using assms
proof (cases rule: gate_effect)
  case (failed serial)
  moreover have "serial_step c c'" using gate_accounts [OF assms] by (simp add: accounts_def)
  ultimately show ?thesis
    using answered_reply_error [of "snd (snd call)" "fst call" name why c' "fst (snd call)"]
    by (intro accounts_frame) (simp_all add: serial_step_def answered_def)
qed (simp_all split: if_splits)

lemma fail_call_accounts:
  "accounts (call_id call) (gw_client g) (gw_client (fail_call env call g))"
  using reply_accounts [of "fst call" "fst (snd call)" "snd (snd call)"] by (simp add: fail_call_def)

lemma answer_inv_talk:
  assumes inv: "answer_inv n env g" and n: "Suc n < 2 ^ 32" and i: "i < length (ge_talk env)"
    and acc: "accounts ids (gw_client g) (gw_client g')"
    and eq: "call_ids (gw_received g') + stage_ids (gw_talk g i) = call_ids (gw_received g) + stage_ids s + ids"
    and g': "gw_talk g' = (gw_talk g)(i := s)" "gw_drain g' = gw_drain g" "gw_portal g' = gw_portal g"
      "ps_held (cl_portal (gw_client g')) = ps_held (cl_portal (gw_client g))"
  shows "answer_inv (Suc n) env g'"
proof (rule answer_inv_next [OF inv n acc])
  let ?rest = "\<Sum>j\<in>{..<length (ge_talk env)} - {i}. stage_ids (gw_talk g j)"
  let ?base = "call_ids (drain_calls (gw_drain g)) + call_ids (ps_held (cl_portal (gw_client g)))
    + stage_ids (gw_portal g)"
  have "in_hand env g = ?base + stage_ids (gw_talk g i) + ?rest"
    using talk_ids_split [OF i, of "gw_talk g"] by (simp add: in_hand_def ac_simps)
  moreover have "in_hand env g' = ?base + stage_ids s + ?rest"
    using talk_ids_update [OF i, of "gw_talk g" s] by (simp add: in_hand_def g' ac_simps)
  ultimately show "call_ids (gw_received g') + in_hand env g = call_ids (gw_received g) + in_hand env g' + ids"
    using arg_cong [OF eq, of "\<lambda>x. x + ?base + ?rest"] by (simp add: ac_simps)
qed (use i g' in \<open>auto split: if_splits\<close>)

lemma answer_inv_gate:
  assumes inv: "answer_inv n env g" and n: "Suc n < 2 ^ 32"
    and p: "gw_portal g = Some (Found call)" and g': "g' = gate_stage env ok call g"
  shows "answer_inv (Suc n) env g'"
proof -
  obtain r c where pg: "portal_gate ok False call (gw_client g) = (r, c)" by fastforce
  note acc = gate_accounts [OF pg]
  note count = in_hand_def stage_ids_def p g' gate_stage_def pg
  from pg show ?thesis
  proof (cases rule: gate_effect)
    case (goes d)
    with acc show ?thesis by (intro answer_inv_next [OF inv n, of "{#}"]) (simp_all add: count)
  next
    case (failed serial)
    with pg have "accounts (call_id call) (gw_client g) (gw_client g')"
      using failed_gate_accounts [of ok False call "gw_client g" c] by (simp add: g' gate_stage_def fail_call_def)
    with failed show ?thesis
      by (intro answer_inv_next [OF inv n, of "call_id call"]) (simp_all add: count fail_call_def ac_simps)
  next
    case behind
    with acc show ?thesis
      by (intro answer_inv_next [OF inv n, of "{#}"]) (simp_all add: count ac_simps)
  next
    case (again m)
    with acc show ?thesis
      by (intro answer_inv_next [OF inv n, of "{#}"]) (simp_all add: count ac_simps)
  qed
qed

lemma answer_inv_drain_gate:
  assumes inv: "answer_inv n env g" and n: "Suc n < 2 ^ 32"
    and p: "gw_drain g = Passing (Found call) rest" and g': "g' = gate_held env ok call rest g"
  shows "answer_inv (Suc n) env g'"
proof -
  obtain r c where pg: "portal_gate ok True call (gw_client g) = (r, c)" by fastforce
  note acc = gate_accounts [OF pg]
  note count = in_hand_def stage_ids_def p g' gate_held_def pg
  from pg show ?thesis
  proof (cases rule: gate_effect)
    case (goes d)
    with acc show ?thesis by (intro answer_inv_next [OF inv n, of "{#}"]) (simp_all add: count)
  next
    case (failed serial)
    with pg have "accounts (call_id call) (gw_client g) (gw_client g')"
      using failed_gate_accounts [of ok True call "gw_client g" c] by (simp add: g' gate_held_def fail_call_def)
    with failed show ?thesis
      by (intro answer_inv_next [OF inv n, of "call_id call"]) (simp_all add: count fail_call_def ac_simps)
  next
    case (again m)
    with acc show ?thesis
      by (intro answer_inv_next [OF inv n, of "{#}"]) (simp_all add: count ac_simps)
  qed simp
qed

lemma accounts_same:
  assumes "cl_serial c' = cl_serial c" "cl_gone c \<Longrightarrow> cl_gone c'" "cl_closed c \<Longrightarrow> cl_closed c'"
    and "cl_pending c' = cl_pending c" "cl_private c' = cl_private c"
  shows "accounts {#} c c'"
  using assms by (intro accounts_frame) (simp_all add: serial_step_same answered_def)

lemma answer_inv_host:
  assumes inv: "answer_inv n env g" and n: "Suc n < 2 ^ 32" and w: "gw_drain g = Waiting"
    and h: "host_round env ok res (gw_client g) = (r, c)" and g': "g' = host_event env res ok g"
  shows "answer_inv (Suc n) env g'"
proof -
  have held: "ps_held (cl_portal c) = ps_held (cl_portal (gw_client g))"
    using host_round_portal [OF h] by auto
  show ?thesis
    by (cases r; rule answer_inv_next [OF inv n, of "{#}"])
      (use host_round_accounts [OF h] held in \<open>simp_all add: g' host_event_def h in_hand_def w\<close>)
qed

lemma answer_inv_drain:
  assumes inv: "answer_inv n env g" and n: "Suc n < 2 ^ 32"
    and acc: "accounts ids (gw_client g) (gw_client g')"
    and g': "gw_received g' = gw_received g" "gw_portal g' = gw_portal g" "gw_talk g' = gw_talk g"
      "gw_drain g' \<noteq> Over"
    and eq: "call_ids (drain_calls (gw_drain g)) + call_ids (ps_held (cl_portal (gw_client g)))
      = call_ids (drain_calls (gw_drain g')) + call_ids (ps_held (cl_portal (gw_client g'))) + ids"
  shows "answer_inv (Suc n) env g'"
proof (rule answer_inv_next [OF inv n acc])
  have "in_hand env g = in_hand env g' + ids"
    unfolding in_hand_def g' eq by (simp add: ac_simps)
  then show "call_ids (gw_received g') + in_hand env g = call_ids (gw_received g) + in_hand env g' + ids"
    by (simp add: g' ac_simps)
qed (simp_all add: g')

lemma answer_inv_portal:
  assumes inv: "answer_inv n env g" and n: "Suc n < 2 ^ 32"
    and acc: "accounts ids (gw_client g) (gw_client g')"
    and g': "gw_talk g' = gw_talk g" "gw_drain g' = gw_drain g"
      "ps_held (cl_portal (gw_client g')) = ps_held (cl_portal (gw_client g))"
    and eq: "call_ids (gw_received g') + stage_ids (gw_portal g)
      = call_ids (gw_received g) + stage_ids (gw_portal g') + ids"
  shows "answer_inv (Suc n) env g'"
proof (rule answer_inv_next [OF inv n acc])
  let ?rest = "call_ids (drain_calls (gw_drain g)) + call_ids (ps_held (cl_portal (gw_client g)))
    + (\<Sum>i<length (ge_talk env). stage_ids (gw_talk g i))"
  have "in_hand env g = stage_ids (gw_portal g) + ?rest" "in_hand env g' = stage_ids (gw_portal g') + ?rest"
    by (simp_all add: in_hand_def g' ac_simps)
  then show "call_ids (gw_received g') + in_hand env g = call_ids (gw_received g) + in_hand env g' + ids"
    using arg_cong [OF eq, of "\<lambda>x. x + ?rest"] by (simp add: ac_simps)
qed (simp_all add: g')

lemma answer_inv_step:
  assumes "step env e g = Some g'" and inv: "answer_inv n env g" and n: "Suc n < 2 ^ 32"
  shows "answer_inv (Suc n) env g'"
proof -
  note portal = answer_inv_portal [OF inv n] and talk = answer_inv_talk [OF inv n]
    and drain = answer_inv_drain [OF inv n]
  have bound: "i < length (ge_talk env)" if "gw_talk g i = Some s" for i s
    using inv that by (simp add: answer_inv_def Let_def)
  show ?thesis
    using assms(1)
  proof (cases rule: step_cases)
    case (portal_call msg fds)
    show ?thesis
    proof (cases "service_for (or_default (msg_destination msg)) (ge_unique env) (or_default (msg_path msg))")
      case None
      with portal_call show ?thesis
        by (intro portal [of "call_id (msg, fds, Via_Portal)"])
          (simp_all add: serve_portal_def reply_accounts stage_ids_def)
    next
      case (Some dest)
      with portal_call accounts_same [of "gw_client g" "gw_client g"] show ?thesis
        by (intro portal [of "{#}"]) (simp_all add: serve_portal_def stage_ids_def Let_def)
    qed
  next
    case portal_gate
    with inv n show ?thesis by (blast intro: answer_inv_gate)
  next
    case (portal_judge policy call d s g1)
    note keeps = judge_stage_keeps [OF portal_judge(3)] and acc = judge_stage_accounts [OF portal_judge(3)]
    from portal_judge(4) acc(1) have "accounts (case s of None \<Rightarrow> call_id call | Some _ \<Rightarrow> {#})
      (gw_client g) (gw_client g')" by simp
    then show ?thesis
      by (rule portal)
        (use keeps acc(2) portal_judge(2,4) in \<open>simp_all add: stage_ids_def [of "Some _"] ac_simps\<close>)
  next
    case (portal_send ok call out req)
    then show ?thesis
      by (intro portal [of "call_id call"]) (simp_all add: send_stage_def dispatch_accounts stage_ids_def)
  next
    case (talk_call i msg fds dest)
    with accounts_same [of "gw_client g" "gw_client g"] show ?thesis
      by (intro talk [of i "{#}"]) (simp_all add: stage_ids_def)
  next
    case (talk_judge i policy call d s g1)
    note keeps = judge_stage_keeps [OF talk_judge(3)] and acc = judge_stage_accounts [OF talk_judge(3)]
    from talk_judge(4) acc(1) have "accounts (case s of None \<Rightarrow> call_id call | Some _ \<Rightarrow> {#})
      (gw_client g) (gw_client g')" by simp
    then show ?thesis
      by (intro talk [OF bound [OF talk_judge(2)], where s = s])
        (use keeps talk_judge(2,4) acc(2) [symmetric] in
         \<open>simp_all add: stage_ids_def [of "Some _"]\<close>)
  next
    case (talk_send i ok call out req)
    then show ?thesis
      by (intro talk [OF bound [OF talk_send(2)], of "call_id call" _ None])
        (simp_all add: send_stage_def dispatch_accounts stage_ids_def)
  next
    case leaves
    with accounts_same [of "client_departed (gw_client g)" "gw_client g"] show ?thesis
      by (intro portal [of "{#}"]) (simp_all add: client_departed_def)
  next
    case host
    with inv n show ?thesis by (blast intro: answer_inv_host)
  next
    case take
    with accounts_same [of "gw_client g'" "gw_client g"] show ?thesis
      by (intro drain [of "{#}"]) (simp_all add: take_held_def Let_def)
  next
    case (another batch)
    show ?thesis
    proof (cases batch)
      case Nil
      with another accounts_same [of "gw_client g" "gw_client g"] show ?thesis
        by (intro drain [of "{#}"]) (simp_all add: next_held_def)
    next
      case (Cons call rest)
      with another accounts_same [of "gw_client g" "gw_client g"] fail_call_accounts [of call g env] show ?thesis
        by (cases "gw_listed g"; intro drain [of "if gw_listed g then {#} else call_id call"])
          (simp_all add: next_held_def fail_call_def ac_simps)
    qed
  next
    case drain_gate
    with inv n show ?thesis by (blast intro: answer_inv_drain_gate)
  next
    case (drain_judge policy call d rest s g1)
    note keeps = judge_stage_keeps [OF drain_judge(3)] and acc = judge_stage_accounts [OF drain_judge(3)]
    from drain_judge(4) acc(1) have a: "accounts (case s of None \<Rightarrow> call_id call | Some _ \<Rightarrow> {#})
      (gw_client g) (gw_client g')" by simp
    from acc(2) show ?thesis
      by (cases s; intro drain [OF a]) (use keeps drain_judge(2,4) in \<open>simp_all add: stage_ids_def ac_simps\<close>)
  next
    case (drain_send ok call out req rest)
    then show ?thesis
      by (intro drain [of "call_id call"]) (simp_all add: send_stage_def dispatch_accounts ac_simps)
  next
    case (put call rest)
    with accounts_same [of "gw_client g'" "gw_client g"] show ?thesis
      by (intro drain [of "{#}"]) (simp_all add: put_back_def Let_def ac_simps)
  qed
qed

text \<open>
  C5. Every call is answered once, until its client leaves: the calls a client made that expect an
  answer are, each the number of times it was made, those answered, those waiting for the host and
  those a thread has or holds; and when the host connection has ended none waits for the host.
\<close>

theorem calls_answered:
  assumes "run env evs (start c) = Some g" and "fresh c" and "unat (cl_serial c) + length evs < 2 ^ 32"
    and "\<not> cl_gone (gw_client g)"
  shows "call_ids (gw_received g) = answered (gw_client g) + owed (gw_client g) + in_hand env g
    \<and> (gw_drain g = Over \<longrightarrow> owed (gw_client g) = {#})"
proof -
  have "unat (cl_serial c) + length evs < 2 ^ 32 \<longrightarrow> answer_inv (unat (cl_serial c) + length evs) env g"
    using assms(1)
  proof (induction rule: run_invariant)
    case start
    from assms(2) show ?case
      by (simp add: answer_inv_def fresh_def start_def pending_ok_def answered_def owed_def in_hand_def
          stage_ids_def Let_def)
  next
    case (step evs e g1 g2)
    then show ?case using answer_inv_step [OF \<open>Gateway.step env e g1 = Some g2\<close>] by simp
  qed
  with assms(3,4) show ?thesis by (simp add: answer_inv_def owed_def Let_def)
qed

text \<open>A call is read and held, the portal having gone, and still in hand.\<close>

theorem calls_answered_witness:
  "\<exists>g. run example_env [Portal_call example_call_msg [], Portal_gate True] (start example_client) = Some g
     \<and> in_hand example_env g = {#(Via_Portal, 9)#} \<and> answered (gw_client g) + owed (gw_client g) = {#}"
proof -
  obtain g where g: "run example_env [Portal_call example_call_msg [], Portal_gate True]
      (start example_client) = Some g" and "\<not> cl_gone (gw_client g)"
    and i: "in_hand example_env g = {#(Via_Portal, 9)#}" and r: "call_ids (gw_received g) = {#(Via_Portal, 9)#}"
    by (simp add: run_def serve_portal_def start_def service_for_def example_call_msg_def or_default_def
        GATEWAY_NAMES_def gate_stage_def portal_gate_def to_portal_def example_client_def new_client_def
        host_send_def hold_def Let_def in_hand_def stage_ids_def call_ids_def call_id_def expects_reply_def
        kind_defs message_default_def)
  moreover have "fresh example_client" unfolding example_client_def by (rule new_client_fresh)
  moreover have "unat (cl_serial example_client) = 7" by (simp add: example_client_def new_client_def)
  ultimately have "call_ids (gw_received g) = answered (gw_client g) + owed (gw_client g) + in_hand example_env g"
    using calls_answered [OF g] by simp
  with g i r show ?thesis by auto
qed

section \<open>Calls that are never answered\<close>

text \<open>
  Calls held when the host connection ends stay held: nothing passes them on or answers them
  (\<open>fail_pending\<close> tells only the callers of pending calls).
\<close>

lemma held_for_ever:
  assumes "step env e g = Some g'" and "gw_drain g = Over"
  shows "gw_drain g' = Over \<and> prefix (ps_held (cl_portal (gw_client g))) (ps_held (cl_portal (gw_client g')))"
  using assms(1)
proof (cases rule: step_cases)
  case portal_call
  with assms(2) show ?thesis by (auto simp: serve_portal_def Let_def split: option.splits)
next
  case (portal_gate ok call)
  obtain r c where pg: "portal_gate ok False call (gw_client g) = (r, c)" by fastforce
  from pg show ?thesis
    by (cases rule: gate_effect) (use pg portal_gate assms(2) in \<open>simp_all add: gate_stage_def fail_call_def\<close>)
next
  case portal_judge
  with judge_stage_keeps [OF portal_judge(3)] assms(2) show ?thesis by simp
next
  case talk_judge
  with judge_stage_keeps [OF talk_judge(3)] assms(2) show ?thesis by simp
qed (use assms(2) in \<open>simp_all add: send_stage_def client_departed_def\<close>)

text \<open>
  A reply to the registration that does not decode leaves it outstanding, so every later portal
  call of the client is held.
\<close>

lemma undecodable_registration:
  "ps_registering (cl_portal (snd (host_round env ok (Inl (Undecodable u e)) c))) = ps_registering (cl_portal c)"
  by (simp add: host_round_def split: option.split)

end
