(* ===== verification/Gateway_Safety.thy ===== *)
theory Gateway_Safety
  imports Gateway
begin

text \<open>
  \<open>src/src/gateway.rs\<close>: what a client can make the gateway put on the host bus, and what of the
  host's file names it is shown.
\<close>

section \<open>Calls are checked\<close>

text \<open>The calls the gateway reads name one of its own names.\<close>

definition call_ok :: "gw_env \<Rightarrow> call \<Rightarrow> bool" where
  "call_ok env call \<longleftrightarrow>
     (case call of (msg, _, via) \<Rightarrow>
        (case via of
           Via_Portal \<Rightarrow> \<exists>name \<in> set GATEWAY_NAMES. msg_destination msg = Some name
         | Via_Talk i \<Rightarrow> i < length (ge_talk env) \<and> msg_destination msg = Some (ge_talk env ! i)))"

text \<open>
  The message that goes out for a call: with the arguments the policy gave it (the call's own when it
  gave none), the sandbox's name for the client replaced by the host's in the path and in every path
  of the arguments, under the call's signature, and with nothing else of the call. A call to a talk
  name goes out as it is. Bodies have at most \<open>2 ^ 32\<close> bytes (\<open>parse\<close> accepts none above 128 MB).
\<close>

definition body_fits :: "dvalue list \<Rightarrow> bool" where
  "body_fits args \<longleftrightarrow> length (enc_seq enc args 0) < 2 ^ 32"

definition sent_unchanged :: "message \<Rightarrow> message \<Rightarrow> bool" where
  "sent_unchanged msg out \<longleftrightarrow>
     out = message_default\<lparr>msg_kind := METHOD_CALL, msg_flags := msg_flags msg, msg_path := msg_path msg,
       msg_interface := msg_interface msg, msg_member := msg_member msg, msg_destination := msg_destination msg,
       msg_signature := msg_signature msg, msg_body := msg_body msg\<rparr>"

definition sent_with :: "string \<times> string \<Rightarrow> message \<Rightarrow> dvalue list option \<Rightarrow> message \<Rightarrow> bool" where
  "sent_with segs msg given out \<longleftrightarrow>
     (let swap = (\<lambda>p. swap_sender p (fst segs) (snd segs)) in
      msg_interface out = msg_interface msg \<and> msg_member out = msg_member msg
      \<and> (\<forall>args. (case given of None \<Rightarrow> msg_args msg | Some args \<Rightarrow> Inr args) = Inr args
            \<and> body_fits args \<and> body_fits (map (map_paths swap) args) \<longrightarrow>
          msg_args out = Inr (map (map_paths swap) args)
          \<and> out = message_default\<lparr>msg_kind := METHOD_CALL, msg_flags := msg_flags msg,
              msg_interface := msg_interface msg, msg_member := msg_member msg,
              msg_destination := msg_destination out, msg_signature := msg_signature msg,
              msg_path := map_option (\<lambda>p. case swap p of None \<Rightarrow> p | Some q \<Rightarrow> q) (msg_path msg),
              msg_body := msg_body out\<rparr>))"

text \<open>
  A message that may go to the host for a call: the call itself for a talk name; for the gateway's own
  names what a policy in force made of it, to its destination or to a portal instance that accepted
  the client's registration, and judged as an identified client's only for a client with an identity,
  whose portal calls then only go to such an instance.
\<close>

definition cleared ::
  "string option \<Rightarrow> string \<times> string \<Rightarrow> policy set \<Rightarrow> string option set \<Rightarrow> call \<Rightarrow> message \<Rightarrow> bool" where
  "cleared ident segs policies accepted call out \<longleftrightarrow>
     (case call of (msg, _, via) \<Rightarrow>
        (case via of
           Via_Talk _ \<Rightarrow> sent_unchanged msg out
         | Via_Portal \<Rightarrow>
             (msg_destination out = msg_destination msg \<or> to_portal call \<and> msg_destination out \<in> accepted)
             \<and> (\<exists>policy \<in> policies. \<exists>identified args req.
                  check policy identified msg = Forward args req \<and> sent_with segs msg args out
                  \<and> (identified \<longrightarrow> ident \<noteq> None \<and> (to_portal call \<longrightarrow> msg_destination out \<in> accepted)))))"

text \<open>
  Who accepted a registration, from what went over the wire alone: an event that brings a method
  return to a \<open>Register\<close> call with the client's identity that is in the log of the host connection.
\<close>

fun accepts :: "string option \<Rightarrow> event \<Rightarrow> gw_client \<Rightarrow> string option set" where
  "accepts ident (Host_recv (Inr (reply, fds)) ok) c =
     {owner. owner = msg_sender reply \<and> msg_kind reply = METHOD_RETURN
        \<and> (\<exists>serial app_id m. msg_reply_serial reply = Some serial \<and> ident = Some app_id
              \<and> register_msg app_id = Some m \<and> (serial, None, m) \<in> set (cl_sent c))}"
| "accepts ident _ c = {}"

fun accepted_in :: "gw_env \<Rightarrow> string option \<Rightarrow> event list \<Rightarrow> gw \<Rightarrow> string option set" where
  "accepted_in env ident [] g = {}"
| "accepted_in env ident (e # es) g =
     accepts ident e (gw_client g)
     \<union> (case step env e g of None \<Rightarrow> {} | Some g' \<Rightarrow> accepted_in env ident es g')"

lemma accepted_in_snoc:
  "run env es g = Some g' \<Longrightarrow>
     accepted_in env ident (es @ [e]) g = accepts ident e (gw_client g') \<union> accepted_in env ident es g"
proof (induction es arbitrary: g)
  case Nil
  then show ?case by (auto split: option.split)
next
  case (Cons a es)
  then obtain g1 where "step env a g = Some g1" "run env es g1 = Some g'"
    by (auto simp: run_def bind_eq_Some_conv)
  with Cons.IH show ?case by (simp add: Un_left_commute)
qed

fun stage_ok ::
  "string option \<Rightarrow> string \<times> string \<Rightarrow> policy set \<Rightarrow> string option set \<Rightarrow> gw_env \<Rightarrow> bool \<Rightarrow> stage \<Rightarrow> bool" where
  "stage_ok ident segs policies accepted env identified (Found call) = call_ok env call"
| "stage_ok ident segs policies accepted env identified (Gated call d) =
     (call_ok env call
      \<and> (d = msg_destination (fst call) \<or> to_portal call \<and> d \<in> accepted)
      \<and> (identified \<longrightarrow> to_portal call \<longrightarrow> d \<in> accepted))"
| "stage_ok ident segs policies accepted env identified (Judged call out req) =
     (call_ok env call \<and> cleared ident segs policies accepted call out)"

definition client_segs :: "gw_client \<Rightarrow> string \<times> string" where
  "client_segs c = (cl_private_seg c, cl_host_seg c)"

definition portal_ok :: "string option \<Rightarrow> string option set \<Rightarrow> gw_client \<Rightarrow> bool" where
  "portal_ok ident acc c \<longleftrightarrow>
     (let st = cl_portal c in
      (\<forall>app_id. ps_app_id st = Some app_id \<longrightarrow> ident = Some app_id \<and> ps_owner st \<in> acc)
      \<and> (\<forall>serial. ps_registering st = Some serial \<longrightarrow>
           (\<exists>app_id m. ident = Some app_id \<and> register_msg app_id = Some m \<and> (serial, None, m) \<in> set (cl_sent c))))"

definition safe_inv ::
  "string option \<Rightarrow> string \<times> string \<Rightarrow> gw_env \<Rightarrow> policy set \<Rightarrow> string option set \<Rightarrow> gw \<Rightarrow> bool" where
  "safe_inv ident segs env policies acc g \<longleftrightarrow>
     (let c = gw_client g; st = cl_portal c;
          ok = stage_ok ident segs policies acc env (ps_app_id st \<noteq> None)
      in client_segs c = segs \<and> portal_ok ident acc c
         \<and> (\<forall>s. gw_portal g = Some s \<longrightarrow> ok s)
         \<and> (\<forall>i s. gw_talk g i = Some s \<longrightarrow> ok s)
         \<and> (\<forall>s rest. gw_drain g = Passing s rest \<longrightarrow> ok s)
         \<and> list_all (call_ok env) (drain_calls (gw_drain g) @ ps_held st)
         \<and> (\<forall>serial call out. (serial, Some call, out) \<in> set (cl_sent c) \<longrightarrow>
              call_ok env call \<and> cleared ident segs policies acc call out))"

lemma cleared_mono:
  "cleared ident segs ps acc call out \<Longrightarrow> ps \<subseteq> ps' \<Longrightarrow> acc \<subseteq> acc' \<Longrightarrow> cleared ident segs ps' acc' call out"
  by (cases call) (fastforce simp: cleared_def split: via.splits)

lemma stage_ok_mono:
  "stage_ok ident segs ps acc env identified s \<Longrightarrow> ps \<subseteq> ps' \<Longrightarrow> acc \<subseteq> acc' \<Longrightarrow> (identified' \<longrightarrow> identified)
     \<Longrightarrow> stage_ok ident segs ps' acc' env identified' s"
  by (cases s) (auto dest: cleared_mono)

lemma portal_ok_mono: "portal_ok ident acc c \<Longrightarrow> acc \<subseteq> acc' \<Longrightarrow> portal_ok ident acc' c"
  by (auto simp: portal_ok_def Let_def)

lemma safe_inv_mono:
  "safe_inv ident segs env ps acc g \<Longrightarrow> ps \<subseteq> ps' \<Longrightarrow> acc \<subseteq> acc' \<Longrightarrow> safe_inv ident segs env ps' acc' g"
  unfolding safe_inv_def Let_def by (blast intro: stage_ok_mono cleared_mono portal_ok_mono)

section \<open>Rewriting keeps where a message goes\<close>

lemma set_body_keeps:
  "set_body args m = Some m' \<Longrightarrow>
     msg_interface m' = msg_interface m \<and> msg_member m' = msg_member m \<and> msg_destination m' = msg_destination m"
  by (auto simp: set_body_def split: bind_splits)

lemma rewrite_paths_keeps:
  "rewrite_paths m a b = Some m' \<Longrightarrow>
     msg_interface m' = msg_interface m \<and> msg_member m' = msg_member m \<and> msg_destination m' = msg_destination m"
  by (auto simp: rewrite_paths_def Let_def split: if_splits sum.splits option.splits dest!: set_body_keeps)

lemma or_keep_keeps [simp]:
  "msg_interface (or_keep m (set_body args m)) = msg_interface m"
  "msg_member (or_keep m (set_body args m)) = msg_member m"
  "msg_destination (or_keep m (set_body args m)) = msg_destination m"
  "msg_interface (or_keep m (rewrite_paths m a b)) = msg_interface m"
  "msg_member (or_keep m (rewrite_paths m a b)) = msg_member m"
  "msg_destination (or_keep m (rewrite_paths m a b)) = msg_destination m"
  by (auto simp: or_keep_def split: option.split dest: set_body_keeps rewrite_paths_keeps)

text \<open>The body the policy gave a message, read back.\<close>

lemma given_args:
  assumes "check policy identified msg = Forward given req" and "body_fits args"
    and "(case given of None \<Rightarrow> msg_args msg | Some args \<Rightarrow> Inr args) = Inr args"
    and o': "o' = outgoing_msg msg d"
  defines "out \<equiv> (case given of None \<Rightarrow> o' | Some args \<Rightarrow> or_keep o' (set_body args o'))"
  shows "msg_args out = Inr args" and "out = o'\<lparr>msg_body := msg_body out\<rparr>"
proof -
  have "msg_args out = Inr args \<and> out = o'\<lparr>msg_body := msg_body out\<rparr>"
  proof (cases given)
    case None
    with assms(3) o' show ?thesis by (simp add: out_def msg_args_def outgoing_msg_def)
  next
    case (Some as)
    with assms(3) have as: "as = args" by simp
    from assms(1) Some obtain ts where ts: "\<forall>t \<in> set ts. ty_ok 0 t" "msg_signature msg = show_tys ts"
      "list_all2 (wt 0) args ts" unfolding as by (auto elim: forwarded_args_typed)
    note encode_body_wt [OF ts(3)] decode_body_enc [OF ts(3,1)]
    with Some as ts(2) assms(2) o' show ?thesis
      by (simp add: out_def set_body_def or_keep_def msg_args_def outgoing_msg_def body_fits_def)
  qed
  then show "msg_args out = Inr args" "out = o'\<lparr>msg_body := msg_body out\<rparr>" by simp_all
qed

lemma sent_with_rewritten:
  assumes c: "check policy identified msg = Forward given req" and u: "utf8_str host"
    and o'_def: "o' = outgoing_msg msg d"
    and out_def: "out = (case given of None \<Rightarrow> o' | Some args \<Rightarrow> or_keep o' (set_body args o'))"
  shows "sent_with (private, host) msg given (or_keep out (rewrite_paths out private host))"
proof -
  let ?swap = "\<lambda>p. swap_sender p private host" and ?new = "or_keep out (rewrite_paths out private host)"
  have keep: "msg_interface out = msg_interface msg" "msg_member out = msg_member msg"
    by (simp_all add: out_def o'_def outgoing_msg_def split: option.split)
  have "msg_args ?new = Inr (map (map_paths ?swap) args)
      \<and> ?new = message_default\<lparr>msg_kind := METHOD_CALL, msg_flags := msg_flags msg,
          msg_interface := msg_interface msg, msg_member := msg_member msg,
          msg_destination := msg_destination ?new, msg_signature := msg_signature msg,
          msg_path := map_option (\<lambda>p. case ?swap p of None \<Rightarrow> p | Some q \<Rightarrow> q) (msg_path msg),
          msg_body := msg_body ?new\<rparr>"
    if args: "(case given of None \<Rightarrow> msg_args msg | Some args \<Rightarrow> Inr args) = Inr args"
      and fits: "body_fits args" "body_fits (map (map_paths ?swap) args)" for args
  proof -
    note given = given_args [OF c fits(1) args o'_def, folded out_def]
    obtain new where new: "rewrite_paths out private host = Some new"
      "msg_args new = Inr (map (map_paths ?swap) args)"
      "new = out\<lparr>msg_path := (case Option.bind (msg_path out) ?swap of Some p \<Rightarrow> Some p | None \<Rightarrow> msg_path out),
         msg_body := msg_body new\<rparr>"
      using rewrite_paths_swapped [OF given(1) u fits(2) [unfolded body_fits_def]] by blast
    obtain body where out: "out = o'\<lparr>msg_body := body\<rparr>" using given(2) by blast
    have mp: "msg_path out = msg_path msg" by (simp add: out o'_def outgoing_msg_def)
    have path: "(case Option.bind p ?swap of Some p \<Rightarrow> Some p | None \<Rightarrow> p)
        = map_option (\<lambda>p. case ?swap p of None \<Rightarrow> p | Some q \<Rightarrow> q) p" for p
      by (cases p) (auto split: option.split)
    have eq: "new = o'\<lparr>msg_path := map_option (\<lambda>p. case ?swap p of None \<Rightarrow> p | Some q \<Rightarrow> q) (msg_path msg),
        msg_body := msg_body new\<rparr>"
      using new(3) unfolding mp path unfolding out by (simp add: o'_def outgoing_msg_def)
    have "msg_destination new = d" using arg_cong [OF eq, of msg_destination] by (simp add: o'_def outgoing_msg_def)
    with eq have "new = message_default\<lparr>msg_kind := METHOD_CALL, msg_flags := msg_flags msg,
          msg_interface := msg_interface msg, msg_member := msg_member msg,
          msg_destination := msg_destination new, msg_signature := msg_signature msg,
          msg_path := map_option (\<lambda>p. case ?swap p of None \<Rightarrow> p | Some q \<Rightarrow> q) (msg_path msg),
          msg_body := msg_body new\<rparr>"
      by (simp add: o'_def outgoing_msg_def)
    with new(1,2) show ?thesis by (simp add: or_keep_def)
  qed
  with keep show ?thesis by (simp add: sent_with_def Let_def)
qed

lemma judge_sends:
  assumes j: "judge env policy (msg, fds, via) d c = (Sends out req, c')" and u: "utf8_str (cl_host_seg c)"
  shows "msg_destination out = d"
    and "via = Via_Talk i \<Longrightarrow> out = outgoing_msg msg d"
    and "via = Via_Portal \<Longrightarrow> \<exists>args. check policy (ps_app_id (cl_portal c) \<noteq> None) msg = Forward args req
           \<and> sent_with (client_segs c) msg args out"
proof -
  show "msg_destination out = d" using j
    by (auto simp: judge_def outgoing_msg_def Let_def split: verdict.splits via.splits option.splits)
  show "via = Via_Talk i \<Longrightarrow> out = outgoing_msg msg d" using j
    by (simp add: judge_def Let_def)
  assume v: "via = Via_Portal"
  let ?v = "check policy (ps_app_id (cl_portal c) \<noteq> None) msg" and ?o = "outgoing_msg msg d"
  from j v obtain args f where ch: "?v = Forward args f"
    by (cases ?v) (simp_all add: judge_def Let_def)
  let ?out = "case args of None \<Rightarrow> ?o | Some as \<Rightarrow> or_keep ?o (set_body as ?o)"
  from j v ch have "req = f" and out: "out = or_keep ?out (rewrite_paths ?out (cl_private_seg c) (cl_host_seg c))"
    by (simp_all add: judge_def Let_def)
  with ch sent_with_rewritten [OF ch u refl refl] show "\<exists>args. ?v = Forward args req \<and> sent_with (client_segs c) msg args out"
    unfolding client_segs_def by blast
qed

definition stage_safe ::
  "string option \<Rightarrow> string \<times> string \<Rightarrow> gw_env \<Rightarrow> policy set \<Rightarrow> string option set \<Rightarrow> gw \<Rightarrow> stage \<Rightarrow> bool" where
  "stage_safe ident segs env ps acc g =
     stage_ok ident segs ps acc env (ps_app_id (cl_portal (gw_client g)) \<noteq> None)"

lemma judge_stage_safe:
  assumes j: "judge_stage env policy call d g = (s, g1)" and inv: "safe_inv ident segs env ps acc g"
    and ok: "stage_safe ident segs env ps acc g (Gated call d)" and u: "utf8_str (snd segs)"
    and s: "s = Some s'"
  shows "stage_ok ident segs (insert policy ps) acc env identified s'"
proof -
  obtain msg fds via where call: "call = (msg, fds, via)" by (cases call)
  from j s obtain out req c' where s': "s' = Judged call out req"
    and js: "judge env policy call d (gw_client g) = (Sends out req, c')"
    by (auto simp: judge_stage_def split: prod.splits judged.splits)
  from inv have segs: "client_segs (gw_client g) = segs" by (simp add: safe_inv_def Let_def)
  with u have "utf8_str (cl_host_seg (gw_client g))" by (auto simp: client_segs_def)
  note out = judge_sends [OF js [unfolded call] this]
  have known: "ps_app_id (cl_portal (gw_client g)) \<noteq> None \<Longrightarrow> ident \<noteq> None"
    using inv by (auto simp: safe_inv_def portal_ok_def Let_def)
  have "cleared ident segs (insert policy ps) acc call out"
  proof (cases via)
    case (Via_Talk i)
    with ok have "d = msg_destination msg" by (auto simp: stage_safe_def call to_portal_def)
    with out(2) [OF Via_Talk] Via_Talk show ?thesis
      by (simp add: cleared_def call sent_unchanged_def outgoing_msg_def)
  next
    case Via_Portal
    with out(3) [OF Via_Portal] out(1) ok known segs show ?thesis
      by (auto simp: cleared_def call stage_safe_def)
  qed
  with ok s' show ?thesis by (simp add: stage_safe_def)
qed

section \<open>Every step keeps it\<close>

lemma safe_inv_next:
  assumes inv: "safe_inv ident segs env ps acc g" and ps: "ps \<subseteq> ps'" and acc: "acc \<subseteq> acc'"
    and segs: "client_segs (gw_client g') = client_segs (gw_client g)"
    and id: "ps_app_id (cl_portal (gw_client g')) \<noteq> None \<Longrightarrow> ps_app_id (cl_portal (gw_client g)) \<noteq> None"
    and reg: "portal_ok ident acc' (gw_client g')"
    and sent: "\<And>serial call out. (serial, Some call, out) \<in> set (cl_sent (gw_client g')) \<Longrightarrow>
      (serial, Some call, out) \<in> set (cl_sent (gw_client g))
      \<or> call_ok env call \<and> cleared ident segs ps' acc' call out"
    and portal: "\<And>s. gw_portal g' = Some s \<Longrightarrow> gw_portal g = Some s \<or> stage_safe ident segs env ps' acc' g' s"
    and talk: "\<And>i s. gw_talk g' i = Some s \<Longrightarrow> gw_talk g i = Some s \<or> stage_safe ident segs env ps' acc' g' s"
    and drain: "\<And>s rest. gw_drain g' = Passing s rest \<Longrightarrow>
      (\<exists>rest. gw_drain g = Passing s rest) \<or> stage_safe ident segs env ps' acc' g' s"
    and calls: "list_all (call_ok env) (drain_calls (gw_drain g') @ ps_held (cl_portal (gw_client g')))"
  shows "safe_inv ident segs env ps' acc' g'"
proof -
  let ?ok = "\<lambda>s. stage_safe ident segs env ps' acc' g' s"
  from inv have old: "stage_safe ident segs env ps acc g s"
    if "gw_portal g = Some s \<or> gw_talk g i = Some s \<or> gw_drain g = Passing s rest" for s i rest
    using that by (auto simp: safe_inv_def Let_def stage_safe_def)
  have up: "?ok s" if "stage_safe ident segs env ps acc g s" for s
    using that unfolding stage_safe_def by (rule stage_ok_mono [OF _ ps acc]) (use id in blast)
  from inv have sent_old: "call_ok env call \<and> cleared ident segs ps acc call out"
    if "(serial, Some call, out) \<in> set (cl_sent (gw_client g))" for serial call out
    using that by (auto simp: safe_inv_def Let_def)
  from inv segs have "client_segs (gw_client g') = segs" by (simp add: safe_inv_def Let_def)
  moreover have "?ok s" if "gw_portal g' = Some s" for s using portal [OF that] old up by blast
  moreover have "?ok s" if "gw_talk g' i = Some s" for i s using talk [OF that] old up by blast
  moreover have "?ok s" if "gw_drain g' = Passing s rest" for s rest using drain [OF that] old up by blast
  moreover have "call_ok env call \<and> cleared ident segs ps' acc' call out"
    if "(serial, Some call, out) \<in> set (cl_sent (gw_client g'))" for serial call out
    using sent [OF that] sent_old [of serial call out] cleared_mono [OF _ ps acc] by blast
  ultimately show ?thesis using calls reg unfolding safe_inv_def stage_safe_def Let_def by blast
qed

lemma safe_inv_facts:
  assumes "safe_inv ident segs env ps acc g"
  shows "ps_app_id (cl_portal (gw_client g)) \<noteq> None \<Longrightarrow> ps_owner (cl_portal (gw_client g)) \<in> acc"
    and "gw_portal g = Some s \<Longrightarrow> stage_safe ident segs env ps acc g s"
    and "gw_talk g i = Some s \<Longrightarrow> stage_safe ident segs env ps acc g s"
    and "gw_drain g = Passing s rest \<Longrightarrow> stage_safe ident segs env ps acc g s"
    and "list_all (call_ok env) (drain_calls (gw_drain g))"
    and "list_all (call_ok env) (ps_held (cl_portal (gw_client g)))"
    and "portal_ok ident acc (gw_client g)"
  using assms by (auto simp: safe_inv_def stage_safe_def portal_ok_def Let_def)

text \<open>A step that changes neither the identity nor the registration.\<close>

lemma portal_ok_same:
  assumes "portal_ok ident acc c" and "ps_app_id (cl_portal c') = ps_app_id (cl_portal c)"
    and "ps_owner (cl_portal c') = ps_owner (cl_portal c)"
    and "ps_registering (cl_portal c') = ps_registering (cl_portal c)" and "set (cl_sent c) \<subseteq> set (cl_sent c')"
  shows "portal_ok ident acc c'"
proof -
  have "(serial, None, m) \<in> set (cl_sent c')" if "(serial, None, m) \<in> set (cl_sent c)" for serial m
    using that assms(5) by blast
  with assms(1) show ?thesis by (auto simp: portal_ok_def assms(2-4) Let_def)
qed

lemma gate_portal_ok:
  assumes "portal_gate ok from_held call c = (r, c')" and "portal_ok ident acc c"
  shows "portal_ok ident acc c'"
  using assms(1)
proof (cases rule: gate_effect)
  case (again m app_id)
  with assms(2) show ?thesis by (auto simp: portal_ok_def Let_def hold_def split: if_splits)
qed (use assms(2) in \<open>auto intro: portal_ok_same\<close>)

lemma registered_portal_ok:
  assumes "portal_ok ident acc c" and "msg_reply_serial reply = ps_registering (cl_portal c)"
    and "ps_registering (cl_portal c) \<noteq> None"
  shows "portal_ok ident (accepts ident (Host_recv (Inr (reply, fds)) ok) c \<union> acc) (registered reply c)"
  using assms by (auto simp: portal_ok_def registered_def Let_def split: if_splits)

lemma gate_safe:
  assumes "portal_gate ok from_held call c = (Goes d, c')" and inv: "safe_inv ident segs env ps acc g"
    and c: "gw_client g = c" and "call_ok env call"
  shows "stage_safe ident segs env ps acc g (Gated call d)" and "c' = c"
proof -
  from assms(1) have "c' = c \<and> (d = msg_destination (fst call) \<or> to_portal call \<and> d \<in> acc)
      \<and> (ps_app_id (cl_portal c) \<noteq> None \<longrightarrow> to_portal call \<longrightarrow> d \<in> acc)"
  proof (cases rule: gate_effect)
    case (goes d')
    with safe_inv_facts(1) [OF inv] c show ?thesis
      by (cases "ps_app_id (cl_portal c) = None"; cases "to_portal call") auto
  next
    case again
    from again(2) show ?thesis by (simp split: if_splits)
  qed simp_all
  with assms(4) c show "stage_safe ident segs env ps acc g (Gated call d)" "c' = c"
    by (simp_all add: stage_safe_def)
qed

lemma service_for_name: "service_for d u p = Some name \<Longrightarrow> name \<in> set GATEWAY_NAMES"
  by (auto simp: service_for_def GATEWAY_NAMES_def split: option.splits if_splits)

lemma gate_portal_same:
  assumes "portal_gate ok from_held call c = (r, c')"
  shows "ps_app_id (cl_portal c') = ps_app_id (cl_portal c)" "client_segs c' = client_segs c"
    "(serial, Some call', out) \<in> set (cl_sent c') \<Longrightarrow> (serial, Some call', out) \<in> set (cl_sent c)"
    "ps_held (cl_portal c') = ps_held (cl_portal c) \<or> ps_held (cl_portal c') = ps_held (cl_portal c) @ [call]"
  using assms by (cases rule: gate_effect; auto simp: client_segs_def hold_def split: if_splits)+

text \<open>The names a client is known by never change.\<close>

lemma client_segs_simps [simp]:
  "client_segs (gw_reply_error via m name text c) = client_segs c"
  "client_segs (dispatch env ok call out req c) = client_segs c"
  "client_segs (registered reply c) = client_segs c"
  "client_segs (close_if_done c) = client_segs c"
  "client_segs (end_open_requests c) = client_segs c"
  "client_segs (fail_pending c) = client_segs c"
  "client_segs (relay_reply msg c) = client_segs c"
  "client_segs (portal_left args c) = client_segs c"
  "client_segs (snd (host_send ok origin m c)) = client_segs c"
  by (simp_all add: client_segs_def gw_reply_error_def dispatch_def host_send_def registered_def close_if_done_def
      end_open_requests_def fail_pending_def relay_reply_def portal_left_def Let_def split: option.split prod.split)

lemma relay_signal_segs [simp]: "client_segs (relay_signal env msg c) = client_segs c"
  by (simp add: client_segs_def relay_signal_def close_if_done_def Let_def split: option.split sum.split bool.split)

lemma client_segs_updates [simp]:
  "client_segs (c\<lparr>cl_portal := st\<rparr>) = client_segs c" "client_segs (c\<lparr>cl_opens := opens\<rparr>) = client_segs c"
  "client_segs (c\<lparr>cl_private := private\<rparr>) = client_segs c" "client_segs (c\<lparr>cl_closed := b\<rparr>) = client_segs c"
  "client_segs (c\<lparr>cl_gone := b\<rparr>) = client_segs c"
  by (simp_all add: client_segs_def)

lemma judge_segs: "judge env policy call d c = (j, c') \<Longrightarrow> client_segs c' = client_segs c"
  by (auto simp: judge_def Let_def split: prod.splits verdict.splits via.splits if_splits)

lemma judge_stage_segs:
  "judge_stage env policy call d g = (s, g1) \<Longrightarrow> client_segs (gw_client g1) = client_segs (gw_client g)"
  by (auto simp: judge_stage_def judge_segs split: prod.splits judged.splits)

lemma host_round_segs: "host_round env ok res c = (n, c') \<Longrightarrow> client_segs c' = client_segs c"
  by (auto simp: host_round_def refuse_call_def split: sum.splits conn_error.splits prod.splits if_splits option.splits)

lemma judge_stage_next:
  assumes j: "judge_stage env policy call d g = (s, g1)" and inv: "safe_inv ident segs env ps acc g"
    and u: "utf8_str (snd segs)" and g': "gw_client g' = gw_client g1"
    and ok: "stage_safe ident segs env ps acc g (Gated call d)"
    and portal: "\<And>t. gw_portal g' = Some t \<Longrightarrow> gw_portal g = Some t \<or> s = Some t"
    and talk: "\<And>i t. gw_talk g' i = Some t \<Longrightarrow> gw_talk g i = Some t \<or> s = Some t"
    and drain: "\<And>t rest. gw_drain g' = Passing t rest \<Longrightarrow> (\<exists>rest. gw_drain g = Passing t rest) \<or> s = Some t"
    and calls: "list_all (call_ok env) (drain_calls (gw_drain g'))"
  shows "safe_inv ident segs env (insert policy ps) acc g'"
proof -
  note keeps = judge_stage_keeps [OF j]
  have new: "stage_safe ident segs env (insert policy ps) acc g' t" if "s = Some t" for t
    using judge_stage_safe [OF j inv ok u that] by (simp add: stage_safe_def)
  show ?thesis
  proof (rule safe_inv_next [OF inv])
    show "list_all (call_ok env) (drain_calls (gw_drain g') @ ps_held (cl_portal (gw_client g')))"
      using calls safe_inv_facts(6) [OF inv] by (simp add: g' keeps)
    show "portal_ok ident acc (gw_client g')"
      by (rule portal_ok_same [OF safe_inv_facts(7) [OF inv]]) (simp_all add: g' keeps)
    show "gw_portal g' = Some t \<Longrightarrow> gw_portal g = Some t \<or> stage_safe ident segs env (insert policy ps) acc g' t" for t
      using portal new by blast
    show "gw_talk g' i = Some t \<Longrightarrow> gw_talk g i = Some t \<or> stage_safe ident segs env (insert policy ps) acc g' t" for i t
      using talk new by blast
    show "gw_drain g' = Passing t rest \<Longrightarrow>
        (\<exists>rest. gw_drain g = Passing t rest) \<or> stage_safe ident segs env (insert policy ps) acc g' t" for t rest
      using drain new by blast
  qed (auto simp: g' keeps judge_stage_segs [OF j])
qed

lemma send_stage_next:
  assumes inv: "safe_inv ident segs env ps acc g"
    and c: "gw_client g' = dispatch env ok call out req (gw_client g)"
    and st: "stage_safe ident segs env ps acc g (Judged call out req)"
    and portal: "\<And>t. gw_portal g' = Some t \<Longrightarrow> gw_portal g = Some t"
    and talk: "\<And>i t. gw_talk g' i = Some t \<Longrightarrow> gw_talk g i = Some t"
    and drain: "\<And>t rest. gw_drain g' = Passing t rest \<Longrightarrow> \<exists>rest. gw_drain g = Passing t rest"
    and calls: "list_all (call_ok env) (drain_calls (gw_drain g'))"
  shows "safe_inv ident segs env ps acc g'"
proof (rule safe_inv_next [OF inv])
  show "list_all (call_ok env) (drain_calls (gw_drain g') @ ps_held (cl_portal (gw_client g')))"
    using calls safe_inv_facts(6) [OF inv] by (simp add: c)
  show "portal_ok ident acc (gw_client g')"
    by (rule portal_ok_same [OF safe_inv_facts(7) [OF inv]]) (auto simp: c dispatch_sent)
  show "(serial, Some call', out') \<in> set (cl_sent (gw_client g')) \<Longrightarrow>
      (serial, Some call', out') \<in> set (cl_sent (gw_client g))
      \<or> call_ok env call' \<and> cleared ident segs ps acc call' out'" for serial call' out'
    using st by (auto simp: c dispatch_sent stage_safe_def split: if_splits)
qed (use portal talk drain in \<open>auto simp: c\<close>)

text \<open>A step that neither sends a call nor gets a stage past the gate or the verdict.\<close>

lemma safe_inv_frame:
  assumes inv: "safe_inv ident segs env ps acc g"
    and segs: "client_segs (gw_client g') = client_segs (gw_client g)"
    and id: "ps_app_id (cl_portal (gw_client g')) = ps_app_id (cl_portal (gw_client g))"
    and reg: "portal_ok ident acc (gw_client g')"
    and sent: "\<And>serial call out. (serial, Some call, out) \<in> set (cl_sent (gw_client g')) \<Longrightarrow>
      (serial, Some call, out) \<in> set (cl_sent (gw_client g))"
    and portal: "\<And>t. gw_portal g' = Some t \<Longrightarrow> gw_portal g = Some t \<or> stage_safe ident segs env ps acc g t"
    and talk: "\<And>i t. gw_talk g' i = Some t \<Longrightarrow> gw_talk g i = Some t \<or> stage_safe ident segs env ps acc g t"
    and drain: "\<And>t rest. gw_drain g' = Passing t rest \<Longrightarrow>
      (\<exists>rest. gw_drain g = Passing t rest) \<or> stage_safe ident segs env ps acc g t"
    and calls: "list_all (call_ok env) (drain_calls (gw_drain g') @ ps_held (cl_portal (gw_client g')))"
  shows "safe_inv ident segs env ps acc g'"
proof (rule safe_inv_next [OF inv _ _ segs _ reg])
  have same: "stage_safe ident segs env ps acc g' t = stage_safe ident segs env ps acc g t" for t
    by (simp add: stage_safe_def id)
  show "gw_portal g' = Some t \<Longrightarrow> gw_portal g = Some t \<or> stage_safe ident segs env ps acc g' t" for t
    unfolding same by (rule portal)
  show "gw_talk g' i = Some t \<Longrightarrow> gw_talk g i = Some t \<or> stage_safe ident segs env ps acc g' t" for i t
    unfolding same by (rule talk)
  show "gw_drain g' = Passing t rest \<Longrightarrow>
      (\<exists>rest. gw_drain g = Passing t rest) \<or> stage_safe ident segs env ps acc g' t" for t rest
    unfolding same by (rule drain)
qed (use sent calls id in auto)

lemma safe_inv_gate:
  assumes inv: "safe_inv ident segs env ps acc g" and p: "gw_portal g = Some (Found call)"
    and g': "g' = gate_stage env ok call g"
  shows "safe_inv ident segs env ps acc g'"
proof -
  obtain r c where pg: "portal_gate ok False call (gw_client g) = (r, c)" by fastforce
  note same = gate_portal_same [OF pg] and facts = safe_inv_facts [OF inv]
  note reg = gate_portal_ok [OF pg facts(7)]
  from facts(2) [OF p] have ok: "call_ok env call" by (simp add: stage_safe_def)
  have held: "list_all (call_ok env) (ps_held (cl_portal c))" using same(4) facts(6) ok by auto
  have fail: "portal_ok ident acc (gw_reply_error via m name why c)" for via m name why
    by (rule portal_ok_same [OF reg]) simp_all
  show ?thesis
  proof (cases r)
    case (Goes d)
    note pg' = pg [unfolded Goes]
    show ?thesis
      by (rule safe_inv_frame [OF inv])
        (use gate_safe [OF pg' inv refl ok] facts(5-7) pg' p in \<open>auto simp: g' gate_stage_def\<close>)
  qed (rule safe_inv_frame [OF inv];
      use same held facts(5) pg reg fail in \<open>auto simp: g' gate_stage_def fail_call_def\<close>)+
qed

lemma safe_inv_drain_gate:
  assumes inv: "safe_inv ident segs env ps acc g" and p: "gw_drain g = Passing (Found call) rest"
    and g': "g' = gate_held env ok call rest g"
  shows "safe_inv ident segs env ps acc g'"
proof -
  obtain r c where pg: "portal_gate ok True call (gw_client g) = (r, c)" by fastforce
  note same = gate_portal_same [OF pg] and facts = safe_inv_facts [OF inv]
  note reg = gate_portal_ok [OF pg facts(7)]
  from facts(4) [OF p] have ok: "call_ok env call" by (simp add: stage_safe_def)
  have held: "list_all (call_ok env) (ps_held (cl_portal c))" using same(4) facts(6) ok by auto
  have fail: "portal_ok ident acc (gw_reply_error via m name why c)" for via m name why
    by (rule portal_ok_same [OF reg]) simp_all
  show ?thesis
  proof (cases r)
    case (Goes d)
    note pg' = pg [unfolded Goes]
    show ?thesis
      by (rule safe_inv_frame [OF inv])
        (use gate_safe [OF pg' inv refl ok] facts(5-7) pg' p in \<open>auto simp: g' gate_held_def\<close>)
  qed (rule safe_inv_frame [OF inv];
      use same held facts(5) pg p reg fail in \<open>auto simp: g' gate_held_def fail_call_def\<close>)+
qed

text \<open>The host's answer to the registration: an acceptance is one that went over the wire.\<close>

lemma safe_inv_host:
  assumes inv: "safe_inv ident segs env ps acc g" and h: "host_round env ok res (gw_client g) = (n, c)"
    and w: "gw_drain g = Waiting" and g': "g' = host_event env res ok g"
  shows "safe_inv ident segs env ps (accepts ident (Host_recv res ok) (gw_client g) \<union> acc) g'"
proof -
  note facts = safe_inv_facts [OF inv] and segs = host_round_segs [OF h]
  have sent: "(serial, Some call, out) \<in> set (cl_sent c) \<Longrightarrow> (serial, Some call, out) \<in> set (cl_sent (gw_client g))"
    for serial call out using host_round_sent [OF h] by auto
  show ?thesis
  proof (cases "n = Drain")
    case True
    with host_round_portal [OF h] obtain reply fds where r: "res = Inr (reply, fds)"
      "msg_reply_serial reply = ps_registering (cl_portal (gw_client g))"
      "ps_registering (cl_portal (gw_client g)) \<noteq> None" and c: "c = registered reply (gw_client g)" by auto
    have id: "ps_app_id (cl_portal c) \<noteq> None \<Longrightarrow> ps_app_id (cl_portal (gw_client g)) \<noteq> None"
      by (auto simp: c registered_def Let_def split: if_splits)
    have reg: "portal_ok ident (accepts ident (Host_recv res ok) (gw_client g) \<union> acc) c"
      unfolding c r(1) by (rule registered_portal_ok [OF facts(7) r(2,3)])
    show ?thesis
      by (rule safe_inv_next [OF inv])
        (use id sent reg facts(6) h True in \<open>auto simp: g' host_event_def c\<close>)
  next
    case False
    with host_round_portal [OF h] have p: "cl_portal c = cl_portal (gw_client g)" by auto
    have "set (cl_sent (gw_client g)) \<subseteq> set (cl_sent c)" using host_round_sent [OF h] by auto
    with p facts(7) have reg: "portal_ok ident acc c" by (auto intro: portal_ok_same)
    have "safe_inv ident segs env ps acc g'"
      by (rule safe_inv_frame [OF inv])
        (use False p segs sent reg facts(5,6) h w in \<open>auto simp: g' host_event_def split: host_next.splits\<close>)
    then show ?thesis by (rule safe_inv_mono) auto
  qed
qed

fun judged_under :: "event \<Rightarrow> policy set" where
  "judged_under (Portal_judge policy) = {policy}"
| "judged_under (Talk_judge _ policy) = {policy}"
| "judged_under (Drain_judge policy) = {policy}"
| "judged_under _ = {}"

lemma safe_inv_step:
  assumes "step env e g = Some g'" and inv: "safe_inv ident segs env ps acc g" and u: "utf8_str (snd segs)"
  shows "safe_inv ident segs env (judged_under e \<union> ps) (accepts ident e (gw_client g) \<union> acc) g'"
proof -
  note facts = safe_inv_facts [OF inv]
  have wider: "safe_inv ident segs env (judged_under e \<union> ps) (accepts ident e (gw_client g) \<union> acc) g'"
    if "safe_inv ident segs env ps acc g'"
    using that by (rule safe_inv_mono) auto
  have judged: "safe_inv ident segs env (judged_under e \<union> ps) (accepts ident e (gw_client g) \<union> acc) g'"
    if "safe_inv ident segs env (insert policy ps) acc g'" and "judged_under e = {policy}" for policy
    using that(1) by (rule safe_inv_mono) (use that(2) in auto)
  have calls: "list_all (call_ok env) (drain_calls (gw_drain g) @ ps_held (cl_portal (gw_client g)))"
    using facts(5,6) by simp
  show ?thesis
    using assms(1)
  proof (cases rule: step_cases)
    case (portal_call msg fds)
    have "portal_ok ident acc (gw_client g')"
      by (rule portal_ok_same [OF facts(7)]) (auto simp: portal_call serve_portal_def Let_def split: option.split)
    then show ?thesis
      by (intro wider safe_inv_frame [OF inv])
        (use portal_call calls in \<open>auto simp: serve_portal_def stage_safe_def call_ok_def Let_def
           split: option.splits dest: service_for_name\<close>)
  next
    case portal_gate
    show ?thesis by (rule wider, rule safe_inv_gate [OF inv portal_gate(2,3)])
  next
    case (portal_judge policy call d s g1)
    note keeps = judge_stage_keeps [OF portal_judge(3)]
    have "safe_inv ident segs env (insert policy ps) acc g'"
      by (rule judge_stage_next [OF portal_judge(3) inv u])
        (use keeps facts(2) [OF portal_judge(2)] facts(5) portal_judge(4) in auto)
    then show ?thesis by (rule judged) (simp add: portal_judge(1))
  next
    case (portal_send ok call out req)
    show ?thesis
      by (rule wider, rule send_stage_next [OF inv])
        (use portal_send facts(2) [OF portal_send(2)] facts(5) in \<open>auto simp: send_stage_def\<close>)
  next
    case (talk_call i msg fds dest)
    show ?thesis
      by (rule wider, rule safe_inv_frame [OF inv])
        (use talk_call calls facts(7) in \<open>auto simp: stage_safe_def call_ok_def to_portal_def split: if_splits\<close>)
  next
    case (talk_judge i policy call d s g1)
    note keeps = judge_stage_keeps [OF talk_judge(3)]
    have "safe_inv ident segs env (insert policy ps) acc g'"
      by (rule judge_stage_next [OF talk_judge(3) inv u])
        (use keeps facts(3) [OF talk_judge(2)] facts(5) talk_judge(4) in \<open>auto split: if_splits\<close>)
    then show ?thesis by (rule judged) (simp add: talk_judge(1))
  next
    case (talk_send i ok call out req)
    show ?thesis
      by (rule wider, rule send_stage_next [OF inv])
        (use talk_send facts(3) [OF talk_send(2)] facts(5) in \<open>auto simp: send_stage_def split: if_splits\<close>)
  next
    case leaves
    have "portal_ok ident acc (gw_client g')"
      by (rule portal_ok_same [OF facts(7)]) (simp_all add: leaves client_departed_def)
    then show ?thesis
      by (intro wider safe_inv_frame [OF inv]) (use leaves calls in \<open>auto simp: client_departed_def\<close>)
  next
    case host
    with safe_inv_host [OF inv host(3,2,4)] show ?thesis by simp
  next
    case take
    have "portal_ok ident acc (gw_client g')"
      by (rule portal_ok_same [OF facts(7)]) (simp_all add: take take_held_def Let_def)
    then show ?thesis
      by (intro wider safe_inv_frame [OF inv]) (use take calls in \<open>auto simp: take_held_def Let_def split: if_splits\<close>)
  next
    case (another batch)
    have "portal_ok ident acc (gw_client g')"
      by (rule portal_ok_same [OF facts(7)])
        (auto simp: another next_held_def fail_call_def split: list.split)
    then show ?thesis
      by (intro wider safe_inv_frame [OF inv])
        (use another calls in \<open>auto simp: next_held_def fail_call_def stage_safe_def split: list.splits if_splits\<close>)
  next
    case drain_gate
    show ?thesis by (rule wider, rule safe_inv_drain_gate [OF inv drain_gate(2,3)])
  next
    case (drain_judge policy call d rest s g1)
    note keeps = judge_stage_keeps [OF drain_judge(3)]
    have "safe_inv ident segs env (insert policy ps) acc g'"
      by (rule judge_stage_next [OF drain_judge(3) inv u])
        (use keeps facts(4) [OF drain_judge(2)] facts(5) drain_judge(2,4) judge_stage_settled [OF drain_judge(3)] in
         \<open>auto split: option.splits\<close>)
    then show ?thesis by (rule judged) (simp add: drain_judge(1))
  next
    case (drain_send ok call out req rest)
    show ?thesis
      by (rule wider, rule send_stage_next [OF inv])
        (use drain_send facts(4) [OF drain_send(2)] facts(5) in \<open>auto simp: send_stage_def\<close>)
  next
    case (put call rest)
    have "portal_ok ident acc (gw_client g')"
      by (rule portal_ok_same [OF facts(7)]) (simp_all add: put put_back_def Let_def)
    then show ?thesis
      by (intro wider safe_inv_frame [OF inv]) (use put calls in \<open>auto simp: put_back_def Let_def\<close>)
  qed
qed

text \<open>What a new client is registered as, and by whom.\<close>

definition registered_as :: "string option \<Rightarrow> conn_error + message \<Rightarrow> string option" where
  "registered_as identity reply = (case reply of Inl _ \<Rightarrow> None | Inr _ \<Rightarrow> identity)"

definition accepted ::
  "gw_env \<Rightarrow> string option \<Rightarrow> conn_error + message \<Rightarrow> event list \<Rightarrow> gw \<Rightarrow> string option set" where
  "accepted env identity reply evs g =
     {owner. identity \<noteq> None \<and> (\<exists>r. reply = Inr r \<and> owner = msg_sender r)}
     \<union> accepted_in env (registered_as identity reply) evs g"

text \<open>A unique name is ASCII, and so is the form of it that object paths use.\<close>

lemma escape_unique_utf8:
  assumes "\<forall>ch \<in> set name. unat (byte_of ch) < 128"
  shows "utf8_str (escape_unique name)"
  unfolding utf8_str_def
  by (rule utf8_valid_ascii)
    (use assms in \<open>auto simp: escape_unique_def byte_of_def dest: set_dropWhileD\<close>)

text \<open>
  C2. Nothing a sandbox calls reaches the host unchecked, whatever the threads interleave. A call to a
  talk name goes out as it is. A call to the gateway's own names passed the policy in force when it
  was judged and carries the arguments that policy gave it (its own when it gave none), with the
  client's name on the private bus replaced by that of its host connection in every object path; it
  goes where it was addressed or to a portal instance that accepted the client's registration: a
  method return to a \<open>Register\<close> call with the client's identity. It is judged as an identified
  client's only when the client has an identity and was registered, and its portal calls then only go
  to such an instance. The unique name of the host connection is ASCII, as D-Bus has it.
\<close>

theorem sent_calls_checked:
  assumes "run env evs (start (new_client sender host_unique identity reply owner_of first)) = Some g"
    and "\<forall>ch \<in> set host_unique. unat (byte_of ch) < 128"
    and "(serial, Some call, out) \<in> set (cl_sent (gw_client g))"
  shows "call_ok env call
    \<and> cleared (registered_as identity reply) (escape_unique sender, escape_unique host_unique)
        (\<Union> (judged_under ` set evs))
        (accepted env identity reply evs (start (new_client sender host_unique identity reply owner_of first)))
        call out"
proof -
  let ?c = "new_client sender host_unique identity reply owner_of first"
  let ?ident = "registered_as identity reply" and ?segs = "(escape_unique sender, escape_unique host_unique)"
  have "safe_inv ?ident ?segs env (\<Union> (judged_under ` set evs)) (accepted env identity reply evs (start ?c)) g"
    using assms(1)
  proof (induction rule: run_invariant)
    case start
    show ?case
      by (auto simp: safe_inv_def start_def new_client_def client_segs_def portal_ok_def accepted_def
          registered_as_def Let_def split: option.split sum.split)
  next
    case (step evs e g1 g2)
    have "accepted env identity reply (evs @ [e]) (start ?c)
        = accepts ?ident e (gw_client g1) \<union> accepted env identity reply evs (start ?c)"
      by (auto simp: accepted_def accepted_in_snoc [OF step(1)])
    then show ?case
      using safe_inv_step [OF \<open>Gateway.step env e g1 = Some g2\<close> step.IH] escape_unique_utf8 [OF assms(2)] by (simp add: Un_commute)
  qed
  with assms(3) show ?thesis by (simp add: safe_inv_def Let_def)
qed

text \<open>A call to a talk name, sent unchanged.\<close>

definition example_talk_msg :: message where
  "example_talk_msg = message_default\<lparr>msg_kind := METHOD_CALL, msg_serial := 11, msg_interface := Some ''org.example.Talk'',
     msg_member := Some ''Say'', msg_sender := Some '':1.7''\<rparr>"

theorem sent_calls_checked_witness:
  "\<exists>g call out accepted. run example_env [Talk_call 0 example_talk_msg [], Talk_judge 0 policy_default, Talk_send 0 True]
       (start example_client) = Some g
     \<and> (7, Some call, out) \<in> set (cl_sent (gw_client g))
     \<and> cleared (Some ''org.example.App'') (''1_7'', ''1_42'') {policy_default} accepted call out
     \<and> msg_destination out = Some ''org.example.Talk''"
proof -
  obtain g call out where g: "run example_env [Talk_call 0 example_talk_msg [], Talk_judge 0 policy_default,
      Talk_send 0 True] (start example_client) = Some g"
    and m: "(7, Some call, out) \<in> set (cl_sent (gw_client g))"
    and d: "msg_destination out = Some ''org.example.Talk''"
    by (simp add: run_def start_def example_talk_msg_def example_env_def judge_stage_def judge_def
        send_stage_def dispatch_def example_client_def new_client_def host_send_def settle_def to_portal_def
        outgoing_msg_def message_default_def expects_reply_def kind_defs Let_def)
  from sent_calls_checked [OF g [unfolded example_client_def] _ m] g m d show ?thesis
    by (auto simp: byte_of_def registered_as_def escape_unique_def)
qed

section \<open>File names of the host\<close>

lemma set_map_filter_Some: "set (List.map_filter f xs) = {y. \<exists>x \<in> set xs. f x = Some y}"
  by (induction xs) (auto simp: List.map_filter_simps split: option.splits)

text \<open>A URI that names a file the gateway has exposed to the sandbox.\<close>

definition exposed_uri :: "gw_env \<Rightarrow> file_request \<Rightarrow> string \<Rightarrow> bool" where
  "exposed_uri env kind uri \<longleftrightarrow>
     (\<exists>host path. ge_expose env host (kind = Save) = Some path \<and> uri = path_to_uri path)"

lemma expose_uri_exposed: "expose_uri env kind uri = Some u \<Longrightarrow> exposed_uri env kind u"
  by (auto simp: expose_uri_def exposed_uri_def bind_eq_Some_conv)

text \<open>
  C40. The files of a response are the sandbox's: in the results of a file dialog or a screenshot that
  succeeded, every URI shown to the client is that of a path exposed to it, and a screenshot that
  cannot be exposed is withheld.
\<close>

theorem results_exposed:
  assumes "map_file_results env [U32 0, results] kind = [code, shown]" and "is_dict results"
  shows "(kind = Screenshot \<longrightarrow> (case dict_get shown ''uri'' of None \<Rightarrow> True | Some v \<Rightarrow> \<exists>u. v = Str u \<and> exposed_uri env kind u))
    \<and> (\<forall>e vs. kind \<noteq> Screenshot \<and> dict_get shown ''uris'' = Some (Array e vs) \<longrightarrow>
         (\<forall>v \<in> set vs. \<exists>u. v = Str u \<and> exposed_uri env kind u))"
proof (cases "kind = Screenshot")
  case True
  with assms show ?thesis
    by (auto simp: map_file_results_def nth_opt_def dict_get_set dict_get_remove bind_eq_Some_conv dest: expose_uri_exposed
        split: option.splits)
next
  case False
  show ?thesis
  proof (cases "\<exists>e vs. dict_get results ''uris'' = Some (Array e vs)")
    case True
    then obtain e vs where u: "dict_get results ''uris'' = Some (Array e vs)" by blast
    with False assms have "shown = dict_set results ''uris''
        (Array ''s'' (map Str (List.map_filter (expose_uri env kind) (List.map_filter as_str vs))))"
      by (auto simp: map_file_results_def nth_opt_def)
    with False assms(2) show ?thesis
      by (auto simp: dict_get_set set_map_filter_Some dest: expose_uri_exposed)
  next
    case none: False
    with False assms have "shown = results"
      by (auto simp: map_file_results_def nth_opt_def split: option.splits dvalue.splits)
    with none False show ?thesis by auto
  qed
qed

definition only_notes :: gw_env where
  "only_notes = example_env\<lparr>ge_expose := (\<lambda>p _. if p = bytes_of ''/home/u/n'' then Some (bytes_of ''/run/doc/n'') else None)\<rparr>"

theorem results_exposed_witness:
  "\<exists>code shown. map_file_results only_notes
       [U32 0, Dict ''s'' ''v'' [(Str ''uris'', Variant (Array ''s'' [Str ''file:///home/u/n'', Str ''file:///etc/x'']))]] Open
     = [code, shown]
   \<and> (\<forall>e vs. dict_get shown ''uris'' = Some (Array e vs) \<longrightarrow> (\<forall>v \<in> set vs. \<exists>u. v = Str u \<and> exposed_uri only_notes Open u))"
proof -
  let ?results = "Dict ''s'' ''v'' [(Str ''uris'', Variant (Array ''s'' [Str ''file:///home/u/n'', Str ''file:///etc/x'']))]"
  obtain code shown where m: "map_file_results only_notes [U32 0, ?results] Open = [code, shown]"
    by (simp add: map_file_results_def nth_opt_def)
  from results_exposed [OF m] m show ?thesis by auto
qed

section \<open>Signals\<close>

text \<open>The owners are those of the gateway's names, one for each.\<close>

definition owners_ok :: "(string, string) btree \<Rightarrow> bool" where
  "owners_ok owners \<longleftrightarrow> bt_ok owners \<and> fst ` set owners \<subseteq> set GATEWAY_NAMES"

lemma owner_changed_ok: "owners_ok owners \<Longrightarrow> owners_ok (owner_changed args owners)"
  by (auto simp: owners_ok_def owner_changed_def keys_bt_insert bt_remove_def split: option.split)

lemma relay_signal_owner:
  assumes "cl_private (relay_signal env msg c) \<noteq> cl_private c" and "owners_ok (cl_owners c)"
  shows "\<exists>name \<in> set GATEWAY_NAMES. bt_get (cl_owners c) name = msg_sender msg \<and> msg_sender msg \<noteq> None
    \<and> signal_forwarded (or_default (msg_path msg)) (or_default (msg_interface msg))"
proof -
  from assms(1) obtain s where s: "msg_sender msg = Some s" "s \<in> snd ` set (cl_owners c)"
    and f: "signal_forwarded (or_default (msg_path msg)) (or_default (msg_interface msg))"
    unfolding relay_signal_def by (auto split: if_splits option.splits)
  from s(2) obtain name where "(name, s) \<in> set (cl_owners c)" by auto
  with assms(2) s(1) f show ?thesis
    by (intro bexI [of _ name]) (auto simp: owners_ok_def bt_get_mem)
qed

end
