(* ===== verification/Spec2Isabelle.thy ===== *)
theory Spec2Isabelle
  imports Dbus_Conn Portal Spec_Json Plan_Host Seccomp Devices Wire Scale Supervisor_Devices Supervisor_Mounts Supervisor_Launches
    Gateway_Answers Gateway_Safety
begin

text \<open>
  \<^bold>\<open>psbox\<close> runs desktop applications in sandboxes built on Linux namespaces. This development
  models the parts of the program (\<open>src/src\<close>) that decide something: what a config means, what a
  sandbox is made of, what a reload changes, what the sandboxed programs may say to the host.

  \<^bold>\<open>The parts and how they interact.\<close> The client evaluates a config (Jsonnet, outside the model) and
  \<open>spec.rs\<close> checks the result and turns it into a \<open>Spec\<close>; \<open>plan.rs\<close> makes of it, with the host, a
  \<open>Plan\<close>: mounts, environment, apps, network, device classes. The supervisor (\<open>supervisor.rs\<close>), one for each
  sandbox, builds the plan, serves launches, applies a changed config to the running sandbox with \<open>diff\<close>,
  publishes host devices (\<open>devices.rs\<close>), mounts what the user asks for and stops when idle. Its D-Bus
  gateway (\<open>gateway.rs\<close>) connects the sandbox's private bus to the host bus through the policy of
  \<open>portal.rs\<close>, over the connection of \<open>dbus/conn.rs\<close> and the codec of \<open>dbus/message.rs\<close> and \<open>dbus/value.rs\<close>.
  Processes run under the seccomp filter of \<open>sys/seccomp.rs\<close>; X11 windows get title bars from
  \<open>decorations/\<close>, which speaks the Wayland wire format of \<open>decorations/wire.rs\<close>.

  \<^bold>\<open>Theories.\<close>
  \<^item> \<open>Prelude\<close>, \<open>Btree\<close>, \<open>Numbers\<close>, \<open>Text\<close>, \<open>Paths\<close>, \<open>Framing\<close>: the standard library as the sources use it
    (error sums and fallible folds, ordered maps as association lists, number and line parsing, paths as
    lists of components, the locale of a framed stream that the D-Bus and Wayland readers interpret).
  \<^item> \<open>Dbus_Value\<close> (the values, the reader with its panics and depth limit, the writer), \<open>Dbus_Types\<close>,
    \<open>Dbus_Codec\<close>, \<open>Dbus_Roundtrip\<close>, \<open>Dbus_Sound\<close> (types, a reference encoding, both directions of the round
    trip, and that decoding never panics), \<open>Dbus_Dict\<close> (dictionaries as a keyed store), \<open>Dbus_Message\<close>
    (messages), \<open>Dbus_Conn\<close> (the connection: sending, reading, calls).
  \<^item> \<open>Portal\<close>: the policy \<open>check\<close>, rewriting of request paths, file URIs; lemmas on what passes.
  \<^item> \<open>Gateway_Client\<close>, \<open>Gateway\<close>, \<open>Gateway_Answers\<close>, \<open>Gateway_Safety\<close>: \<open>gateway.rs\<close>, one function for each
    stretch of code under one lock, and the threads as a step function over all interleavings; the order
    of portal calls, the account of answers, and what can reach the host.
  \<^item> \<open>Checker\<close>, \<open>Spec_Config\<close>, \<open>Spec_Parse\<close>, \<open>Spec_Entries\<close> (\<open>spec.rs\<close>: the config types and each check),
    \<open>Spec_Check\<close>, \<open>Spec_Accepted\<close> (what an accepted config satisfies), \<open>Spec_Json\<close> (the printed config read back).
  \<^item> \<open>Identity\<close>, \<open>Plan_Diff\<close>, \<open>Plan_Build\<close>, \<open>Plan_Host\<close>: \<open>plan.rs\<close>: instance keys, \<open>diff\<close> against the
    kernel's rules of mounting, \<open>build\<close>, and \<open>preflight\<close> with the host as a parameter.
  \<^item> \<open>Supervisor_State\<close>, \<open>Supervisor_Devices\<close>, \<open>Supervisor_Mounts\<close>, \<open>Supervisor_Launches\<close>: \<open>supervisor.rs\<close>
    with \<open>identity.rs\<close>, \<open>inject.rs\<close>, \<open>sys/cgroup.rs\<close>: device nodes, live mounts and reloads, launches, the idle
    watch, over a kernel whose every call may fail.
  \<^item> \<open>Seccomp\<close> (the filter and a BPF machine), \<open>Devices\<close>, \<open>Wire\<close>, \<open>Scale\<close>.

  \<^bold>\<open>Parameters.\<close> What the program asks the kernel, the file system, the bus or a service is an argument:
  the answers of each system call (a world of scripted results in the supervisor theories), the items
  \<open>recvmsg\<close> returns and the bytes \<open>sendmsg\<close> takes, the host's environment and files, the constants of
  the libc crate, the floating-point ratio of two display sizes. Strings are lists of bytes.

  \<^bold>\<open>Fuel and bounds.\<close> The value reader recurses under the source's own depth limit (64) and a fuel that the
  soundness lemmas show is never used up; waiting for a reply is bounded by the bytes of the stream, each
  round taking a message off it; link resolution uses the number of links given. Words keep their width
  (serials wrap, and the theorem that needs fresh serials says so).

  \<^bold>\<open>Not modelled.\<close> Jsonnet evaluation and the library of profiles, the command line and its reports,
  installing desktop entries, drawing and proxying windows (\<open>decorations/frame.rs\<close>, \<open>decorations/proxy.rs\<close>), and the
  system-call sequences that build namespaces, start processes and watch files: these are input and
  output around the parts above, or code of third-party libraries. Of modelled files, the calls that only
  log, the setup of sockets and threads, and the refreshing of overlays and sockets after a reload are
  left out.
\<close>

end
